(* ===== verification/FTP_Prelude.thy ===== *)
theory FTP_Prelude
  imports Main "HOL-Library.Word" "HOL-Library.State_Monad"
begin

text \<open>
  Shared vocabulary of the development: C strings, the C library routines the server uses on
  them (\<open>isspace\<close>, \<open>toupper\<close>, \<open>strncpy\<close> and \<open>snprintf\<close> into fixed buffers, \<open>strstr\<close>, the
  numeric conversions of \<open>sscanf\<close>, \<open>strtoll\<close> and \<open>printf\<close>) and the state monad in which the
  stateful parts are written, with a Hoare-style predicate whose rules are collected in
  \<open>hoare\<close>.

  A C string is the list of its bytes up to, and without, the terminating NUL. The behaviour of
  the library routines is the one of glibc on a 64-bit target in the C locale: \<open>char\<close> is
  signed, \<open>int\<close> has 32 bits, \<open>long\<close>, \<open>long long\<close> and \<open>size_t\<close> have 64.
\<close>

named_theorems hoare \<open>composition rules for the Hoare predicate on state transformers\<close>
named_theorems cstring \<open>facts about C strings and fixed buffers\<close>

unbundle bit_operations_syntax

section \<open>C strings and fixed-size buffers\<close>

type_synonym u8 = "8 word"
type_synonym u16 = "16 word"
type_synonym u32 = "32 word"
type_synonym u64 = "64 word"

abbreviation CR :: char where "CR \<equiv> CHR 0x0D"
abbreviation LF :: char where "LF \<equiv> CHR 0x0A"
abbreviation NUL :: char where "NUL \<equiv> CHR 0x00"

text \<open>The C string that starts at the first byte of a memory area.\<close>

definition cstr :: "string \<Rightarrow> string" where
  "cstr bs = takeWhile (\<lambda>c. c \<noteq> NUL) bs"

text \<open>
  The idiom \<open>strncpy(dst, src, sizeof(dst) - 1); dst[sizeof(dst) - 1] = '\0'\<close>: the string that
  \<open>dst\<close>, a buffer of \<open>n\<close> bytes, holds afterwards. \<open>snprintf\<close> into \<open>n\<close> bytes leaves the same
  prefix, and returns the length it would have needed.
\<close>

definition strncpy_buf :: "nat \<Rightarrow> string \<Rightarrow> string" where
  "strncpy_buf n s = take (n - 1) s"

definition snprintf_buf :: "nat \<Rightarrow> string \<Rightarrow> string" where
  "snprintf_buf n s = take (n - 1) s"

text \<open>
  \<open>strncat(dst, src, n - strlen(dst) - 1)\<close> for a \<open>dst\<close> of \<open>n\<close> bytes.
\<close>

definition strncat_buf :: "nat \<Rightarrow> string \<Rightarrow> string \<Rightarrow> string" where
  "strncat_buf n d s = d @ take (n - length d - 1) s"

lemma length_strncpy_buf [cstring]: "0 < n \<Longrightarrow> length (strncpy_buf n s) < n"
  by (simp add: strncpy_buf_def)

lemma strncpy_buf_id [cstring]: "length s < n \<Longrightarrow> strncpy_buf n s = s"
  by (simp add: strncpy_buf_def)

lemma snprintf_buf_id [cstring]: "length s < n \<Longrightarrow> snprintf_buf n s = s"
  by (simp add: snprintf_buf_def)

lemma strncat_buf_id [cstring]: "length d + length s < n \<Longrightarrow> strncat_buf n d s = d @ s"
  by (simp add: strncat_buf_def)

lemma set_strncpy_buf [cstring]: "set (strncpy_buf n s) \<subseteq> set s"
  by (auto simp: strncpy_buf_def dest: in_set_takeD)

text \<open>\<open>isspace\<close> and \<open>toupper\<close> of the C locale, on the byte as an \<open>unsigned char\<close>.\<close>

definition byte :: "char \<Rightarrow> nat" where
  "byte c = of_char c"

definition isspace :: "char \<Rightarrow> bool" where
  "isspace c \<longleftrightarrow> byte c = 32 \<or> (9 \<le> byte c \<and> byte c \<le> 13)"

definition toupper :: "char \<Rightarrow> char" where
  "toupper c = (if 97 \<le> byte c \<and> byte c \<le> 122 then char_of (byte c - 32) else c)"

text \<open>The value of a (signed) \<open>char\<close> when it is promoted to \<open>int\<close>.\<close>

definition signed_char :: "char \<Rightarrow> int" where
  "signed_char c = (if byte c < 128 then int (byte c) else int (byte c) - 256)"

lemma byte_less_256 [simp]: "byte c < 256"
  by (simp add: byte_def)

lemma byte_char_of [simp]: "n < 256 \<Longrightarrow> byte (char_of n) = n"
  by (simp add: byte_def)

lemma byte_inject: "byte c = byte d \<longleftrightarrow> c = d"
  by (simp add: byte_def)

lemma toupper_idem [simp]: "toupper (toupper c) = toupper c"
  by (auto simp: toupper_def)

lemma isspace_toupper [simp]: "isspace (toupper c) = isspace c"
  by (auto simp: toupper_def isspace_def)

text \<open>\<open>strstr(s, sub) != NULL\<close>, and the part of \<open>s\<close> before the first occurrence of \<open>sub\<close>.\<close>

fun has_prefix :: "string \<Rightarrow> string \<Rightarrow> bool" where
  "has_prefix [] s = True"
| "has_prefix (p # ps) [] = False"
| "has_prefix (p # ps) (c # cs) = (p = c \<and> has_prefix ps cs)"

fun contains :: "string \<Rightarrow> string \<Rightarrow> bool" where
  "contains sub [] = (sub = [])"
| "contains sub (c # cs) = (has_prefix sub (c # cs) \<or> contains sub cs)"

fun before_sub :: "string \<Rightarrow> string \<Rightarrow> string" where
  "before_sub sub [] = []"
| "before_sub sub (c # cs) = (if has_prefix sub (c # cs) then [] else c # before_sub sub cs)"

lemma has_prefix_iff: "has_prefix p s \<longleftrightarrow> (\<exists>t. s = p @ t)"
  by (induction p s rule: has_prefix.induct) auto

lemma contains_append: "has_prefix sub s \<Longrightarrow> contains sub (a @ s)"
proof (induction a)
  case Nil
  then show ?case by (cases s) (auto simp: has_prefix_iff)
qed auto

lemma contains_iff: "contains sub s \<longleftrightarrow> (\<exists>a b. s = a @ sub @ b)"
proof
  show "contains sub s \<Longrightarrow> \<exists>a b. s = a @ sub @ b"
  proof (induction s)
    case (Cons c cs)
    show ?case
    proof (cases "has_prefix sub (c # cs)")
      case True
      then show ?thesis by (metis append_Nil has_prefix_iff)
    next
      case False
      with Cons.prems have "contains sub cs" by simp
      then obtain a b where "cs = a @ sub @ b" using Cons.IH by blast
      then show ?thesis by (metis append_Cons)
    qed
  qed simp
  show "\<exists>a b. s = a @ sub @ b \<Longrightarrow> contains sub s"
    by (auto simp: has_prefix_iff intro: contains_append)
qed

lemma before_sub_append: "\<not> contains sub s \<Longrightarrow> before_sub sub s = s"
  by (induction s) auto

text \<open>
  The tokens that repeated calls of \<open>strtok_r\<close> with one delimiter return: the non-empty maximal
  runs without it.
\<close>

fun split_at :: "char \<Rightarrow> string \<Rightarrow> string list" where
  "split_at x [] = [[]]"
| "split_at x (c # cs) = (if c = x then [] # split_at x cs
     else (c # hd (split_at x cs)) # tl (split_at x cs))"

definition strtok :: "char \<Rightarrow> string \<Rightarrow> string list" where
  "strtok x s = filter (\<lambda>w. w \<noteq> []) (split_at x s)"

lemma split_at_nonempty [simp]: "split_at x s \<noteq> []"
  by (cases s) auto

lemma split_at_free: "w \<in> set (split_at x s) \<Longrightarrow> x \<notin> set w \<and> set w \<subseteq> set s"
proof (induction s arbitrary: w)
  case (Cons c cs)
  show ?case
  proof (cases "c = x \<or> w \<in> set (tl (split_at x cs))")
    case True
    with Cons show ?thesis by (fastforce dest: list.set_sel(2) [rotated] split: if_splits)
  next
    case False
    with Cons.prems have "w = c # hd (split_at x cs)" by auto
    with Cons.IH [of "hd (split_at x cs)"] False show ?thesis by auto
  qed
qed simp

lemma split_at_append: "split_at x (a @ x # b) = split_at x a @ split_at x b"
  by (induction a) auto

lemma split_at_id: "x \<notin> set w \<Longrightarrow> split_at x w = [w]"
  by (induction w) auto

lemma strtok_append: "strtok x (a @ x # b) = strtok x a @ strtok x b"
  by (simp add: strtok_def split_at_append)

lemma strtok_Nil [simp]: "strtok x [] = []"
  by (simp add: strtok_def)

lemma strtok_Cons_sep [simp]: "strtok x (x # b) = strtok x b"
  using strtok_append [of x "[]" b] by simp

lemma strtok_token: "x \<notin> set w \<Longrightarrow> w \<noteq> [] \<Longrightarrow> strtok x w = [w]"
  by (simp add: strtok_def split_at_id)

lemma strtok_free: "w \<in> set (strtok x s) \<Longrightarrow> w \<noteq> [] \<and> x \<notin> set w \<and> set w \<subseteq> set s"
  using split_at_free [of w x s] by (auto simp: strtok_def)

lemma strtok_concat:
  "\<forall>w \<in> set ws. w \<noteq> [] \<and> x \<notin> set w \<Longrightarrow> strtok x (concat (map (\<lambda>w. x # w) ws)) = ws"
proof (induction ws)
  case (Cons w ws)
  then show ?case
    by (cases ws) (auto simp: strtok_append strtok_token)
qed simp

section \<open>Decimal and hexadecimal numbers\<close>

definition digit_char :: "nat \<Rightarrow> char" where
  "digit_char d = char_of (48 + d)"

definition is_digit :: "char \<Rightarrow> bool" where
  "is_digit c \<longleftrightarrow> 48 \<le> byte c \<and> byte c \<le> 57"

text \<open>The text that \<open>printf\<close> writes for \<open>%u\<close>, \<open>%d\<close>, \<open>%lld\<close>.\<close>

fun dec :: "nat \<Rightarrow> string" where
  "dec n = (if n < 10 then [digit_char n] else dec (n div 10) @ [digit_char (n mod 10)])"

declare dec.simps [simp del]

definition dec_int :: "int \<Rightarrow> string" where
  "dec_int i = (if i < 0 then CHR ''-'' # dec (nat (- i)) else dec (nat i))"

definition digits_val :: "string \<Rightarrow> nat" where
  "digits_val ds = foldl (\<lambda>a c. 10 * a + (byte c - 48)) 0 ds"

lemma is_digit_digit_char [simp]: "d < 10 \<Longrightarrow> is_digit (digit_char d)"
  by (simp add: is_digit_def digit_char_def)

lemma byte_digit_char [simp]: "d < 10 \<Longrightarrow> byte (digit_char d) = 48 + d"
  by (simp add: digit_char_def)

lemma dec_digits: "c \<in> set (dec n) \<Longrightarrow> is_digit c"
proof (induction n rule: dec.induct)
  case (1 n)
  then show ?case by (cases "n < 10") (auto simp: dec.simps [of n])
qed

lemma dec_nonempty [simp]: "dec n \<noteq> []"
  by (simp add: dec.simps [of n])

lemma digits_val_dec [simp]: "digits_val (dec n) = n"
proof (induction n rule: dec.induct)
  case (1 n)
  then show ?case
    by (cases "n < 10") (auto simp: dec.simps [of n] digits_val_def)
qed

lemma length_dec: "n < 10 ^ Suc k \<Longrightarrow> length (dec n) \<le> Suc k"
proof (induction k arbitrary: n)
  case 0
  then show ?case by (simp add: dec.simps [of n])
next
  case (Suc k)
  show ?case
  proof (cases "n < 10")
    case True
    then show ?thesis by (simp add: dec.simps [of n])
  next
    case False
    from Suc.prems have "n div 10 < 10 ^ Suc k" by (simp add: less_mult_imp_div_less)
    then have "length (dec (n div 10)) \<le> Suc k" by (rule Suc.IH)
    with False show ?thesis by (simp add: dec.simps [of n])
  qed
qed

lemma takeWhile_dec:
  "(rest = [] \<or> \<not> is_digit (hd rest)) \<Longrightarrow> takeWhile is_digit (dec n @ rest) = dec n"
  by (cases rest) (auto simp: takeWhile_append dest: dec_digits)

lemma dropWhile_dec:
  "(rest = [] \<or> \<not> is_digit (hd rest)) \<Longrightarrow> dropWhile is_digit (dec n @ rest) = rest"
  by (cases rest) (auto simp: dropWhile_append dest: dec_digits)

text \<open>
  An optional sign, then a non-empty run of digits, after leading white space: the subject
  sequence of \<open>strtoul\<close> and \<open>strtoll\<close> in base 10. The result is the sign, the magnitude and the
  rest of the text; \<open>None\<close> when there are no digits.
\<close>

definition scan_number :: "string \<Rightarrow> (bool \<times> nat \<times> string) option" where
  "scan_number s =
     (let s1 = dropWhile isspace s;
          neg = (case s1 of c # _ \<Rightarrow> c = CHR ''-'' | [] \<Rightarrow> False);
          signed = (case s1 of c # _ \<Rightarrow> c = CHR ''-'' \<or> c = CHR ''+'' | [] \<Rightarrow> False);
          s2 = (if signed then tl s1 else s1);
          ds = takeWhile is_digit s2
      in if ds = [] then None else Some (neg, digits_val ds, dropWhile is_digit s2))"

text \<open>
  The \<open>%u\<close> conversion: glibc reads an \<open>unsigned long\<close> (saturating at \<open>ULONG_MAX\<close>, negated for
  a minus sign) and stores its low 32 bits.
\<close>

definition scan_u :: "string \<Rightarrow> (u32 \<times> string) option" where
  "scan_u s =
     (case scan_number s of
        None \<Rightarrow> None
      | Some (neg, v, rest) \<Rightarrow>
          (let ul = (if 2 ^ 64 \<le> v then - 1 else if neg then - of_nat v else of_nat v) :: u64
           in Some (ucast ul, rest)))"

text \<open>A literal character of a \<open>sscanf\<close> format.\<close>

fun scan_char :: "char \<Rightarrow> string \<Rightarrow> string option" where
  "scan_char x [] = None"
| "scan_char x (c # cs) = (if c = x then Some cs else None)"

text \<open>\<open>strtoll(s, &end, 10)\<close>: the value, clamped to \<open>long long\<close>, and the text at \<open>end\<close>.\<close>

definition strtoll :: "string \<Rightarrow> int \<times> string" where
  "strtoll s =
     (case scan_number s of
        None \<Rightarrow> (0, s)
      | Some (neg, v, rest) \<Rightarrow>
          (if neg then (max (- (2 ^ 63)) (- int v), rest)
           else (min (2 ^ 63 - 1) (int v), rest)))"

lemma scan_number_dec [simp]:
  assumes "rest = [] \<or> \<not> is_digit (hd rest)"
  shows "scan_number (dec n @ rest) = Some (False, n, rest)"
proof -
  obtain c cs where c: "dec n = c # cs" by (cases "dec n") auto
  have d: "is_digit c" using dec_digits [of c n] c by simp
  then have ns: "\<not> isspace c" and nm: "c \<noteq> CHR ''-''" "c \<noteq> CHR ''+''"
    by (auto simp: is_digit_def isspace_def byte_def)
  have "dropWhile isspace (dec n @ rest) = dec n @ rest"
    using c ns by simp
  moreover have "takeWhile is_digit (dec n @ rest) = dec n"
    and "dropWhile is_digit (dec n @ rest) = rest"
    using assms by (rule takeWhile_dec, rule dropWhile_dec)
  moreover have "digits_val (c # cs) = n" using c digits_val_dec [of n] by simp
  ultimately show ?thesis
    using c ns nm by (simp add: scan_number_def Let_def del: digits_val_dec)
qed

lemma scan_u_dec [simp]:
  assumes "rest = [] \<or> \<not> is_digit (hd rest)" and "n < 2 ^ 64"
  shows "scan_u (dec n @ rest) = Some (of_nat n, rest)"
  using assms by (simp add: scan_u_def unsigned_of_nat take_bit_nat_eq_self)

lemma strtoll_dec [simp]: "int n < 2 ^ 63 \<Longrightarrow> strtoll (dec n) = (int n, [])"
  using scan_number_dec [of "[]" n] by (simp add: strtoll_def)

definition hex_char :: "bool \<Rightarrow> nat \<Rightarrow> char" where
  "hex_char upper d =
     (if d < 10 then char_of (48 + d) else char_of ((if upper then 55 else 87) + d))"

text \<open>\<open>%0wx\<close>: the low \<open>w\<close> hexadecimal digits of \<open>n\<close>, most significant first.\<close>

fun hex_pad :: "bool \<Rightarrow> nat \<Rightarrow> nat \<Rightarrow> string" where
  "hex_pad upper 0 n = []"
| "hex_pad upper (Suc w) n = hex_pad upper w (n div 16) @ [hex_char upper (n mod 16)]"

lemma length_hex_pad [simp]: "length (hex_pad u w n) = w"
  by (induction w arbitrary: n) auto

section \<open>State transformers\<close>

text \<open>Reading a field and updating the state; everything else is \<open>State_Monad\<close>.\<close>

definition gets :: "('s \<Rightarrow> 'a) \<Rightarrow> ('s, 'a) state" where
  "gets f = State (\<lambda>s. (f s, s))"

definition modify :: "('s \<Rightarrow> 's) \<Rightarrow> ('s, unit) state" where
  "modify f = State (\<lambda>s. ((), f s))"

abbreviation ret :: "'a \<Rightarrow> ('s, 'a) state" where
  "ret \<equiv> State_Monad.return"

lemma run_gets [simp]: "run_state (gets f) s = (f s, s)"
  by (simp add: gets_def)

lemma run_modify [simp]: "run_state (modify f) s = ((), f s)"
  by (simp add: modify_def)

text \<open>
  \<open>keeps I m F\<close>: run from a state that satisfies \<open>I\<close>, \<open>m\<close> leaves a state that satisfies \<open>I\<close> and
  returns a value that satisfies \<open>F\<close>. State transformers are total, so this is total
  correctness. The rules \<open>hoare\<close> are applied backwards from a goal about a whole handler; the fact
  \<open>F\<close> about the result of a step is a premise for the steps after it.
\<close>

definition keeps :: "('s \<Rightarrow> bool) \<Rightarrow> ('s, 'a) state \<Rightarrow> ('a \<Rightarrow> bool) \<Rightarrow> bool" where
  "keeps I m F \<longleftrightarrow> (\<forall>s. I s \<longrightarrow> I (snd (run_state m s)) \<and> F (fst (run_state m s)))"

abbreviation any :: "'a \<Rightarrow> bool" where "any \<equiv> \<lambda>_. True"

lemma keepsI: "(\<And>s. I s \<Longrightarrow> I (snd (run_state m s)) \<and> F (fst (run_state m s))) \<Longrightarrow> keeps I m F"
  by (simp add: keeps_def)

lemma keepsD: "keeps I m F \<Longrightarrow> I s \<Longrightarrow> run_state m s = (a, s') \<Longrightarrow> I s' \<and> F a"
  by (auto simp: keeps_def dest!: spec [of _ s])

lemma keeps_snd: "keeps I m F \<Longrightarrow> I s \<Longrightarrow> I (snd (run_state m s))"
  by (simp add: keeps_def)

lemma keeps_bind: "keeps I m F \<Longrightarrow> (\<And>a. F a \<Longrightarrow> keeps I (f a) G) \<Longrightarrow> keeps I (State_Monad.bind m f) G"
  by (auto simp: keeps_def split: prod.splits)

lemma keeps_ret [hoare]: "F a \<Longrightarrow> keeps I (ret a) F"
  by (simp add: keeps_def)

lemma keeps_if [hoare]: "(b \<Longrightarrow> keeps I m F) \<Longrightarrow> (\<not> b \<Longrightarrow> keeps I n F) \<Longrightarrow> keeps I (if b then m else n) F"
  by simp

lemma keeps_option [hoare]:
  "(x = None \<Longrightarrow> keeps I m F) \<Longrightarrow> (\<And>a. x = Some a \<Longrightarrow> keeps I (f a) F) \<Longrightarrow>
   keeps I (case x of None \<Rightarrow> m | Some a \<Rightarrow> f a) F"
  by (cases x) auto

lemma keeps_sum [hoare]:
  "(\<And>a. x = Inl a \<Longrightarrow> keeps I (f a) F) \<Longrightarrow> (\<And>a. x = Inr a \<Longrightarrow> keeps I (g a) F) \<Longrightarrow>
   keeps I (case x of Inl a \<Rightarrow> f a | Inr a \<Rightarrow> g a) F"
  by (cases x) auto

lemma keeps_prod [hoare]: "(\<And>a b. x = (a, b) \<Longrightarrow> keeps I (f a b) F) \<Longrightarrow> keeps I (case x of (a, b) \<Rightarrow> f a b) F"
  by (cases x) auto

lemma keeps_gets: "(\<And>s. I s \<Longrightarrow> F (f s)) \<Longrightarrow> keeps I (gets f) F"
  by (simp add: keeps_def)

lemma keeps_modify: "(\<And>s. I s \<Longrightarrow> I (f s)) \<Longrightarrow> keeps I (modify f) any"
  by (simp add: keeps_def)

lemma keeps_mono: "keeps I m F \<Longrightarrow> (\<And>a. F a \<Longrightarrow> G a) \<Longrightarrow> keeps I m G"
  by (simp add: keeps_def)

lemma keeps_any: "keeps I m F \<Longrightarrow> keeps I m any"
  by (simp add: keeps_def)

text \<open>\<open>leads I m J\<close>: run from a state that satisfies \<open>I\<close>, \<open>m\<close> ends with a result and a state that
  satisfy \<open>J\<close>.\<close>

definition leads :: "('s \<Rightarrow> bool) \<Rightarrow> ('s, 'a) state \<Rightarrow> ('a \<Rightarrow> 's \<Rightarrow> bool) \<Rightarrow> bool" where
  "leads I m J \<longleftrightarrow> (\<forall>s. I s \<longrightarrow> J (fst (run_state m s)) (snd (run_state m s)))"

named_theorems leading \<open>composition rules for the judgement with a postcondition\<close>

lemma leadsD: "leads I m J \<Longrightarrow> I s \<Longrightarrow> J (fst (run_state m s)) (snd (run_state m s))"
  by (simp add: leads_def)

lemma leads_seq: "leads I m J \<Longrightarrow> (\<And>a. leads (J a) (f a) K) \<Longrightarrow> leads I (State_Monad.bind m f) K"
  by (auto simp: leads_def case_prod_beta)

lemma leads_bind: "keeps I m any \<Longrightarrow> (\<And>a. leads I (f a) J) \<Longrightarrow> leads I (State_Monad.bind m f) J"
  by (auto simp: leads_def keeps_def case_prod_beta)

lemma leads_bind_fact:
  "keeps I m F \<Longrightarrow> (\<And>a. F a \<Longrightarrow> leads I (f a) J) \<Longrightarrow> leads I (State_Monad.bind m f) J"
  by (simp add: leads_def keeps_def case_prod_beta)

lemma leads_keeps: "keeps I m any \<Longrightarrow> (\<And>a s. I s \<Longrightarrow> J a s) \<Longrightarrow> leads I m J"
  by (auto simp: leads_def keeps_def)

lemma leads_ret: "(\<And>s. I s \<Longrightarrow> J a s) \<Longrightarrow> leads I (ret a) J"
  by (auto simp: leads_def)

lemma leads_if [leading]: "(b \<Longrightarrow> leads I m J) \<Longrightarrow> (\<not> b \<Longrightarrow> leads I n J) \<Longrightarrow> leads I (if b then m else n) J"
  by simp

lemma leads_option [leading]:
  "(x = None \<Longrightarrow> leads I m J) \<Longrightarrow> (\<And>a. x = Some a \<Longrightarrow> leads I (f a) J) \<Longrightarrow>
   leads I (case x of None \<Rightarrow> m | Some a \<Rightarrow> f a) J"
  by (cases x) auto

lemma leads_weaken: "leads I m J \<Longrightarrow> (\<And>s. I' s \<Longrightarrow> I s) \<Longrightarrow> (\<And>a s. J a s \<Longrightarrow> J' a s) \<Longrightarrow> leads I' m J'"
  by (auto simp: leads_def)

text \<open>To start from what is known of an observation \<open>V\<close> of the state, fix its value.\<close>

lemma leads_fix: "(\<And>v. Q v \<Longrightarrow> leads (\<lambda>s. V s = v) m J) \<Longrightarrow> leads (\<lambda>s. Q (V s)) m J"
  by (simp add: leads_def)

lemma leads_pre: "(\<And>s. I s \<Longrightarrow> I' s) \<Longrightarrow> leads I' m J \<Longrightarrow> leads I m J"
  by (simp add: leads_def)

lemma leads_conj: "(b \<Longrightarrow> leads I m J) \<Longrightarrow> leads (\<lambda>s. I s \<and> b) m J"
  by (simp add: leads_def)

lemma leads_both: "leads I m J \<Longrightarrow> leads I m K \<Longrightarrow> leads I m (\<lambda>a s. J a s \<and> K a s)"
  by (simp add: leads_def)

lemma leads_const: "leads I m (\<lambda>a s. J a s \<and> b a) \<Longrightarrow> (\<And>a. b a \<Longrightarrow> leads (J a) (f a) K) \<Longrightarrow> leads I (State_Monad.bind m f) K"
  by (auto simp: leads_def case_prod_beta)

end
