(* ===== verification/Utils.thy ===== *)
theory Utils
  imports FTP_Prelude
begin

text \<open>
  \<open>server/src/utils.c\<close>: trimming and upper-casing of command text, the two line-ending
  conversions of ASCII transfers, and the hexadecimal dump. Strings modified in place are
  functions from the old contents to the new; the conversions between two buffers take the input
  bytes and the capacity of the output buffer and return the bytes written, or \<open>None\<close> for the
  C result \<open>-1\<close>. Null pointers are not values of the model.
\<close>

section \<open>Trimming and upper case\<close>

text \<open>
  \<open>trim_whitespace\<close>: \<open>start\<close> moves right over white space, \<open>end\<close> moves left from the last byte
  while it is white space and still to the right of \<open>start\<close>, so the first byte kept is never
  dropped from the right.
\<close>

fun trim_end :: "string \<Rightarrow> string" where
  "trim_end [] = []"
| "trim_end (c # cs) = c # rev (dropWhile isspace (rev cs))"

definition trim_whitespace :: "string \<Rightarrow> string" where
  "trim_whitespace str = (if str = [] then str else trim_end (dropWhile isspace str))"

definition to_uppercase :: "string \<Rightarrow> string" where
  "to_uppercase str = map toupper str"

lemma trim_end_dropWhile:
  "trim_end (dropWhile isspace s) = rev (dropWhile isspace (rev (dropWhile isspace s)))"
proof (cases "dropWhile isspace s")
  case (Cons c cs)
  then have "\<not> isspace c" by (metis hd_dropWhile list.discI list.sel(1))
  with Cons show ?thesis by (simp add: dropWhile_append)
next
  case Nil
  show ?thesis by (simp only: Nil trim_end.simps rev.simps dropWhile.simps)
qed

text \<open>Both ends are stripped completely.\<close>

lemma trim_whitespace_eq:
  "trim_whitespace s = rev (dropWhile isspace (rev (dropWhile isspace s)))"
  by (simp add: trim_whitespace_def trim_end_dropWhile)

lemma trim_whitespace_hd: "trim_whitespace s \<noteq> [] \<Longrightarrow> \<not> isspace (hd (trim_whitespace s))"
proof -
  assume "trim_whitespace s \<noteq> []"
  then obtain c cs where d: "dropWhile isspace s = c # cs"
    by (cases "dropWhile isspace s") (simp_all add: trim_whitespace_def del: dropWhile_eq_Nil_conv split: if_splits)
  then have "\<not> isspace c" by (metis hd_dropWhile list.discI list.sel(1))
  moreover have "trim_whitespace s = trim_end (c # cs)"
    using d by (auto simp: trim_whitespace_def)
  ultimately show ?thesis by simp
qed

lemma trim_whitespace_last: "trim_whitespace s \<noteq> [] \<Longrightarrow> \<not> isspace (last (trim_whitespace s))"
proof -
  let ?d = "dropWhile isspace (rev (dropWhile isspace s))"
  assume "trim_whitespace s \<noteq> []"
  then have "?d \<noteq> []" by (simp only: trim_whitespace_eq rev_is_Nil_conv) simp
  then have "\<not> isspace (hd ?d)" by (rule hd_dropWhile)
  then show ?thesis by (simp only: trim_whitespace_eq last_rev) simp
qed

lemma trim_whitespace_id:
  "s = [] \<or> (\<not> isspace (hd s) \<and> \<not> isspace (last s)) \<Longrightarrow> trim_whitespace s = s"
proof -
  assume "s = [] \<or> (\<not> isspace (hd s) \<and> \<not> isspace (last s))"
  then have "dropWhile isspace s = s" "dropWhile isspace (rev s) = rev s"
    by (simp_all only: dropWhile_eq_self_iff hd_rev rev_is_Nil_conv) blast+
  then show ?thesis by (simp only: trim_whitespace_eq rev_rev_ident)
qed

lemma trim_whitespace_idem [simp]: "trim_whitespace (trim_whitespace s) = trim_whitespace s"
  using trim_whitespace_hd [of s] trim_whitespace_last [of s]
  by (intro trim_whitespace_id) blast

lemma set_trim_whitespace: "set (trim_whitespace s) \<subseteq> set s"
  by (auto simp: trim_whitespace_eq dest!: set_dropWhileD)

lemma length_trim_whitespace: "length (trim_whitespace s) \<le> length s"
proof -
  have "length (dropWhile isspace (rev (dropWhile isspace s))) \<le> length (dropWhile isspace s)"
    using length_dropWhile_le [of isspace "rev (dropWhile isspace s)"] by simp
  also have "\<dots> \<le> length s" by (rule length_dropWhile_le)
  finally show ?thesis by (simp only: trim_whitespace_eq length_rev)
qed

lemma to_uppercase_idem [simp]: "to_uppercase (to_uppercase s) = to_uppercase s"
  by (simp add: to_uppercase_def comp_def)

lemma length_to_uppercase [simp]: "length (to_uppercase s) = length s"
  by (simp add: to_uppercase_def)

lemma to_uppercase_append: "to_uppercase (a @ b) = to_uppercase a @ to_uppercase b"
  by (simp add: to_uppercase_def)

section \<open>Line endings\<close>

text \<open>
  The loops of \<open>crlf_to_lf\<close> and \<open>lf_to_crlf\<close>: \<open>out\<close> is the output written so far, its length
  the C variable \<open>write_idx\<close>; the room check stands before each write, as in the code.
\<close>

fun crlf_to_lf_loop :: "int \<Rightarrow> string \<Rightarrow> string \<Rightarrow> string option" where
  "crlf_to_lf_loop osize [] out = Some out"
| "crlf_to_lf_loop osize (c # cs) out =
     (if c = CR then
        (case cs of
           d # ds \<Rightarrow>
             if d = LF then
               (if int (length out) + 1 > osize then None
                else crlf_to_lf_loop osize ds (out @ [LF]))
             else
               (if int (length out) + 1 > osize then None
                else crlf_to_lf_loop osize cs (out @ [c]))
         | [] \<Rightarrow>
             (if int (length out) + 1 > osize then None
              else crlf_to_lf_loop osize cs (out @ [c])))
      else
        (if int (length out) + 1 > osize then None
         else crlf_to_lf_loop osize cs (out @ [c])))"

definition crlf_to_lf :: "string \<Rightarrow> int \<Rightarrow> string option" where
  "crlf_to_lf input osize = (if osize \<le> 0 then None else crlf_to_lf_loop osize input [])"

fun lf_to_crlf_loop :: "int \<Rightarrow> string \<Rightarrow> string \<Rightarrow> string option" where
  "lf_to_crlf_loop osize [] out = Some out"
| "lf_to_crlf_loop osize (c # cs) out =
     (if c = LF then
        (if int (length out) + 2 > osize then None
         else lf_to_crlf_loop osize cs (out @ [CR, LF]))
      else
        (if int (length out) + 1 > osize then None
         else lf_to_crlf_loop osize cs (out @ [c])))"

definition lf_to_crlf :: "string \<Rightarrow> int \<Rightarrow> string option" where
  "lf_to_crlf input osize = (if osize \<le> 0 then None else lf_to_crlf_loop osize input [])"

text \<open>Their specifications, without buffers.\<close>

fun unix_text :: "string \<Rightarrow> string" where
  "unix_text (c # d # cs) = (if c = CR \<and> d = LF then LF # unix_text cs else c # unix_text (d # cs))"
| "unix_text cs = cs"

fun net_text :: "string \<Rightarrow> string" where
  "net_text [] = []"
| "net_text (c # cs) = (if c = LF then CR # LF # net_text cs else c # net_text cs)"

lemma length_net_text: "length (net_text s) = length s + count_list s LF"
  by (induction s) auto

lemma length_net_text_le: "length (net_text s) \<le> 2 * length s"
  by (induction s) auto

lemma length_unix_text: "length (unix_text s) \<le> length s"
  by (induction s rule: unix_text.induct) auto

lemma unix_text_net_text [simp]: "unix_text (net_text s) = s"
proof (induction s)
  case (Cons c s)
  then show ?case by (cases s rule: net_text.cases) auto
qed simp

lemma net_text_append [simp]: "net_text (a @ b) = net_text a @ net_text b"
  by (induction a) auto

lemma unix_text_append:
  "a = [] \<or> b = [] \<or> last a \<noteq> CR \<or> hd b \<noteq> LF \<Longrightarrow> unix_text (a @ b) = unix_text a @ unix_text b"
proof (induction a rule: unix_text.induct, goal_cases)
  case (1 c d cs)
  then show ?case by (cases "c = CR \<and> d = LF"; cases cs) auto
next
  case 2
  show ?case by simp
next
  case (3 c)
  then show ?case by (cases b) auto
qed

lemma lf_to_crlf_loop_eq:
  "lf_to_crlf_loop osize s out =
     (if s = [] \<or> int (length out + length (net_text s)) \<le> osize then Some (out @ net_text s) else None)"
proof (induction s arbitrary: out)
  case (Cons c s)
  then show ?case by (cases "c = LF"; cases s) auto
qed simp

lemma crlf_to_lf_loop_pair:
  "crlf_to_lf_loop osize (c # d # cs) out =
     (if int (length out) + 1 > osize then None
      else if c = CR \<and> d = LF then crlf_to_lf_loop osize cs (out @ [LF])
      else crlf_to_lf_loop osize (d # cs) (out @ [c]))"
  by (simp del: crlf_to_lf_loop.simps(2) add: crlf_to_lf_loop.simps(2) [of osize c "d # cs" out])

lemma crlf_to_lf_loop_single:
  "crlf_to_lf_loop osize [c] out = (if int (length out) + 1 > osize then None else Some (out @ [c]))"
  by simp

lemma crlf_to_lf_loop_eq:
  "crlf_to_lf_loop osize s out =
     (if s = [] \<or> int (length out + length (unix_text s)) \<le> osize then Some (out @ unix_text s) else None)"
proof (induction s arbitrary: out rule: unix_text.induct)
  case (1 c d cs)
  show ?case
  proof (cases "c = CR \<and> d = LF")
    case True
    then show ?thesis
      using "1.IH"(1) [OF True, of "out @ [LF]"] by (cases cs) (simp_all add: crlf_to_lf_loop_pair del: crlf_to_lf_loop.simps(2))
  next
    case False
    then show ?thesis
      using "1.IH"(2) [OF False, of "out @ [c]"] by (auto simp: crlf_to_lf_loop_pair simp del: crlf_to_lf_loop.simps(2))
  qed
qed (simp_all add: crlf_to_lf_loop_single del: crlf_to_lf_loop.simps(2))

section \<open>Hexadecimal dump\<close>

text \<open>
  \<open>string_to_hex\<close>: \<open>buffer_size - 3\<close> is computed in \<open>size_t\<close> and wraps around below 3. The
  result is the text left in the buffer, \<open>None\<close> for \<open>-1\<close>.
\<close>

fun string_to_hex_loop :: "u64 \<Rightarrow> string \<Rightarrow> string \<Rightarrow> string option" where
  "string_to_hex_loop osize [] out = Some out"
| "string_to_hex_loop osize (c # cs) out =
     (if of_nat (length out) < osize - 3 then
        (if 3 \<ge> osize - of_nat (length out) then None
         else string_to_hex_loop osize cs (out @ hex_pad True 2 (byte c) @ '' ''))
      else Some out)"

definition string_to_hex :: "string \<Rightarrow> u64 \<Rightarrow> string option" where
  "string_to_hex input osize =
     (if osize = 0 then None
      else (case string_to_hex_loop osize input [] of
              None \<Rightarrow> None
            | Some out \<Rightarrow>
                Some (if out \<noteq> [] \<and> last out = CHR '' '' then butlast out else out)))"

section \<open>Properties\<close>

lemma lf_to_crlf_eq:
  "lf_to_crlf s osize =
     (if 0 < osize \<and> int (length (net_text s)) \<le> osize then Some (net_text s) else None)"
  by (auto simp: lf_to_crlf_def lf_to_crlf_loop_eq)

lemma crlf_to_lf_eq:
  "crlf_to_lf s osize =
     (if 0 < osize \<and> int (length (unix_text s)) \<le> osize then Some (unix_text s) else None)"
  by (auto simp: crlf_to_lf_def crlf_to_lf_loop_eq)

text \<open>C37: The two line-ending loops compute their buffer-free specifications on every input, and
  fail exactly when the capacity is not positive or smaller than the converted text.\<close>
theorem line_endings_refine:
  "lf_to_crlf s osize =
     (if 0 < osize \<and> int (length (net_text s)) \<le> osize then Some (net_text s) else None) \<and>
   crlf_to_lf s osize =
     (if 0 < osize \<and> int (length (unix_text s)) \<le> osize then Some (unix_text s) else None)"
  by (simp add: lf_to_crlf_eq crlf_to_lf_eq)

text \<open>Whatever text \<open>lf_to_crlf\<close> produces for sending, \<open>crlf_to_lf\<close> turns it back into the
  original bytes, in a buffer just as large as the original.\<close>
theorem line_endings_roundtrip:
  assumes "lf_to_crlf s osize = Some t" and "s \<noteq> []"
  shows "crlf_to_lf t (int (length s)) = Some s"
  using assms by (auto simp: lf_to_crlf_eq crlf_to_lf_eq split: if_splits)

theorem line_endings_roundtrip_witness:
  "crlf_to_lf [CR, CR, LF, CHR ''a''] 3 = Some [CR, LF, CHR ''a'']"
  using line_endings_roundtrip [of "[CR, LF, CHR ''a'']" 10 "[CR, CR, LF, CHR ''a'']"]
  by (simp add: lf_to_crlf_eq)

text \<open>A conversion for sending never overruns or exhausts an output buffer of twice the input
  size: it succeeds for every non-empty chunk, and writes at most that many bytes.\<close>
theorem lf_to_crlf_double_buffer:
  assumes "s \<noteq> []"
  shows "\<exists>t. lf_to_crlf s (2 * int (length s)) = Some t \<and> length s \<le> length t \<and> length t \<le> 2 * length s"
  using assms length_net_text_le [of s] by (simp add: lf_to_crlf_eq length_net_text)

theorem lf_to_crlf_double_buffer_witness:
  "\<exists>t. lf_to_crlf [LF] 2 = Some t \<and> 1 \<le> length t \<and> length t \<le> 2"
  using lf_to_crlf_double_buffer [of "[LF]"] by simp

text \<open>A buffer too small for the dump is not reported by \<open>string_to_hex\<close>: from 7 bytes it
  returns success with the dump of a proper prefix of the input.\<close>
theorem string_to_hex_truncates:
  "string_to_hex ''ABC'' 7 = Some ''41 42'' \<and> string_to_hex ''AB'' 7 = Some ''41 42''"
  by code_simp

end
