(* ===== verification/Protocol.thy ===== *)
theory Protocol
  imports Utils
begin

text \<open>
  \<open>server/src/protocol.c\<close>: parsing of command lines and of the PORT, TYPE, MODE and STRU
  arguments, formatting of replies, the PASV reply, and the two path routines. A parser returns
  \<open>None\<close> where the code returns \<open>-1\<close>; a formatter returns the text it writes, whose length is
  the C result. \<open>has_argument\<close>, 0 or 1 in the code, is a \<open>bool\<close>.
\<close>

section \<open>Data\<close>

definition PROTO_MAX_CMD_NAME :: nat where "PROTO_MAX_CMD_NAME = 8"
definition PROTO_MAX_CMD_ARG :: nat where "PROTO_MAX_CMD_ARG = 512"
definition PROTO_MAX_RESPONSE_LINE :: nat where "PROTO_MAX_RESPONSE_LINE = 1024"

lemmas proto_sizes = PROTO_MAX_CMD_NAME_def PROTO_MAX_CMD_ARG_def PROTO_MAX_RESPONSE_LINE_def

record proto_command_t =
  command :: string
  argument :: string
  has_argument :: bool

datatype proto_transfer_type_t = PROTO_TYPE_ASCII | PROTO_TYPE_BINARY | PROTO_TYPE_EBCDIC
datatype proto_transfer_mode_t = PROTO_MODE_STREAM | PROTO_MODE_BLOCK | PROTO_MODE_COMPRESSED
datatype proto_data_structure_t = PROTO_STRU_FILE | PROTO_STRU_RECORD | PROTO_STRU_PAGE

text \<open>The parameters of PORT and of the PASV reply: the same six octets.\<close>

record proto_port_params_t =
  h1 :: u8
  h2 :: u8
  h3 :: u8
  h4 :: u8
  p1 :: u8
  p2 :: u8

type_synonym proto_pasv_params_t = proto_port_params_t

section \<open>Command lines\<close>

text \<open>
  The Telnet filter. The list is the unread rest of \<open>buffer\<close> (from index \<open>i\<close>), \<open>out\<close> the bytes
  in \<open>filtered_buffer\<close>; every test is the code's, in its order, and what is left of the list
  after a branch is what the branch's changes of \<open>i\<close>, and the loop's own \<open>i++\<close>, skip.
\<close>

fun telnet_filter :: "string \<Rightarrow> string \<Rightarrow> string" where
  "telnet_filter [] out = out"
| "telnet_filter (c # cs) out =
     (if \<not> length out < PROTO_MAX_CMD_ARG + PROTO_MAX_CMD_NAME + 10 - 1 then out
      else if byte c = 0xFF then
        (case cs of
           [] \<Rightarrow> telnet_filter [] out
         | d # ds \<Rightarrow>
             if byte d = 0xFF then telnet_filter ds (out @ [d])
             else if byte d \<ge> 0xF0 then telnet_filter ds out
             else if byte d \<ge> 0xFB \<and> byte d \<le> 0xFE then
               (if ds \<noteq> [] then telnet_filter (tl ds) out else telnet_filter ds out)
             else telnet_filter (tl ds) out)
      else if byte c = 0xF4 then telnet_filter cs out
      else telnet_filter cs (out @ [c]))"

definition proto_parse_command :: "string \<Rightarrow> proto_command_t option" where
  "proto_parse_command line =
     (if length line \<ge> PROTO_MAX_CMD_ARG + PROTO_MAX_CMD_NAME + 10 then None
      else
        (let filtered = telnet_filter line [];
             buffer = trim_whitespace (before_sub [CR, LF] filtered)
         in if length buffer = 0 then None
            else if CHR '' '' \<in> set buffer then
              (let name = takeWhile (\<lambda>c. c \<noteq> CHR '' '') buffer;
                   arg = trim_whitespace (tl (dropWhile (\<lambda>c. c \<noteq> CHR '' '') buffer));
                   argument' = strncpy_buf PROTO_MAX_CMD_ARG arg
               in Some \<lparr>command = to_uppercase (strncpy_buf PROTO_MAX_CMD_NAME name),
                        argument = argument', has_argument = (length argument' > 0)\<rparr>)
            else
              Some \<lparr>command = to_uppercase (strncpy_buf PROTO_MAX_CMD_NAME buffer),
                    argument = [], has_argument = False\<rparr>))"

section \<open>Replies\<close>

text \<open>The reply codes of \<open>protocol.h\<close> that the server sends.\<close>

abbreviation PROTO_RESP_FILE_STATUS_OK :: int where "PROTO_RESP_FILE_STATUS_OK \<equiv> 150"
abbreviation PROTO_RESP_OK :: int where "PROTO_RESP_OK \<equiv> 200"
abbreviation PROTO_RESP_SYSTEM_STATUS :: int where "PROTO_RESP_SYSTEM_STATUS \<equiv> 211"
abbreviation PROTO_RESP_FILE_STATUS :: int where "PROTO_RESP_FILE_STATUS \<equiv> 213"
abbreviation PROTO_RESP_SYSTEM_TYPE :: int where "PROTO_RESP_SYSTEM_TYPE \<equiv> 215"
abbreviation PROTO_RESP_SERVICE_READY :: int where "PROTO_RESP_SERVICE_READY \<equiv> 220"
abbreviation PROTO_RESP_CLOSING_CONTROL :: int where "PROTO_RESP_CLOSING_CONTROL \<equiv> 221"
abbreviation PROTO_RESP_DATA_CONN_OPEN_NO_TRANSFER :: int where "PROTO_RESP_DATA_CONN_OPEN_NO_TRANSFER \<equiv> 225"
abbreviation PROTO_RESP_CLOSING_DATA :: int where "PROTO_RESP_CLOSING_DATA \<equiv> 226"
abbreviation PROTO_RESP_USER_LOGGED_IN :: int where "PROTO_RESP_USER_LOGGED_IN \<equiv> 230"
abbreviation PROTO_RESP_FILE_ACTION_OK :: int where "PROTO_RESP_FILE_ACTION_OK \<equiv> 250"
abbreviation PROTO_RESP_PATH_CREATED :: int where "PROTO_RESP_PATH_CREATED \<equiv> 257"
abbreviation PROTO_RESP_NEED_PASSWORD :: int where "PROTO_RESP_NEED_PASSWORD \<equiv> 331"
abbreviation PROTO_RESP_FILE_ACTION_PENDING :: int where "PROTO_RESP_FILE_ACTION_PENDING \<equiv> 350"
abbreviation PROTO_RESP_SERVICE_NOT_AVAIL :: int where "PROTO_RESP_SERVICE_NOT_AVAIL \<equiv> 421"
abbreviation PROTO_RESP_CANT_OPEN_DATA :: int where "PROTO_RESP_CANT_OPEN_DATA \<equiv> 425"
abbreviation PROTO_RESP_CONN_CLOSED :: int where "PROTO_RESP_CONN_CLOSED \<equiv> 426"
abbreviation PROTO_RESP_FILE_ACTION_ABORTED :: int where "PROTO_RESP_FILE_ACTION_ABORTED \<equiv> 450"
abbreviation PROTO_RESP_LOCAL_ERROR :: int where "PROTO_RESP_LOCAL_ERROR \<equiv> 451"
abbreviation PROTO_RESP_SYNTAX_ERROR :: int where "PROTO_RESP_SYNTAX_ERROR \<equiv> 500"
abbreviation PROTO_RESP_SYNTAX_ERROR_PARAM :: int where "PROTO_RESP_SYNTAX_ERROR_PARAM \<equiv> 501"
abbreviation PROTO_RESP_COMMAND_NOT_IMPL :: int where "PROTO_RESP_COMMAND_NOT_IMPL \<equiv> 502"
abbreviation PROTO_RESP_BAD_COMMAND_SEQUENCE :: int where "PROTO_RESP_BAD_COMMAND_SEQUENCE \<equiv> 503"
abbreviation PROTO_RESP_COMMAND_NOT_IMPL_PARAM :: int where "PROTO_RESP_COMMAND_NOT_IMPL_PARAM \<equiv> 504"
abbreviation PROTO_RESP_NOT_LOGGED_IN :: int where "PROTO_RESP_NOT_LOGGED_IN \<equiv> 530"
abbreviation PROTO_RESP_FILE_UNAVAILABLE :: int where "PROTO_RESP_FILE_UNAVAILABLE \<equiv> 550"

definition proto_format_response :: "nat \<Rightarrow> int \<Rightarrow> string \<Rightarrow> string option" where
  "proto_format_response buffer_size code message =
     (if buffer_size = 0 then None
      else if code < 100 \<or> code > 599 then None
      else
        (let text = dec_int code @ '' '' @ message @ [CR, LF]
         in if length text \<ge> buffer_size then None else Some text))"

definition proto_format_response_multiline :: "nat \<Rightarrow> int \<Rightarrow> string \<Rightarrow> string option" where
  "proto_format_response_multiline buffer_size code message =
     (if buffer_size = 0 then None
      else if code < 100 \<or> code > 599 then None
      else
        (let text = dec_int code @ ''-'' @ message @ [CR, LF]
         in if length text \<ge> buffer_size then None else Some text))"

section \<open>PORT and PASV\<close>

definition proto_parse_port :: "string \<Rightarrow> proto_port_params_t option" where
  "proto_parse_port arg = do {
     (a1, r1) \<leftarrow> scan_u arg; r1 \<leftarrow> scan_char (CHR '','') r1;
     (a2, r2) \<leftarrow> scan_u r1; r2 \<leftarrow> scan_char (CHR '','') r2;
     (a3, r3) \<leftarrow> scan_u r2; r3 \<leftarrow> scan_char (CHR '','') r3;
     (a4, r4) \<leftarrow> scan_u r3; r4 \<leftarrow> scan_char (CHR '','') r4;
     (b1, r5) \<leftarrow> scan_u r4; r5 \<leftarrow> scan_char (CHR '','') r5;
     (b2, r6) \<leftarrow> scan_u r5;
     (if a1 > 255 \<or> a2 > 255 \<or> a3 > 255 \<or> a4 > 255 \<or> b1 > 255 \<or> b2 > 255 then None
      else Some \<lparr>h1 = ucast a1, h2 = ucast a2, h3 = ucast a3, h4 = ucast a4,
                 p1 = ucast b1, p2 = ucast b2\<rparr>)
   }"

text \<open>The text of the format \<open>%u,%u,\<dots>\<close> (or with dots) on a list of octets.\<close>

fun octets :: "char \<Rightarrow> u8 list \<Rightarrow> string" where
  "octets sep [] = []"
| "octets sep [w] = dec (unat w)"
| "octets sep (w # ws) = dec (unat w) @ sep # octets sep ws"

definition proto_format_pasv_response :: "nat \<Rightarrow> proto_pasv_params_t \<Rightarrow> string option" where
  "proto_format_pasv_response buffer_size params =
     (if buffer_size = 0 then None
      else
        (let text = ''227 Entering Passive Mode ('' @
               octets (CHR '','') [h1 params, h2 params, h3 params, h4 params, p1 params, p2 params] @
               '')'' @ [CR, LF]
         in if length text \<ge> buffer_size then None else Some text))"

definition proto_port_to_address :: "proto_port_params_t \<Rightarrow> nat \<Rightarrow> (string \<times> u16) option" where
  "proto_port_to_address params buffer_size =
     (if buffer_size < 16 then None
      else
        (let ip = octets (CHR ''.'') [h1 params, h2 params, h3 params, h4 params]
         in if length ip \<ge> buffer_size then None
            else Some (ip, ucast (p1 params) * 256 + ucast (p2 params))))"

definition proto_address_to_pasv :: "string \<Rightarrow> u16 \<Rightarrow> proto_pasv_params_t option" where
  "proto_address_to_pasv ip_address port = do {
     (a1, r1) \<leftarrow> scan_u ip_address; r1 \<leftarrow> scan_char (CHR ''.'') r1;
     (a2, r2) \<leftarrow> scan_u r1; r2 \<leftarrow> scan_char (CHR ''.'') r2;
     (a3, r3) \<leftarrow> scan_u r2; r3 \<leftarrow> scan_char (CHR ''.'') r3;
     (a4, r4) \<leftarrow> scan_u r3;
     (if a1 > 255 \<or> a2 > 255 \<or> a3 > 255 \<or> a4 > 255 then None
      else Some \<lparr>h1 = ucast a1, h2 = ucast a2, h3 = ucast a3, h4 = ucast a4,
                 p1 = ucast (port div 256), p2 = ucast (port mod 256)\<rparr>)
   }"

section \<open>TYPE, MODE and STRU\<close>

definition arg_upper :: "string \<Rightarrow> string" where
  "arg_upper arg = trim_whitespace (to_uppercase (strncpy_buf 16 arg))"

definition proto_parse_type :: "string \<Rightarrow> proto_transfer_type_t option" where
  "proto_parse_type arg =
     (let a = arg_upper arg
      in if a = ''A'' \<or> a = ''A N'' then Some PROTO_TYPE_ASCII
         else if a = ''I'' then Some PROTO_TYPE_BINARY
         else if a = ''E'' \<or> a = ''E N'' then Some PROTO_TYPE_EBCDIC
         else None)"

definition proto_parse_mode :: "string \<Rightarrow> proto_transfer_mode_t option" where
  "proto_parse_mode arg =
     (let a = arg_upper arg
      in if a = ''S'' then Some PROTO_MODE_STREAM
         else if a = ''B'' then Some PROTO_MODE_BLOCK
         else if a = ''C'' then Some PROTO_MODE_COMPRESSED
         else None)"

definition proto_parse_stru :: "string \<Rightarrow> proto_data_structure_t option" where
  "proto_parse_stru arg =
     (let a = arg_upper arg
      in if a = ''F'' then Some PROTO_STRU_FILE
         else if a = ''R'' then Some PROTO_STRU_RECORD
         else if a = ''P'' then Some PROTO_STRU_PAGE
         else None)"

section \<open>Paths\<close>

definition proto_validate_path :: "string \<Rightarrow> bool" where
  "proto_validate_path path =
     (if length path = 0 then True
      else if contains ''..'' path then False
      else \<not> (\<exists>c \<in> set path. signed_char c < 32 \<and> c \<noteq> CHR 0x09))"

fun drop_dup_slashes :: "bool \<Rightarrow> string \<Rightarrow> string" where
  "drop_dup_slashes last_was_slash [] = []"
| "drop_dup_slashes last_was_slash (c # cs) =
     (if c = CHR ''/'' then
        (if \<not> last_was_slash then c # drop_dup_slashes True cs
         else drop_dup_slashes last_was_slash cs)
      else c # drop_dup_slashes False cs)"

definition proto_normalize_path :: "string \<Rightarrow> nat \<Rightarrow> string option" where
  "proto_normalize_path path max_length =
     (if max_length = 0 then None
      else if length path \<ge> max_length then None
      else
        (let path1 = map (\<lambda>c. if c = CHR 0x5C then CHR ''/'' else c) path;
             path2 = drop_dup_slashes False path1
         in Some (if length path2 > 1 \<and> last path2 = CHR ''/'' then butlast path2 else path2)))"

section \<open>What a parsed command looks like\<close>

definition wf_command :: "proto_command_t \<Rightarrow> bool" where
  "wf_command cmd \<longleftrightarrow>
     command cmd \<noteq> [] \<and> length (command cmd) < PROTO_MAX_CMD_NAME \<and>
     to_uppercase (command cmd) = command cmd \<and>
     length (argument cmd) < PROTO_MAX_CMD_ARG \<and>
     (has_argument cmd \<longleftrightarrow> argument cmd \<noteq> []) \<and>
     (argument cmd \<noteq> [] \<longrightarrow> \<not> isspace (hd (argument cmd)))"

lemma parse_command_wf:
  assumes "proto_parse_command line = Some cmd"
  shows "wf_command cmd"
proof -
  let ?b = "trim_whitespace (before_sub [CR, LF] (telnet_filter line []))"
  let ?arg = "trim_whitespace (tl (dropWhile (\<lambda>c. c \<noteq> CHR '' '') ?b))"
  from assms have ne: "?b \<noteq> []"
    by (auto simp: proto_parse_command_def Let_def split: if_splits)
  then have hd: "\<not> isspace (hd ?b)" by (rule trim_whitespace_hd)
  then have "hd ?b \<noteq> CHR '' ''" by (auto simp: isspace_def byte_def)
  with ne have name: "takeWhile (\<lambda>c. c \<noteq> CHR '' '') ?b \<noteq> []"
    by (cases ?b) auto
  have arg: "take 511 ?arg \<noteq> [] \<Longrightarrow> \<not> isspace (hd (take 511 ?arg))"
    using trim_whitespace_hd [of "tl (dropWhile (\<lambda>c. c \<noteq> CHR '' '') ?b)"] by (auto simp: hd_take)
  from assms ne name arg show ?thesis
    unfolding proto_parse_command_def Let_def
    by (auto simp: wf_command_def strncpy_buf_def proto_sizes to_uppercase_def split: if_splits)
qed

text \<open>C33: Every command the parser accepts has a non-empty upper-case name that fits
  \<open>command\<close>, an argument that fits \<open>argument\<close> and does not start with white space, and
  \<open>has_argument\<close> exactly when that argument is not empty.\<close>
theorem proto_parse_command_wf:
  assumes "proto_parse_command line = Some cmd"
  shows "command cmd \<noteq> [] \<and> length (command cmd) \<le> 7 \<and> to_uppercase (command cmd) = command cmd \<and>
     length (argument cmd) \<le> 511 \<and> (has_argument cmd \<longleftrightarrow> argument cmd \<noteq> []) \<and>
     (argument cmd \<noteq> [] \<longrightarrow> \<not> isspace (hd (argument cmd)))"
  using parse_command_wf [OF assms] by (auto simp: wf_command_def proto_sizes)

lemma parse_user_example:
  "proto_parse_command (''user  bob'' @ [CR, LF]) =
     Some \<lparr>command = ''USER'', argument = ''bob'', has_argument = True\<rparr>"
  by code_simp

theorem proto_parse_command_wf_witness:
  "(''USER'' :: string) \<noteq> [] \<and> to_uppercase ''USER'' = ''USER''"
  using proto_parse_command_wf [OF parse_user_example] by simp

lemma telnet_filter_clean:
  "\<forall>c \<in> set s. byte c \<noteq> 0xFF \<and> byte c \<noteq> 0xF4 \<Longrightarrow> length out + length s \<le> 529 \<Longrightarrow>
   telnet_filter s out = out @ s"
  by (induction s arbitrary: out) (auto simp: proto_sizes)

lemma before_sub_CRLF: "CR \<notin> set s \<Longrightarrow> before_sub [CR, LF] (s @ [CR, LF]) = s"
  by (induction s) auto

lemma toupper_upper: "65 \<le> byte c \<Longrightarrow> byte c \<le> 90 \<Longrightarrow> toupper c = c"
  by (simp add: toupper_def)

lemma to_uppercase_upper: "\<forall>c \<in> set s. 65 \<le> byte c \<and> byte c \<le> 90 \<Longrightarrow> to_uppercase s = s"
  by (auto simp: to_uppercase_def toupper_upper intro: map_idI)

text \<open>C34: A command line written by a client, an upper-case name of at most 7 letters, a space, an
  argument free of Telnet bytes, CR and outer white space, and CRLF, parses to exactly that name
  and argument.\<close>
theorem proto_parse_command_roundtrip:
  assumes name: "name \<noteq> []" "length name \<le> 7" "\<forall>c \<in> set name. 65 \<le> byte c \<and> byte c \<le> 90"
    and arg: "arg \<noteq> []" "length arg \<le> 511" "\<not> isspace (hd arg)" "\<not> isspace (last arg)"
    and clean: "\<forall>c \<in> set arg. byte c \<noteq> 0xFF \<and> byte c \<noteq> 0xF4 \<and> c \<noteq> CR"
  shows "proto_parse_command (name @ '' '' @ arg @ [CR, LF]) =
     Some \<lparr>command = name, argument = arg, has_argument = True\<rparr>"
proof -
  let ?l = "name @ '' '' @ arg"
  have sp: "\<And>c. c \<in> set name \<Longrightarrow> c \<noteq> CHR '' '' \<and> c \<noteq> CR \<and> \<not> isspace c \<and> byte c \<noteq> 0xFF \<and> byte c \<noteq> 0xF4"
    using name(3) by (force simp: isspace_def byte_def)
  have f: "telnet_filter (?l @ [CR, LF]) [] = ?l @ [CR, LF]"
    using sp clean name(2) arg(2) by (subst telnet_filter_clean) (auto simp: byte_def)
  have b: "before_sub [CR, LF] (?l @ [CR, LF]) = ?l"
    using sp clean by (intro before_sub_CRLF) auto
  have t: "trim_whitespace ?l = ?l"
    using name(1) sp [of "hd name"] arg(1,4) by (intro trim_whitespace_id) auto
  have w: "takeWhile (\<lambda>c. c \<noteq> CHR '' '') ?l = name" "dropWhile (\<lambda>c. c \<noteq> CHR '' '') ?l = '' '' @ arg"
    using sp by (simp_all add: takeWhile_append dropWhile_append)
  have u: "trim_whitespace arg = arg" "to_uppercase name = name"
    using arg name(3) by (auto intro: trim_whitespace_id to_uppercase_upper)
  show ?thesis
    using f b t w u name arg
    by (simp add: proto_parse_command_def Let_def proto_sizes strncpy_buf_def)
qed

theorem proto_parse_command_roundtrip_witness:
  "proto_parse_command (''RETR'' @ '' '' @ ''a b'' @ [CR, LF]) =
     Some \<lparr>command = ''RETR'', argument = ''a b'', has_argument = True\<rparr>"
  by (rule proto_parse_command_roundtrip) (auto simp: isspace_def byte_def)

section \<open>Addresses\<close>

lemma unat_octet: "unat (w :: u8) < 256"
  using unsigned_less [of w] by simp

lemma octet_le [simp]: "\<not> (255 :: u32) < ucast (w :: u8)"
  using unat_octet [of w] by (simp add: word_less_nat_alt unsigned_ucast_eq take_bit_nat_eq_self)

lemma octet_back [simp]: "ucast (ucast (w :: u8) :: u32) = w"
  by (simp add: ucast_up_ucast_id is_up)

lemma scan_u_octet [simp]:
  "scan_u (dec (unat (w :: u8))) = Some (of_nat (unat w), [])"
  "x \<noteq> CHR ''0'' \<Longrightarrow> \<not> is_digit x \<Longrightarrow> scan_u (dec (unat w) @ x # r) = Some (of_nat (unat w), x # r)"
  using scan_u_dec [of "[]" "unat w"] scan_u_dec [of "x # r" "unat w"] unat_octet [of w] by simp_all

lemma not_digit_sep [simp]: "\<not> is_digit (CHR '','')" "\<not> is_digit (CHR ''.'')"
  by (simp_all add: is_digit_def byte_def)

definition fields :: "proto_port_params_t \<Rightarrow> u8 list" where
  "fields q = [h1 q, h2 q, h3 q, h4 q, p1 q, p2 q]"

lemma parse_port_octets: "proto_parse_port (octets (CHR '','') (fields q)) = Some q"
  by (simp add: proto_parse_port_def fields_def)

lemma length_octets: "length (octets sep ws) \<le> 4 * length ws"
proof (induction sep ws rule: octets.induct)
  case (2 sep w)
  have "length (dec (unat w)) \<le> Suc 2"
    by (rule length_dec) (use unat_octet [of w] in simp)
  then show ?case by simp
next
  case (3 sep w v ws)
  have "length (dec (unat w)) \<le> Suc 2"
    by (rule length_dec) (use unat_octet [of w] in simp)
  with 3 show ?case by simp
qed simp

lemma port_bytes:
  "(ucast (ucast ((port :: u16) div 256) :: u8) * 256 + ucast (ucast (port mod 256) :: u8)) = port"
proof -
  have u: "unat port < 65536" using unsigned_less [of port] by simp
  have "unat (ucast (ucast (port div 256) :: u8) * 256 + ucast (ucast (port mod 256) :: u8) :: u16) = unat port"
    using u by (simp add: unat_word_ariths unat_div unat_mod unsigned_ucast_eq take_bit_eq_mod)
  then show ?thesis by (simp add: word_unat_eq_iff)
qed


section \<open>Normalised paths\<close>

abbreviation slash :: char where "slash \<equiv> CHR ''/''"

definition slashify :: "string \<Rightarrow> string" where
  "slashify s = map (\<lambda>c. if c = CHR 0x5C then slash else c) s"

lemma drop_dup_idem: "drop_dup_slashes b (drop_dup_slashes b s) = drop_dup_slashes b s"
  by (induction s arbitrary: b) auto

lemma length_drop_dup: "length (drop_dup_slashes b s) \<le> length s"
  by (induction s arbitrary: b) (auto intro: le_SucI)

lemma in_drop_dup: "c \<in> set (drop_dup_slashes b s) \<Longrightarrow> c \<in> set s"
  by (induction s arbitrary: b) (auto split: if_splits)

lemma set_drop_dup: "set (drop_dup_slashes b s) \<subseteq> set s"
  by (auto dest: in_drop_dup)

lemma drop_dup_fix_Cons:
  "drop_dup_slashes b (c # cs) = c # cs \<longleftrightarrow>
     (c = slash \<longrightarrow> \<not> b) \<and> drop_dup_slashes (c = slash) cs = cs"
proof -
  have "drop_dup_slashes True cs \<noteq> slash # cs"
    using length_drop_dup [of True cs] by (metis Suc_n_not_le_n length_Cons)
  then show ?thesis by (cases "c = slash"; cases b) simp_all
qed

lemma drop_dup_butlast: "drop_dup_slashes b t = t \<Longrightarrow> drop_dup_slashes b (butlast t) = butlast t"
proof (induction t arbitrary: b)
  case (Cons c cs)
  show ?case
  proof (cases "cs = []")
    case False
    then have "butlast (c # cs) = c # butlast cs" by simp
    moreover have "(c = slash \<longrightarrow> \<not> b) \<and> drop_dup_slashes (c = slash) cs = cs"
      by (rule iffD1 [OF drop_dup_fix_Cons, OF Cons.prems])
    ultimately show ?thesis using Cons.IH by (metis drop_dup_fix_Cons)
  qed simp
qed simp

lemma drop_dup_last2: "drop_dup_slashes b (u @ [slash]) = u @ [slash] \<Longrightarrow> u \<noteq> [] \<Longrightarrow> last u \<noteq> slash"
proof (induction u arbitrary: b)
  case (Cons c cs)
  have fixed: "drop_dup_slashes (c = slash) (cs @ [slash]) = cs @ [slash]"
    using Cons.prems(1) by (simp only: append_Cons drop_dup_fix_Cons)
  show ?case
  proof (cases "cs = []")
    case True
    with fixed show ?thesis by (cases "c = slash") simp_all
  next
    case False
    with Cons.IH [OF fixed] show ?thesis by simp
  qed
qed simp

lemma split_drop_dup:
  "filter (\<lambda>w. w \<noteq> []) (split_at slash (drop_dup_slashes b s)) = filter (\<lambda>w. w \<noteq> []) (split_at slash s) \<and>
   (\<not> b \<longrightarrow> hd (split_at slash (drop_dup_slashes b s)) = hd (split_at slash s) \<and>
     filter (\<lambda>w. w \<noteq> []) (tl (split_at slash (drop_dup_slashes b s))) = filter (\<lambda>w. w \<noteq> []) (tl (split_at slash s)))"
  by (induction s arbitrary: b) auto

lemma strtok_drop_dup [simp]: "strtok slash (drop_dup_slashes b s) = strtok slash s"
  using split_drop_dup [of b s] by (simp add: strtok_def)

lemma strtok_butlast: "t \<noteq> [] \<Longrightarrow> last t = x \<Longrightarrow> strtok x (butlast t) = strtok x t"
  using strtok_append [of x "butlast t" "[]"] append_butlast_last_id [of t] by fastforce

lemma normalize_Some:
  assumes "proto_normalize_path p n = Some q"
  shows "length q \<le> length p" "length q < n" "set q \<subseteq> set (slashify p)"
    "drop_dup_slashes False q = q" "length q > 1 \<Longrightarrow> last q \<noteq> slash"
    "strtok slash q = strtok slash (slashify p)" "CHR 0x5C \<notin> set q"
proof -
  let ?t = "drop_dup_slashes False (slashify p)"
  from assms have q: "q = (if length ?t > 1 \<and> last ?t = slash then butlast ?t else ?t)" and n: "length p < n"
    by (auto simp: proto_normalize_path_def Let_def slashify_def split: if_splits)
  have fix_t: "drop_dup_slashes False ?t = ?t" by (rule drop_dup_idem)
  have lt: "length ?t \<le> length p" using length_drop_dup [of False "slashify p"] by (simp add: slashify_def)
  then show "length q \<le> length p" using q by (auto split: if_splits)
  then show "length q < n" using n by simp
  show s: "set q \<subseteq> set (slashify p)"
    using q set_drop_dup [of False "slashify p"] by (auto split: if_splits dest: in_set_butlastD)
  show "drop_dup_slashes False q = q" using q fix_t drop_dup_butlast by (auto split: if_splits)
  show "last q \<noteq> slash" if "length q > 1"
  proof (cases "length ?t > 1 \<and> last ?t = slash")
    case True
    then have "?t = butlast ?t @ [slash]" by (metis append_butlast_last_id list.size(3) not_one_less_zero)
    then have "drop_dup_slashes False (butlast ?t @ [slash]) = butlast ?t @ [slash]" using fix_t by metis
    with True that q show ?thesis by (metis drop_dup_last2 list.size(3) not_one_less_zero)
  qed (use that q in auto)
  show "strtok slash q = strtok slash (slashify p)"
  proof (cases "length ?t > 1 \<and> last ?t = slash")
    case True
    then have "strtok slash (butlast ?t) = strtok slash ?t" by (intro strtok_butlast) auto
    with True q show ?thesis by simp
  next
    case False
    with q have "q = ?t" by metis
    then show ?thesis by simp
  qed
  show "CHR 0x5C \<notin> set q" using s by (auto simp: slashify_def)
qed

text \<open>Normalisation keeps the path components and removes only redundant slashes: the result
  has the same components as the input with backslashes read as slashes, no backslash, no empty
  component in the middle, no trailing slash except for the root itself, and normalising it again
  changes nothing.\<close>
theorem proto_normalize_path_correct:
  assumes "proto_normalize_path p n = Some q"
  shows "strtok slash q = strtok slash (slashify p) \<and> CHR 0x5C \<notin> set q \<and>
     (length q > 1 \<longrightarrow> last q \<noteq> slash) \<and> proto_normalize_path q n = Some q"
proof -
  note q = normalize_Some [OF assms]
  have "slashify q = q" using q(7) by (auto simp: slashify_def intro: map_idI)
  then have "proto_normalize_path q n = Some q"
    using q by (auto simp: proto_normalize_path_def Let_def slashify_def)
  with q show ?thesis by blast
qed

theorem proto_normalize_path_correct_witness:
  "strtok slash ''/a/b'' = strtok slash (slashify (''//a'' @ [CHR 0x5C] @ ''b/''))"
  using proto_normalize_path_correct [of "''//a'' @ [CHR 0x5C] @ ''b/''" 20 "''/a/b''"]
  by (simp add: proto_normalize_path_def)

section \<open>Deviations from the comments\<close>

text \<open>The branch of the Telnet filter for negotiation commands (WILL, WONT, DO, DONT) is never
  taken, because the test for command bytes before it includes their codes: only IAC and the
  command byte are skipped and the option byte stays in the command text.\<close>
theorem telnet_option_byte_kept:
  assumes "0xFB \<le> byte d" "byte d \<le> 0xFE" "length out < 529"
  shows "telnet_filter (CHR 0xFF # d # opt # s) out = telnet_filter (opt # s) out"
  using assms by (simp add: proto_sizes byte_def del: telnet_filter.simps(2) add: telnet_filter.simps(2) [of "CHR 0xFF"])

theorem telnet_option_byte_kept_witness:
  "telnet_filter (CHR 0xFF # CHR 0xFD # CHR 0x06 # ''ABOR'') [] = telnet_filter (CHR 0x06 # ''ABOR'') []"
  by (rule telnet_option_byte_kept) (simp_all add: byte_def)

text \<open>An unknown Telnet sequence loses one byte of the command text more than the sequence
  itself: IAC, the next byte and the byte after them are all skipped.\<close>
theorem telnet_unknown_skips_three:
  assumes "byte d < 0xF0" "length out < 529"
  shows "telnet_filter (CHR 0xFF # d # c # s) out = telnet_filter s out"
  using assms by (simp add: proto_sizes byte_def del: telnet_filter.simps(2) add: telnet_filter.simps(2) [of "CHR 0xFF"])

theorem telnet_unknown_skips_three_witness:
  "telnet_filter (CHR 0xFF # CHR 0x01 # ''NOOP'') [] = telnet_filter ''OOP'' []"
  by (rule telnet_unknown_skips_three) (simp_all add: byte_def)

text \<open>The check for control characters compares a signed \<open>char\<close>, so every path with a byte
  from 0x80 on, in particular every non-ASCII UTF-8 name, is rejected.\<close>
theorem proto_validate_path_rejects_non_ascii:
  assumes "c \<in> set path" "128 \<le> byte c"
  shows "\<not> proto_validate_path path"
proof -
  from byte_less_256 [of c] have "int (byte c) - 256 < 32" by linarith
  with assms(2) have "signed_char c < 32" by (simp add: signed_char_def)
  moreover have "c \<noteq> CHR 0x09" using assms(2) by (auto simp: byte_def)
  ultimately show ?thesis using assms(1) by (auto simp: proto_validate_path_def)
qed

theorem proto_validate_path_rejects_non_ascii_witness:
  "\<not> proto_validate_path [CHR 0xC3, CHR 0xA9]"
  by (rule proto_validate_path_rejects_non_ascii [of "CHR 0xC3"]) (simp_all add: byte_def)

end
