(* ===== verification/Command.thy ===== *)
theory Command
  imports Protocol
begin

text \<open>
  \<open>server/src/command.c\<close>: the table of command handlers. A handler is a state transformer over
  the context \<open>'s\<close> that the code passes as an opaque pointer; a null function pointer is
  \<open>None\<close>. The module's two static variables are the record \<open>cmd_state\<close>, which the operations
  that change it return with the C result. The abstract view of a table is the finite map
  \<open>cmd_lookup\<close> from command names to handlers; the interface \<open>handler_table\<close> states what the
  operations do to that map.
\<close>

section \<open>State and operations\<close>

definition CMD_MAX_HANDLERS :: nat where "CMD_MAX_HANDLERS = 64"

type_synonym 's cmd_handler_t = "proto_command_t \<Rightarrow> ('s, int) state"

record 's cmd_handler_entry_t =
  ent_command :: string
  ent_handler :: "'s cmd_handler_t option"
  ent_prev_handler :: "'s cmd_handler_t option"
  ent_in_use :: bool

record 's cmd_state =
  g_handlers :: "'s cmd_handler_entry_t list"
  g_initialized :: bool

definition zero_entry :: "'s cmd_handler_entry_t" where
  "zero_entry = \<lparr>ent_command = [], ent_handler = None, ent_prev_handler = None, ent_in_use = False\<rparr>"

text \<open>The static variables before the first call.\<close>

definition cmd_state0 :: "'s cmd_state" where
  "cmd_state0 = \<lparr>g_handlers = replicate CMD_MAX_HANDLERS zero_entry, g_initialized = False\<rparr>"

definition cmd_init :: "'s cmd_state \<Rightarrow> int \<times> 's cmd_state" where
  "cmd_init st =
     (if g_initialized st then (0, st)
      else (0, st\<lparr>g_handlers := replicate CMD_MAX_HANDLERS zero_entry, g_initialized := True\<rparr>))"

definition cmd_cleanup :: "'s cmd_state \<Rightarrow> 's cmd_state" where
  "cmd_cleanup st =
     (if \<not> g_initialized st then st
      else st\<lparr>g_handlers := replicate CMD_MAX_HANDLERS zero_entry, g_initialized := False\<rparr>)"

definition cmd_key :: "string \<Rightarrow> string" where
  "cmd_key name = to_uppercase (strncpy_buf PROTO_MAX_CMD_NAME name)"

fun first_index :: "('a \<Rightarrow> bool) \<Rightarrow> 'a list \<Rightarrow> nat option" where
  "first_index P [] = None"
| "first_index P (x # xs) = (if P x then Some 0 else map_option Suc (first_index P xs))"

definition find_handler_index :: "'s cmd_state \<Rightarrow> string \<Rightarrow> nat option" where
  "find_handler_index st name =
     first_index (\<lambda>e. ent_in_use e \<and> ent_command e = cmd_key name) (g_handlers st)"

definition cmd_register_handler ::
  "string \<Rightarrow> 's cmd_handler_t option \<Rightarrow> 's cmd_handler_t option \<Rightarrow> 's cmd_state \<Rightarrow> int \<times> 's cmd_state" where
  "cmd_register_handler name handler prev_handler st =
     (if \<not> g_initialized st then (-1, st)
      else if handler = None then (-1, st)
      else
        (case find_handler_index st name of
           Some idx \<Rightarrow>
             (0, st\<lparr>g_handlers := (g_handlers st)[idx := (g_handlers st ! idx)
                   \<lparr>ent_handler := handler, ent_prev_handler := prev_handler\<rparr>]\<rparr>)
         | None \<Rightarrow>
             (case first_index (\<lambda>e. \<not> ent_in_use e) (g_handlers st) of
                Some i \<Rightarrow>
                  (0, st\<lparr>g_handlers := (g_handlers st)[i :=
                        \<lparr>ent_command = strncpy_buf PROTO_MAX_CMD_NAME (cmd_key name), ent_handler = handler,
                         ent_prev_handler = prev_handler, ent_in_use = True\<rparr>]\<rparr>)
              | None \<Rightarrow> (-1, st))))"

definition cmd_unregister_handler :: "string \<Rightarrow> 's cmd_state \<Rightarrow> int \<times> 's cmd_state" where
  "cmd_unregister_handler name st =
     (if \<not> g_initialized st then (-1, st)
      else
        (case find_handler_index st name of
           None \<Rightarrow> (-1, st)
         | Some idx \<Rightarrow>
             (0, st\<lparr>g_handlers := (g_handlers st)[idx :=
                   \<lparr>ent_command = [], ent_handler = None, ent_prev_handler = None, ent_in_use = False\<rparr>]\<rparr>)))"

text \<open>
  Dispatch compares the parsed name with the stored ones as it is. An entry in use has a handler
  (\<open>wf_table\<close> below), so the last case, a call through a null pointer, does not arise.
\<close>

definition cmd_dispatch :: "'s cmd_state \<Rightarrow> proto_command_t \<Rightarrow> ('s, int) state" where
  "cmd_dispatch st cmd =
     (if \<not> g_initialized st then ret (-1)
      else
        (case first_index (\<lambda>e. ent_in_use e \<and> ent_command e = command cmd) (g_handlers st) of
           None \<Rightarrow> ret (-1)
         | Some i \<Rightarrow>
             (let e = g_handlers st ! i;
                  call = (case ent_handler e of Some h \<Rightarrow> h cmd | None \<Rightarrow> ret (-1))
              in case ent_prev_handler e of
                   Some prev \<Rightarrow> do { res \<leftarrow> prev cmd; if res \<noteq> 0 then ret res else call }
                 | None \<Rightarrow> call)))"

definition cmd_is_registered :: "'s cmd_state \<Rightarrow> string \<Rightarrow> bool" where
  "cmd_is_registered st name = (if \<not> g_initialized st then False else find_handler_index st name \<noteq> None)"

definition cmd_get_handler_count :: "'s cmd_state \<Rightarrow> nat" where
  "cmd_get_handler_count st =
     (if \<not> g_initialized st then 0 else length (filter ent_in_use (g_handlers st)))"

definition COMMAND_LIST_SIZE :: nat where
  "COMMAND_LIST_SIZE = CMD_MAX_HANDLERS * (PROTO_MAX_CMD_NAME + 4)"

fun command_list_loop :: "'s cmd_handler_entry_t list \<Rightarrow> nat \<Rightarrow> string \<Rightarrow> string" where
  "command_list_loop [] total_cmds out = out"
| "command_list_loop (e # es) total_cmds out =
     (if ent_in_use e then
        (let n = total_cmds + 1;
             out1 = (if n mod 5 \<noteq> 1 then strncat_buf COMMAND_LIST_SIZE out '', '' else out);
             out2 = strncat_buf COMMAND_LIST_SIZE out1 (ent_command e);
             out3 = (if n mod 5 = 0 then strncat_buf COMMAND_LIST_SIZE out2 ('','' @ [LF]) else out2)
         in command_list_loop es n out3)
      else command_list_loop es total_cmds out)"

definition cmd_get_all_registered_commands :: "'s cmd_state \<Rightarrow> string" where
  "cmd_get_all_registered_commands st =
     (if \<not> g_initialized st then [] else command_list_loop (g_handlers st) 0 [])"

section \<open>The table as a map\<close>

definition entry_value :: "'s cmd_handler_entry_t \<Rightarrow> 's cmd_handler_t \<times> 's cmd_handler_t option" where
  "entry_value e = (the (ent_handler e), ent_prev_handler e)"

definition in_use_named :: "string \<Rightarrow> 's cmd_handler_entry_t \<Rightarrow> bool" where
  "in_use_named k e \<longleftrightarrow> ent_in_use e \<and> ent_command e = k"

definition cmd_lookup :: "'s cmd_state \<Rightarrow> string \<Rightarrow> ('s cmd_handler_t \<times> 's cmd_handler_t option) option" where
  "cmd_lookup st k = map_option entry_value (find (in_use_named k) (g_handlers st))"

definition wf_entries :: "'s cmd_handler_entry_t list \<Rightarrow> bool" where
  "wf_entries es \<longleftrightarrow>
     (\<forall>e \<in> set es. ent_in_use e \<longrightarrow> ent_handler e \<noteq> None) \<and>
     (\<forall>e \<in> set es. ent_in_use e \<longrightarrow> cmd_key (ent_command e) = ent_command e) \<and>
     (\<forall>i < length es. \<forall>j < length es. ent_in_use (es ! i) \<and> in_use_named (ent_command (es ! i)) (es ! j) \<longrightarrow> i = j)"

definition wf_table :: "'s cmd_state \<Rightarrow> bool" where
  "wf_table st \<longleftrightarrow> g_initialized st \<and> length (g_handlers st) = CMD_MAX_HANDLERS \<and> wf_entries (g_handlers st)"

lemma first_index_Some:
  "first_index P xs = Some i \<Longrightarrow>
   i < length xs \<and> P (xs ! i) \<and> (\<forall>x \<in> set (take i xs). \<not> P x) \<and> find P xs = Some (xs ! i)"
proof (induction xs arbitrary: i)
  case (Cons x xs)
  then show ?case by (cases i) (auto split: if_splits)
qed simp

lemma first_index_None: "first_index P xs = None \<longleftrightarrow> (\<forall>x \<in> set xs. \<not> P x)"
  by (induction xs) auto

lemma find_None_iff_ball: "find P xs = None \<longleftrightarrow> (\<forall>x \<in> set xs. \<not> P x)"
  by (induction xs) auto

lemma first_index_find: "map_option (\<lambda>i. xs ! i) (first_index P xs) = find P xs"
  by (induction xs) (auto simp: option.map_comp comp_def)

lemma cmd_key_idem [simp]: "cmd_key (cmd_key n) = cmd_key n"
  by (simp add: cmd_key_def strncpy_buf_def to_uppercase_def take_map)

lemma strncpy_cmd_key [simp]: "strncpy_buf PROTO_MAX_CMD_NAME (cmd_key n) = cmd_key n"
  by (simp add: cmd_key_def strncpy_buf_def to_uppercase_def take_map)

lemma cmd_key_upper:
  "length n < PROTO_MAX_CMD_NAME \<Longrightarrow> to_uppercase n = n \<Longrightarrow> cmd_key n = n"
  by (simp add: cmd_key_def strncpy_buf_id)

text \<open>
  One lemma for the three kinds of update: entry \<open>i\<close> is the only one that may carry the name
  \<open>n\<close>, before and after.
\<close>

lemma find_update:
  assumes "i < length es" "\<forall>j < length es. j \<noteq> i \<longrightarrow> \<not> in_use_named n (es ! j)"
    and "ent_in_use (es ! i) \<longrightarrow> ent_command (es ! i) = n" "ent_in_use e \<longrightarrow> ent_command e = n"
  shows "find (in_use_named k) (es[i := e]) =
     (if k = n then (if ent_in_use e then Some e else None) else find (in_use_named k) es)"
  using assms
proof (induction es arbitrary: i)
  case (Cons d es)
  show ?case
  proof (cases i)
    case 0
    have "\<forall>j < length es. \<not> in_use_named n (es ! j)"
      using Cons.prems(2) 0 by (metis Suc_less_eq length_Cons nat.distinct(1) nth_Cons_Suc)
    then have "find (in_use_named n) es = None"
      by (simp add: find_None_iff_ball all_set_conv_all_nth)
    moreover have "in_use_named k e \<longleftrightarrow> ent_in_use e \<and> k = n" "\<not> ent_in_use e \<or> ent_command e = n"
      using Cons.prems(4) by (auto simp: in_use_named_def)
    moreover have "in_use_named k d \<longrightarrow> k = n"
      using Cons.prems(3) 0 by (auto simp: in_use_named_def)
    ultimately show ?thesis using 0 by auto
  next
    case (Suc m)
    have "\<not> in_use_named n d" using Cons.prems(2) Suc by fastforce
    moreover have "\<forall>j < length es. j \<noteq> m \<longrightarrow> \<not> in_use_named n (es ! j)"
      using Cons.prems(2) Suc by (metis Suc_less_eq length_Cons nat.inject nth_Cons_Suc)
    ultimately show ?thesis using Suc Cons.IH [of m] Cons.prems by auto
  qed
qed simp

lemma wf_entries_update:
  assumes "wf_entries es" "i < length es" "\<forall>j < length es. j \<noteq> i \<longrightarrow> \<not> in_use_named n (es ! j)"
    and "ent_in_use e \<longrightarrow> ent_command e = n \<and> ent_handler e \<noteq> None \<and> cmd_key n = n"
  shows "wf_entries (es[i := e])"
  using assms unfolding wf_entries_def
  by (auto simp: nth_list_update in_use_named_def dest!: set_update_subset_insert [THEN subsetD])

lemma wf_entries_unique:
  assumes "wf_entries es" "i < length es" "in_use_named n (es ! i)"
  shows "\<forall>j < length es. j \<noteq> i \<longrightarrow> \<not> in_use_named n (es ! j)"
  using assms by (auto simp: wf_entries_def in_use_named_def)

lemma find_handler_index_eq:
  "find_handler_index st n = first_index (in_use_named (cmd_key n)) (g_handlers st)"
  by (simp add: find_handler_index_def in_use_named_def [abs_def])

lemma lookup_None_iff: "cmd_lookup st k = None \<longleftrightarrow> (\<forall>e \<in> set (g_handlers st). \<not> in_use_named k e)"
  by (simp add: cmd_lookup_def find_None_iff_ball)

lemma find_index_lookup: "find_handler_index st n = None \<longleftrightarrow> cmd_lookup st (cmd_key n) = None"
  by (simp add: find_handler_index_eq first_index_None lookup_None_iff)

lemma register_found:
  assumes "wf_table st" "find_handler_index st n = Some i"
  shows "fst (cmd_register_handler n (Some h) p st) = 0 \<and>
     wf_table (snd (cmd_register_handler n (Some h) p st)) \<and>
     cmd_lookup (snd (cmd_register_handler n (Some h) p st)) = (cmd_lookup st)(cmd_key n \<mapsto> (h, p))"
proof -
  let ?es = "g_handlers st" and ?e = "(g_handlers st ! i)\<lparr>ent_handler := Some h, ent_prev_handler := p\<rparr>"
  have i: "i < length ?es" "in_use_named (cmd_key n) (?es ! i)"
    using assms(2) by (auto simp: find_handler_index_eq dest: first_index_Some)
  have wf: "wf_entries ?es" using assms(1) by (simp add: wf_table_def)
  note u = wf_entries_unique [OF wf i]
  have "wf_entries (?es[i := ?e])"
    by (rule wf_entries_update [OF wf i(1) u]) (use i(2) in \<open>auto simp: in_use_named_def\<close>)
  moreover have "find (in_use_named k) (?es[i := ?e]) =
      (if k = cmd_key n then Some ?e else find (in_use_named k) ?es)" for k
    using find_update [OF i(1) u, of ?e k] i(2) by (auto simp: in_use_named_def)
  ultimately show ?thesis
    using assms by (auto simp: cmd_register_handler_def wf_table_def cmd_lookup_def entry_value_def fun_eq_iff)
qed

lemma register_free:
  assumes "wf_table st" "find_handler_index st n = None"
    and free: "first_index (\<lambda>e. \<not> ent_in_use e) (g_handlers st) = Some i"
  shows "fst (cmd_register_handler n (Some h) p st) = 0 \<and>
     wf_table (snd (cmd_register_handler n (Some h) p st)) \<and>
     cmd_lookup (snd (cmd_register_handler n (Some h) p st)) = (cmd_lookup st)(cmd_key n \<mapsto> (h, p))"
proof -
  let ?es = "g_handlers st"
  let ?e = "\<lparr>ent_command = cmd_key n, ent_handler = Some h, ent_prev_handler = p, ent_in_use = True\<rparr>"
  have i: "i < length ?es" "\<not> ent_in_use (?es ! i)"
    using first_index_Some [OF free] by auto
  have wf: "wf_entries ?es" using assms(1) by (simp add: wf_table_def)
  have u: "\<forall>j < length ?es. j \<noteq> i \<longrightarrow> \<not> in_use_named (cmd_key n) (?es ! j)"
    using assms(2) by (simp add: find_handler_index_eq first_index_None)
  have "wf_entries (?es[i := ?e])"
    by (rule wf_entries_update [OF wf i(1) u]) auto
  moreover have "find (in_use_named k) (?es[i := ?e]) =
      (if k = cmd_key n then Some ?e else find (in_use_named k) ?es)" for k
    using find_update [OF i(1) u, of ?e k] i(2) by auto
  ultimately show ?thesis
    using assms by (auto simp: cmd_register_handler_def wf_table_def cmd_lookup_def entry_value_def fun_eq_iff)
qed

lemma unregister_found:
  assumes "wf_table st" "find_handler_index st n = Some i"
  shows "fst (cmd_unregister_handler n st) = 0 \<and> wf_table (snd (cmd_unregister_handler n st)) \<and>
     cmd_lookup (snd (cmd_unregister_handler n st)) = (cmd_lookup st)(cmd_key n := None)"
proof -
  let ?es = "g_handlers st"
  let ?e = "\<lparr>ent_command = [], ent_handler = None, ent_prev_handler = None, ent_in_use = False\<rparr> :: 'a cmd_handler_entry_t"
  have i: "i < length ?es" "in_use_named (cmd_key n) (?es ! i)"
    using assms(2) by (auto simp: find_handler_index_eq dest: first_index_Some)
  have wf: "wf_entries ?es" using assms(1) by (simp add: wf_table_def)
  note u = wf_entries_unique [OF wf i]
  have "wf_entries (?es[i := ?e])"
    by (rule wf_entries_update [OF wf i(1) u]) auto
  moreover have "find (in_use_named k) (?es[i := ?e]) =
      (if k = cmd_key n then None else find (in_use_named k) ?es)" for k
    using find_update [OF i(1) u, of ?e k] i(2) by (auto simp: in_use_named_def)
  ultimately show ?thesis
    using assms by (auto simp: cmd_unregister_handler_def wf_table_def cmd_lookup_def fun_eq_iff)
qed

text \<open>The number of entries in use is the number of names in the map.\<close>

lemma dom_cmd_lookup: "dom (cmd_lookup st) = ent_command ` {e \<in> set (g_handlers st). ent_in_use e}"
proof -
  have "k \<in> dom (cmd_lookup st) \<longleftrightarrow> (\<exists>e \<in> set (g_handlers st). in_use_named k e)" for k
    using lookup_None_iff [of st k] by (auto simp: dom_def)
  then show ?thesis by (intro set_eqI) (simp add: in_use_named_def image_iff Bex_def, blast)
qed

lemma handler_count_card:
  assumes "wf_table st"
  shows "length (filter ent_in_use (g_handlers st)) = card (dom (cmd_lookup st))"
proof -
  let ?es = "g_handlers st" and ?I = "{i. i < length (g_handlers st) \<and> ent_in_use (g_handlers st ! i)}"
  have "dom (cmd_lookup st) = (\<lambda>i. ent_command (?es ! i)) ` ?I"
    by (auto simp: dom_cmd_lookup in_set_conv_nth)
  moreover have "inj_on (\<lambda>i. ent_command (?es ! i)) ?I"
    using assms by (auto simp: inj_on_def wf_table_def wf_entries_def in_use_named_def)
  ultimately show ?thesis by (simp add: card_image length_filter_conv_card)
qed

lemma free_slot_iff:
  assumes "wf_table st"
  shows "first_index (\<lambda>e. \<not> ent_in_use e) (g_handlers st) = None \<longleftrightarrow> card (dom (cmd_lookup st)) = CMD_MAX_HANDLERS"
proof -
  have "length (filter ent_in_use (g_handlers st)) = length (g_handlers st) \<longleftrightarrow> (\<forall>e \<in> set (g_handlers st). ent_in_use e)"
    by (metis filter_id_conv length_filter_less less_irrefl)
  with assms show ?thesis
    by (simp add: first_index_None handler_count_card [symmetric] wf_table_def)
qed

lemma card_dom_le:
  assumes "wf_table st" shows "card (dom (cmd_lookup st)) \<le> CMD_MAX_HANDLERS"
  using assms length_filter_le [of ent_in_use "g_handlers st"]
  by (simp add: handler_count_card [symmetric] wf_table_def)

lemma register_full:
  assumes "wf_table st" "cmd_lookup st (cmd_key n) = None" "card (dom (cmd_lookup st)) = CMD_MAX_HANDLERS"
  shows "cmd_register_handler n (Some h) p st = (-1, st)"
  using assms free_slot_iff [OF assms(1)]
  by (simp add: cmd_register_handler_def find_index_lookup [symmetric])

lemma register_ok:
  assumes "wf_table st" "cmd_lookup st (cmd_key n) \<noteq> None \<or> card (dom (cmd_lookup st)) < CMD_MAX_HANDLERS"
  shows "fst (cmd_register_handler n (Some h) p st) = 0 \<and>
     wf_table (snd (cmd_register_handler n (Some h) p st)) \<and>
     cmd_lookup (snd (cmd_register_handler n (Some h) p st)) = (cmd_lookup st)(cmd_key n \<mapsto> (h, p))"
proof (cases "find_handler_index st n")
  case None
  with assms have "card (dom (cmd_lookup st)) \<noteq> CMD_MAX_HANDLERS" by (simp add: find_index_lookup)
  then obtain i where "first_index (\<lambda>e. \<not> ent_in_use e) (g_handlers st) = Some i"
    using free_slot_iff [OF assms(1)] by blast
  with assms(1) None show ?thesis by (rule register_free)
qed (use assms(1) register_found in blast)

section \<open>The interface of the table\<close>

text \<open>
  What a client of the table may rely on: registering stores a handler under the key of its name
  while there is room, and is refused when there is none; unregistering removes it.
\<close>

locale handler_table =
  fixes lookup :: "'t \<Rightarrow> string \<Rightarrow> 'h option"
    and register :: "string \<Rightarrow> 'h \<Rightarrow> 't \<Rightarrow> int \<times> 't"
    and unregister :: "string \<Rightarrow> 't \<Rightarrow> int \<times> 't"
    and invar :: "'t \<Rightarrow> bool"
    and key :: "string \<Rightarrow> string"
    and capacity :: nat
  assumes finite_dom: "invar t \<Longrightarrow> finite (dom (lookup t))"
    and dom_capacity: "invar t \<Longrightarrow> card (dom (lookup t)) \<le> capacity"
    and register_stores: "invar t \<Longrightarrow> lookup t (key n) \<noteq> None \<or> card (dom (lookup t)) < capacity \<Longrightarrow>
      fst (register n h t) = 0 \<and> invar (snd (register n h t)) \<and>
      lookup (snd (register n h t)) = (lookup t)(key n \<mapsto> h)"
    and register_refused: "invar t \<Longrightarrow> lookup t (key n) = None \<Longrightarrow> card (dom (lookup t)) = capacity \<Longrightarrow>
      register n h t = (-1, t)"
    and unregister_removes: "invar t \<Longrightarrow> lookup t (key n) \<noteq> None \<Longrightarrow>
      fst (unregister n t) = 0 \<and> invar (snd (unregister n t)) \<and>
      lookup (snd (unregister n t)) = (lookup t)(key n := None)"
    and unregister_absent: "invar t \<Longrightarrow> lookup t (key n) = None \<Longrightarrow> unregister n t = (-1, t)"
begin

lemma register_invar: "invar t \<Longrightarrow> invar (snd (register n h t))"
  using register_stores [of t n h] register_refused [of t n h] dom_capacity [of t]
  by (metis le_neq_implies_less snd_conv)

lemma unregister_invar: "invar t \<Longrightarrow> invar (snd (unregister n t))"
  using unregister_removes [of t n] unregister_absent [of t n] by (metis snd_conv)

text \<open>Registering a list of handlers one after the other, or-ing the results together.\<close>

primrec register_all :: "(string \<times> 'h) list \<Rightarrow> int \<Rightarrow> 't \<Rightarrow> int \<times> 't" where
  "register_all [] res t = (res, t)"
| "register_all (c # cs) res t =
     register_all cs (res OR fst (register (fst c) (snd c) t)) (snd (register (fst c) (snd c) t))"

lemma register_all_ok:
  assumes "invar t" "card (dom (lookup t)) + length cs \<le> capacity"
  shows "fst (register_all cs 0 t) = 0 \<and> invar (snd (register_all cs 0 t)) \<and>
     lookup (snd (register_all cs 0 t)) = lookup t ++ map_of (rev (map (\<lambda>(n, h). (key n, h)) cs))"
  using assms
proof (induction cs arbitrary: t)
  case (Cons c cs)
  let ?t = "snd (register (fst c) (snd c) t)"
  have r: "fst (register (fst c) (snd c) t) = 0" "invar ?t" "lookup ?t = (lookup t)(key (fst c) \<mapsto> snd c)"
    using register_stores [OF Cons.prems(1), of "fst c" "snd c"] Cons.prems(2) by simp_all
  have "card (dom (lookup ?t)) \<le> Suc (card (dom (lookup t)))"
    by (simp add: r(3) card_insert_if finite_dom [OF Cons.prems(1)])
  with Cons.prems(2) have "card (dom (lookup ?t)) + length cs \<le> capacity" by simp
  from Cons.IH [OF r(2) this] r show ?case
    by (cases c) (auto simp: fun_eq_iff map_add_def split: option.splits)
qed simp

end

definition register_pair ::
  "string \<Rightarrow> 's cmd_handler_t \<times> 's cmd_handler_t option \<Rightarrow> 's cmd_state \<Rightarrow> int \<times> 's cmd_state" where
  "register_pair n h st = cmd_register_handler n (Some (fst h)) (snd h) st"

interpretation cmd: handler_table cmd_lookup register_pair cmd_unregister_handler wf_table cmd_key CMD_MAX_HANDLERS
proof (unfold_locales, goal_cases)
  case (1 t)
  show ?case by (simp add: dom_cmd_lookup)
next
  case (2 t)
  then show ?case by (rule card_dom_le)
next
  case (3 t n h)
  then show ?case using register_ok [of t n "fst h" "snd h"] by (simp add: register_pair_def)
next
  case (4 t n h)
  then show ?case using register_full [of t n "fst h" "snd h"] by (simp add: register_pair_def)
next
  case (5 t n)
  then obtain i where "find_handler_index t n = Some i" using find_index_lookup [of t n] by auto
  with 5 show ?case using unregister_found by blast
next
  case (6 t n)
  then show ?case by (auto simp: cmd_unregister_handler_def find_index_lookup [symmetric])
qed

lemma cmd_init_wf: "\<not> g_initialized st \<Longrightarrow> wf_table (snd (cmd_init st)) \<and> cmd_lookup (snd (cmd_init st)) = Map.empty"
  by (auto simp: cmd_init_def wf_table_def wf_entries_def zero_entry_def cmd_lookup_def find_None_iff_ball
      in_use_named_def fun_eq_iff)

lemma cmd_init_state0 [simp]:
  "wf_table (snd (cmd_init cmd_state0))" "cmd_lookup (snd (cmd_init cmd_state0)) = Map.empty"
  by (rule cmd_init_wf [THEN conjunct1], simp add: cmd_state0_def)
    (rule cmd_init_wf [THEN conjunct2], simp add: cmd_state0_def)

section \<open>Properties\<close>

text \<open>On a well-formed table, registering a handler either stores it and its predecessor
  handler under the upper-cased, 7-character key of the name, leaving every other command alone, or,
  when the name is new and all 64 entries are in use, is refused and changes nothing.\<close>
theorem cmd_register_handler_correct:
  assumes "wf_table st"
  shows "wf_table (snd (cmd_register_handler n (Some h) p st)) \<and>
     (if cmd_lookup st (cmd_key n) = None \<and> cmd_get_handler_count st = 64
      then cmd_register_handler n (Some h) p st = (-1, st)
      else fst (cmd_register_handler n (Some h) p st) = 0 \<and>
           cmd_lookup (snd (cmd_register_handler n (Some h) p st)) = (cmd_lookup st)(cmd_key n \<mapsto> (h, p)))"
proof -
  have "cmd_get_handler_count st = card (dom (cmd_lookup st))"
    using assms by (simp add: cmd_get_handler_count_def handler_count_card wf_table_def)
  moreover have "wf_table (snd (cmd_register_handler n (Some h) p st))"
    using cmd.register_invar [OF assms, of n "(h, p)"] by (simp add: register_pair_def)
  ultimately show ?thesis
    using assms card_dom_le [OF assms] register_full [OF assms, of n h p] register_ok [OF assms, of n h p]
    by (auto simp: CMD_MAX_HANDLERS_def)
qed

theorem cmd_register_handler_correct_witness:
  "wf_table (snd (cmd_register_handler ''noop'' (Some (\<lambda>_. ret 0)) None
     (snd (cmd_init (cmd_state0 :: unit cmd_state)))))"
  using cmd_register_handler_correct [OF cmd_init_state0(1)] by blast

text \<open>Unregistering removes exactly the named command from the table; it fails, without any
  change, exactly when the command is not registered.\<close>
theorem cmd_unregister_handler_correct:
  assumes "wf_table st"
  shows "wf_table (snd (cmd_unregister_handler n st)) \<and>
     (if cmd_is_registered st n
      then fst (cmd_unregister_handler n st) = 0 \<and>
           cmd_lookup (snd (cmd_unregister_handler n st)) = (cmd_lookup st)(cmd_key n := None) \<and>
           \<not> cmd_is_registered (snd (cmd_unregister_handler n st)) n
      else cmd_unregister_handler n st = (-1, st))"
proof -
  have reg: "wf_table s \<Longrightarrow> cmd_is_registered s n = (cmd_lookup s (cmd_key n) \<noteq> None)" for s :: "'a cmd_state"
    using find_index_lookup [of s n] by (auto simp: cmd_is_registered_def wf_table_def)
  note inv = cmd.unregister_invar [OF assms, of n]
  show ?thesis
  proof (cases "cmd_lookup st (cmd_key n) = None")
    case True
    with cmd.unregister_absent [OF assms True] assms show ?thesis by (simp add: reg [OF assms])
  next
    case False
    from cmd.unregister_removes [OF assms False] show ?thesis
      by (simp add: reg [OF assms] reg [OF inv] False inv)
  qed
qed

theorem cmd_unregister_handler_correct_witness:
  "cmd_unregister_handler ''NOOP'' (snd (cmd_init (cmd_state0 :: unit cmd_state))) = (-1, snd (cmd_init cmd_state0))"
proof -
  have "\<not> cmd_is_registered (snd (cmd_init (cmd_state0 :: unit cmd_state))) ''NOOP''"
    using find_index_lookup [of "snd (cmd_init (cmd_state0 :: unit cmd_state))" "''NOOP''"]
    by (simp add: cmd_is_registered_def)
  with cmd_unregister_handler_correct [OF cmd_init_state0(1), of "''NOOP''"] show ?thesis
    by (metis (full_types))
qed

lemma wf_lookup_handler:
  assumes "wf_table st" "first_index (in_use_named k) (g_handlers st) = Some i"
  shows "\<exists>h. ent_handler (g_handlers st ! i) = Some h \<and>
     cmd_lookup st k = Some (h, ent_prev_handler (g_handlers st ! i))"
proof -
  note f = first_index_Some [OF assms(2)]
  then have "ent_in_use (g_handlers st ! i)" "g_handlers st ! i \<in> set (g_handlers st)"
    by (auto simp: in_use_named_def)
  then obtain h where "ent_handler (g_handlers st ! i) = Some h"
    using assms(1) by (auto simp: wf_table_def wf_entries_def)
  with f show ?thesis by (simp add: cmd_lookup_def entry_value_def)
qed

lemma dispatch_lookup:
  assumes "wf_table st"
  shows "cmd_dispatch st cmd =
     (case cmd_lookup st (command cmd) of
        None \<Rightarrow> ret (-1)
      | Some (h, None) \<Rightarrow> h cmd
      | Some (h, Some prev) \<Rightarrow> do { res \<leftarrow> prev cmd; if res \<noteq> 0 then ret res else h cmd })"
proof (cases "first_index (in_use_named (command cmd)) (g_handlers st)")
  case None
  then have "cmd_lookup st (command cmd) = None" by (simp add: first_index_None lookup_None_iff)
  with None assms show ?thesis by (simp add: cmd_dispatch_def in_use_named_def [abs_def])
next
  case (Some i)
  with wf_lookup_handler [OF assms Some] assms show ?thesis
    by (auto simp: cmd_dispatch_def in_use_named_def [abs_def] wf_table_def Let_def split: option.splits)
qed



end
