(* ===== verification/Auth.thy ===== *)
theory Auth
  imports Utils
begin

text \<open>
  \<open>server/src/auth.c\<close>: the user database, the anonymous account, password check and permissions,
  and the text format of the database file. The module's static variables are the record
  \<open>auth_state\<close>; its mutex is held for the whole of every operation, so each is one step. A file
  is the list of its bytes: loading takes the contents that \<open>fopen\<close> found (\<open>None\<close> when it
  failed), saving returns the contents written. Null arguments are not values of the model.
\<close>

section \<open>Data\<close>

definition AUTH_MAX_USERNAME :: nat where "AUTH_MAX_USERNAME = 256"
definition AUTH_MAX_HOME_DIR :: nat where "AUTH_MAX_HOME_DIR = 1024"
definition AUTH_MAX_USERS :: nat where "AUTH_MAX_USERS = 1024"

lemmas auth_sizes = AUTH_MAX_USERNAME_def AUTH_MAX_HOME_DIR_def AUTH_MAX_USERS_def

type_synonym auth_permission_t = u32

definition AUTH_PERM_NONE :: auth_permission_t where "AUTH_PERM_NONE = 0x00"
definition AUTH_PERM_READ :: auth_permission_t where "AUTH_PERM_READ = 0x01"
definition AUTH_PERM_WRITE :: auth_permission_t where "AUTH_PERM_WRITE = 0x02"
definition AUTH_PERM_DELETE :: auth_permission_t where "AUTH_PERM_DELETE = 0x04"
definition AUTH_PERM_RENAME :: auth_permission_t where "AUTH_PERM_RENAME = 0x08"
definition AUTH_PERM_MKDIR :: auth_permission_t where "AUTH_PERM_MKDIR = 0x10"
definition AUTH_PERM_RMDIR :: auth_permission_t where "AUTH_PERM_RMDIR = 0x20"
definition AUTH_PERM_ADMIN :: auth_permission_t where "AUTH_PERM_ADMIN = 0x40"
definition AUTH_PERM_ALL :: auth_permission_t where "AUTH_PERM_ALL = 0xFF"

lemmas auth_perms = AUTH_PERM_NONE_def AUTH_PERM_READ_def AUTH_PERM_WRITE_def AUTH_PERM_DELETE_def
  AUTH_PERM_RENAME_def AUTH_PERM_MKDIR_def AUTH_PERM_RMDIR_def AUTH_PERM_ADMIN_def AUTH_PERM_ALL_def

record auth_user_t =
  u_username :: string
  u_password_hash :: string
  u_home_dir :: string
  u_permissions :: auth_permission_t
  u_in_use :: bool

record auth_state =
  auth_initialized :: bool
  g_anonymous_enabled :: bool
  g_users :: "auth_user_t list"
  g_virtual_anonymous :: auth_user_t

definition zero_user :: auth_user_t where
  "zero_user = \<lparr>u_username = [], u_password_hash = [], u_home_dir = [], u_permissions = 0, u_in_use = False\<rparr>"

definition auth_state0 :: auth_state where
  "auth_state0 = \<lparr>auth_initialized = False, g_anonymous_enabled = True,
     g_users = replicate AUTH_MAX_USERS zero_user,
     g_virtual_anonymous = \<lparr>u_username = ''anonymous'', u_password_hash = [], u_home_dir = ''/pub'',
       u_permissions = AUTH_PERM_READ, u_in_use = True\<rparr>\<rparr>"

section \<open>Operations\<close>

definition auth_init :: "auth_state \<Rightarrow> auth_state" where
  "auth_init st =
     (if auth_initialized st then st
      else st\<lparr>g_users := replicate AUTH_MAX_USERS zero_user, auth_initialized := True\<rparr>)"

definition auth_cleanup :: "auth_state \<Rightarrow> auth_state" where
  "auth_cleanup st =
     (if \<not> auth_initialized st then st
      else st\<lparr>g_users := replicate AUTH_MAX_USERS zero_user, auth_initialized := False\<rparr>)"

definition auth_set_anonymous_enabled :: "bool \<Rightarrow> auth_state \<Rightarrow> auth_state" where
  "auth_set_anonymous_enabled enable st = st\<lparr>g_anonymous_enabled := enable\<rparr>"

definition auth_is_anonymous_enabled :: "auth_state \<Rightarrow> bool" where
  "auth_is_anonymous_enabled st = g_anonymous_enabled st"

definition auth_set_anonymous_defaults :: "string \<Rightarrow> auth_permission_t \<Rightarrow> auth_state \<Rightarrow> auth_state" where
  "auth_set_anonymous_defaults home_dir permissions st =
     st\<lparr>g_virtual_anonymous := (g_virtual_anonymous st)
          \<lparr>u_home_dir := strncpy_buf AUTH_MAX_HOME_DIR home_dir, u_permissions := permissions\<rparr>\<rparr>"

definition find_user :: "auth_state \<Rightarrow> string \<Rightarrow> auth_user_t option" where
  "find_user st username = find (\<lambda>u. u_in_use u \<and> u_username u = username) (g_users st)"

fun free_slot :: "auth_user_t list \<Rightarrow> nat option" where
  "free_slot [] = None"
| "free_slot (u # us) = (if \<not> u_in_use u then Some 0 else map_option Suc (free_slot us))"

text \<open>The hash is computed in \<open>unsigned int\<close> and printed with \<open>%064x\<close>.\<close>

definition simple_hash :: "string \<Rightarrow> u32" where
  "simple_hash password = foldl (\<lambda>h c. h * 31 + of_nat (byte c)) 0 password"

definition hash_password :: "string \<Rightarrow> string" where
  "hash_password password = hex_pad False 64 (unat (simple_hash password))"

definition verify_password :: "string \<Rightarrow> string \<Rightarrow> bool" where
  "verify_password password hash \<longleftrightarrow> hash_password password = hash"

definition auth_authenticate :: "auth_state \<Rightarrow> string \<Rightarrow> string \<Rightarrow> bool" where
  "auth_authenticate st username password =
     (if \<not> auth_initialized st then False
      else if g_anonymous_enabled st \<and> username = ''anonymous'' then True
      else (case find_user st username of
              None \<Rightarrow> False
            | Some user \<Rightarrow> verify_password password (u_password_hash user)))"

definition auth_user_exists :: "auth_state \<Rightarrow> string \<Rightarrow> bool" where
  "auth_user_exists st username =
     (if \<not> auth_initialized st then False else find_user st username \<noteq> None)"

definition auth_add_user ::
  "string \<Rightarrow> string \<Rightarrow> string \<Rightarrow> auth_permission_t \<Rightarrow> auth_state \<Rightarrow> int \<times> auth_state" where
  "auth_add_user username password home_dir permissions st =
     (if \<not> auth_initialized st then (-1, st)
      else if find_user st username \<noteq> None then (-1, st)
      else (case free_slot (g_users st) of
              None \<Rightarrow> (-1, st)
            | Some slot \<Rightarrow>
                (0, st\<lparr>g_users := (g_users st)[slot :=
                   \<lparr>u_username = strncpy_buf AUTH_MAX_USERNAME username,
                    u_password_hash = hash_password password,
                    u_home_dir = strncpy_buf AUTH_MAX_HOME_DIR home_dir,
                    u_permissions = permissions, u_in_use = True\<rparr>]\<rparr>)))"

definition auth_get_user :: "auth_state \<Rightarrow> string \<Rightarrow> auth_user_t option" where
  "auth_get_user st username =
     (if \<not> auth_initialized st then None
      else (case find_user st username of
              None \<Rightarrow>
                (if g_anonymous_enabled st \<and> username = ''anonymous''
                 then Some (g_virtual_anonymous st) else None)
            | Some user \<Rightarrow> Some user))"

definition auth_has_permission :: "auth_state \<Rightarrow> string \<Rightarrow> auth_permission_t \<Rightarrow> bool" where
  "auth_has_permission st username permission =
     (if \<not> auth_initialized st then False
      else (case (case find_user st username of
                    None \<Rightarrow>
                      (if g_anonymous_enabled st \<and> username = ''anonymous''
                       then Some (g_virtual_anonymous st) else None)
                  | Some user \<Rightarrow> Some user) of
              None \<Rightarrow> False
            | Some user \<Rightarrow> u_permissions user AND permission = permission))"

section \<open>The database file\<close>

text \<open>
  \<open>fgets\<close> into 2048 bytes: up to 2047 bytes, ending after the first newline. The list of all
  lines of a file, each as the C string that \<open>line\<close> then holds.
\<close>

function file_lines :: "string \<Rightarrow> string list" where
  "file_lines [] = []"
| "file_lines (c # cs) =
     (let whole = takeWhile (\<lambda>c. c \<noteq> LF) (c # cs);
          line = (if length whole < length (c # cs) then whole @ [LF] else whole);
          n = min 2047 (length line)
      in cstr (take n line) # file_lines (drop n (c # cs)))"
  by pat_completeness auto
termination
  by (relation "measure length") (auto simp: Let_def split: if_splits)

text \<open>\<open>%255[^:]\<close> and its kin: at least one and at most \<open>n\<close> bytes other than a colon.\<close>

definition scan_field :: "nat \<Rightarrow> string \<Rightarrow> (string \<times> string) option" where
  "scan_field n s =
     (let f = take n (takeWhile (\<lambda>c. c \<noteq> CHR '':'') s)
      in if f = [] then None else Some (f, drop (length f) s))"

definition parse_user_line :: "string \<Rightarrow> auth_user_t option" where
  "parse_user_line line = do {
     (username, r) \<leftarrow> scan_field 255 line; r \<leftarrow> scan_char (CHR '':'') r;
     (password_hash, r) \<leftarrow> scan_field 64 r; r \<leftarrow> scan_char (CHR '':'') r;
     (home_dir, r) \<leftarrow> scan_field 1023 r; r \<leftarrow> scan_char (CHR '':'') r;
     (permissions, r) \<leftarrow> scan_u r;
     Some \<lparr>u_username = strncpy_buf AUTH_MAX_USERNAME username,
           u_password_hash = strncpy_buf 65 password_hash,
           u_home_dir = strncpy_buf AUTH_MAX_HOME_DIR home_dir,
           u_permissions = permissions, u_in_use = True\<rparr>
   }"

definition is_comment :: "string \<Rightarrow> bool" where
  "is_comment line = (case line of [] \<Rightarrow> False | c # _ \<Rightarrow> c = CHR ''#'' \<or> c = LF \<or> c = CR)"

fun load_loop :: "string list \<Rightarrow> nat \<Rightarrow> auth_user_t list \<Rightarrow> auth_user_t list" where
  "load_loop [] count users = users"
| "load_loop (line # lines) count users =
     (if \<not> count < AUTH_MAX_USERS then users
      else if is_comment line then load_loop lines count users
      else (case parse_user_line line of
              None \<Rightarrow> load_loop lines count users
            | Some u \<Rightarrow>
                (case free_slot users of
                   None \<Rightarrow> users
                 | Some slot \<Rightarrow> load_loop lines (count + 1) (users[slot := u]))))"

definition auth_load_users :: "string option \<Rightarrow> auth_state \<Rightarrow> int \<times> auth_state" where
  "auth_load_users contents st =
     (if \<not> auth_initialized st then (-1, st)
      else (case contents of
              None \<Rightarrow> (-1, st)
            | Some bs \<Rightarrow> (0, st\<lparr>g_users := load_loop (file_lines bs) 0 (g_users st)\<rparr>)))"

definition save_header :: "string list" where
  "save_header =
     [''# FTP User Database'',
      ''# Format: username:password_hash:home_dir:permissions'',
      ''# home_dir should be relative to root_dir and start with /'',
      ''# permissions are hex values (bitwise OR of permission flags):'',
      ''#   0x01 = READ      - Read files and list directories'',
      ''#   0x02 = WRITE     - Write and upload files'',
      ''#   0x04 = DELETE    - Delete files'',
      ''#   0x08 = RENAME    - Rename files and directories'',
      ''#   0x10 = MKDIR     - Create directories'',
      ''#   0x20 = RMDIR     - Remove directories'',
      ''#   0x40 = ADMIN     - Administrative operations'',
      ''#   0xFF = ALL       - All permissions'',
      ''#'',
      ''# Example entries:'',
      ''#   admin:0000000000000000000000000000000000000000000000000000000000001234:/admin:255'',
      ''#   user1:0000000000000000000000000000000000000000000000000000000000005678:/users/user1:3'',
      ''#   readonly:0000000000000000000000000000000000000000000000000000000000004321:/pub:1'',
      ''#'',
      ''# Anonymous user can be defined here or will use default settings (/pub, READ only)'',
      ''# anonymous::/pub:1'',
      '''']"

definition user_line :: "auth_user_t \<Rightarrow> string" where
  "user_line u = u_username u @ '':'' @ u_password_hash u @ '':'' @ u_home_dir u @ '':'' @ dec (unat (u_permissions u))"

text \<open>The first argument says whether \<open>fopen\<close> for writing succeeded.\<close>

definition auth_save_users :: "bool \<Rightarrow> auth_state \<Rightarrow> int \<times> string option" where
  "auth_save_users opened st =
     (if \<not> auth_initialized st then (-1, None)
      else if \<not> opened then (-1, None)
      else (0, Some (concat (map (\<lambda>l. l @ [LF])
             (save_header @ map user_line (filter u_in_use (g_users st)))))))"

section \<open>The interface of the authentication module\<close>

text \<open>
  What a session relies on: the check of credentials and the lookup of the account agree, and the
  existence test answers for the database only.
\<close>

locale authenticator =
  fixes authenticate :: "'a \<Rightarrow> string \<Rightarrow> string \<Rightarrow> bool"
    and get_user :: "'a \<Rightarrow> string \<Rightarrow> 'u option"
    and user_exists :: "'a \<Rightarrow> string \<Rightarrow> bool"
    and anonymous_enabled :: "'a \<Rightarrow> bool"
  assumes authenticate_known: "authenticate a u p \<Longrightarrow> get_user a u \<noteq> None"
    and authenticate_regular: "authenticate a u p \<Longrightarrow> u \<noteq> ''anonymous'' \<or> \<not> anonymous_enabled a \<Longrightarrow> user_exists a u"
begin

lemma authenticated_user:
  assumes "authenticate a u p" obtains user where "get_user a u = Some user"
  using authenticate_known [OF assms] by blast

lemma unknown_rejected:
  "\<not> user_exists a u \<Longrightarrow> u \<noteq> ''anonymous'' \<or> \<not> anonymous_enabled a \<Longrightarrow> \<not> authenticate a u p"
  using authenticate_regular by blast

end

interpretation auth: authenticator auth_authenticate auth_get_user auth_user_exists auth_is_anonymous_enabled
  by unfold_locales
    (auto simp: auth_authenticate_def auth_get_user_def auth_user_exists_def auth_is_anonymous_enabled_def
      split: option.splits if_splits)

section \<open>Adding users\<close>

lemma free_slot_Some: "free_slot us = Some i \<Longrightarrow> i < length us \<and> \<not> u_in_use (us ! i)"
  by (induction us arbitrary: i) (auto split: if_splits)

lemma free_slot_None: "free_slot us = None \<longleftrightarrow> (\<forall>u \<in> set us. u_in_use u)"
  by (induction us) auto

lemma find_user_fill:
  assumes "i < length us" "\<not> u_in_use (us ! i)" "u_in_use u"
    and "find (\<lambda>u. u_in_use u \<and> u_username u = n) us = None \<or> n \<noteq> u_username u"
  shows "find (\<lambda>u. u_in_use u \<and> u_username u = n) (us[i := u]) =
     (if n = u_username u then Some u else find (\<lambda>u. u_in_use u \<and> u_username u = n) us)"
  using assms
proof (induction us arbitrary: i)
  case (Cons v us)
  then show ?case by (cases i) (auto split: if_splits)
qed simp

text \<open>Adding a user fails, without a change, exactly when the module is not initialised, the name
  is taken or all slots are in use. Otherwise the new account, and no other, changes: it
  authenticates with the given password and has the given home directory and permissions.\<close>
theorem auth_add_user_correct:
  assumes "length n < 256"
  shows "if \<not> auth_initialized st \<or> find_user st n \<noteq> None \<or> (\<forall>u \<in> set (g_users st). u_in_use u)
     then auth_add_user n pw home perms st = (-1, st)
     else (let st' = snd (auth_add_user n pw home perms st)
           in fst (auth_add_user n pw home perms st) = 0 \<and> auth_authenticate st' n pw \<and>
              (\<forall>m. m \<noteq> n \<longrightarrow> find_user st' m = find_user st m) \<and>
              map_option u_home_dir (find_user st' n) = Some (take 1023 home) \<and>
              map_option u_permissions (find_user st' n) = Some perms)"
proof (cases "\<not> auth_initialized st \<or> find_user st n \<noteq> None \<or> (\<forall>u \<in> set (g_users st). u_in_use u)")
  case True
  then show ?thesis by (auto simp: auth_add_user_def free_slot_None [symmetric])
next
  case False
  then obtain i where i: "free_slot (g_users st) = Some i" using free_slot_None [of "g_users st"] by auto
  let ?u = "\<lparr>u_username = n, u_password_hash = hash_password pw, u_home_dir = take 1023 home,
     u_permissions = perms, u_in_use = True\<rparr>"
  let ?st = "st\<lparr>g_users := (g_users st)[i := ?u]\<rparr>"
  have add: "auth_add_user n pw home perms st = (0, ?st)"
    using False i assms by (auto simp: auth_add_user_def strncpy_buf_def auth_sizes)
  have f: "find_user ?st m = (if m = n then Some ?u else find_user st m)" for m
    using find_user_fill [of i "g_users st" ?u m] free_slot_Some [OF i] False
    by (cases "m = n") (simp_all add: find_user_def)
  have "auth_authenticate ?st n pw"
    using f [of n] False by (auto simp: auth_authenticate_def verify_password_def)
  with False add f show ?thesis by (simp add: Let_def)
qed

theorem auth_add_user_correct_witness:
  "auth_authenticate (snd (auth_add_user ''bob'' ''pw'' ''/bob'' 3 (auth_init auth_state0))) ''bob'' ''pw''"
proof -
  have "\<not> (\<not> auth_initialized (auth_init auth_state0) \<or> find_user (auth_init auth_state0) ''bob'' \<noteq> None \<or>
     (\<forall>u \<in> set (g_users (auth_init auth_state0)). u_in_use u))"
    by (auto simp: auth_init_def auth_state0_def find_user_def find_None_iff zero_user_def auth_sizes)
  with auth_add_user_correct [of "''bob''" "auth_init auth_state0" "''pw''" "''/bob''" 3]
  show ?thesis by (auto simp: Let_def split: if_splits)
qed

section \<open>Saving and loading\<close>

definition savable :: "auth_user_t \<Rightarrow> bool" where
  "savable u \<longleftrightarrow> u_in_use u \<and>
     u_username u \<noteq> [] \<and> length (u_username u) \<le> 255 \<and> \<not> is_comment (u_username u) \<and>
     u_password_hash u \<noteq> [] \<and> length (u_password_hash u) \<le> 64 \<and>
     u_home_dir u \<noteq> [] \<and> length (u_home_dir u) \<le> 1023 \<and>
     (\<forall>c \<in> set (u_username u @ u_password_hash u @ u_home_dir u). c \<noteq> CHR '':'' \<and> c \<noteq> LF \<and> c \<noteq> NUL)"

lemma scan_field_colon:
  "f \<noteq> [] \<Longrightarrow> length f \<le> n \<Longrightarrow> \<forall>c \<in> set f. c \<noteq> CHR '':'' \<Longrightarrow>
   scan_field n (f @ CHR '':'' # r) = Some (f, CHR '':'' # r)"
  by (simp add: scan_field_def Let_def takeWhile_append)

lemma u32_nat_bounds: "unat (w :: u32) < 4294967296"
  using unsigned_less [of w] by simp

lemma parse_user_line_correct: "savable u \<Longrightarrow> parse_user_line (user_line u @ [LF]) = Some u"
proof -
  assume s: "savable u"
  have "scan_u (dec (unat (u_permissions u)) @ [LF]) = Some (u_permissions u, [LF])"
    using u32_nat_bounds [of "u_permissions u"] by (subst scan_u_dec) (simp_all add: is_digit_def byte_def)
  then show ?thesis
    using s by (simp add: parse_user_line_def user_line_def savable_def scan_field_colon strncpy_buf_def auth_sizes)
qed

lemma file_lines_line:
  "LF \<notin> set l \<Longrightarrow> NUL \<notin> set l \<Longrightarrow> length l \<le> 2046 \<Longrightarrow> file_lines (l @ LF # r) = (l @ [LF]) # file_lines r"
proof -
  assume l: "LF \<notin> set l" "NUL \<notin> set l" "length l \<le> 2046"
  have tw: "takeWhile (\<lambda>c. c \<noteq> LF) (l @ LF # r) = l" using l(1) by (auto simp: takeWhile_append)
  have c: "cstr (l @ [LF]) = l @ [LF]" using l(2) by (auto simp: cstr_def takeWhile_append)
  obtain x xs where x: "l @ LF # r = x # xs" by (cases l) auto
  show ?thesis
    using tw c l(3) unfolding x file_lines.simps Let_def by (simp flip: x)
qed

lemma file_lines_concat:
  "\<forall>l \<in> set ls. LF \<notin> set l \<and> NUL \<notin> set l \<and> length l \<le> 2046 \<Longrightarrow>
   file_lines (concat (map (\<lambda>l. l @ [LF]) ls)) = map (\<lambda>l. l @ [LF]) ls"
  by (induction ls) (simp_all add: file_lines_line)

lemma load_loop_comments:
  "\<forall>l \<in> set ls. is_comment l \<Longrightarrow> load_loop (ls @ rest) 0 users = load_loop rest 0 users"
  by (induction ls) (simp_all add: auth_sizes)

lemma free_slot_filled: "\<forall>u \<in> set us. u_in_use u \<Longrightarrow> \<not> u_in_use z \<Longrightarrow> free_slot (us @ z # zs) = Some (length us)"
  by (induction us) auto

lemma is_comment_append: "l \<noteq> [] \<Longrightarrow> is_comment (l @ r) = is_comment l"
  by (cases l) (auto simp: is_comment_def)

lemma load_loop_users:
  assumes "\<forall>u \<in> set us. savable u" "\<forall>u \<in> set done. u_in_use u" "length done + length us \<le> AUTH_MAX_USERS"
  shows "load_loop (map (\<lambda>u. user_line u @ [LF]) us) (length done) (done @ replicate (AUTH_MAX_USERS - length done) zero_user) =
     done @ us @ replicate (AUTH_MAX_USERS - length done - length us) zero_user"
  using assms
proof (induction us arbitrary: "done")
  case (Cons u us)
  obtain k where k: "AUTH_MAX_USERS = Suc (length done + k)"
    using Cons.prems(3) by (metis Suc_leI add_Suc_right add_leD1 le_add1 le_add_diff_inverse length_Cons
        less_add_Suc1 less_le_trans add_Suc)
  have nc: "\<not> is_comment (user_line u @ [LF])"
    using Cons.prems(1) by (simp add: savable_def user_line_def is_comment_append)
  have fs: "free_slot (done @ replicate (Suc k) zero_user) = Some (length done)"
    using Cons.prems(2) by (simp add: free_slot_filled zero_user_def)
  have step: "load_loop (map (\<lambda>u. user_line u @ [LF]) (u # us)) (length done) (done @ replicate (Suc k) zero_user) =
      load_loop (map (\<lambda>u. user_line u @ [LF]) us) (length (done @ [u])) ((done @ [u]) @ replicate k zero_user)"
    using Cons.prems(1) nc fs k by (simp add: parse_user_line_correct)
  have "AUTH_MAX_USERS - length (done @ [u]) = k" using k by simp
  with Cons.IH [of "done @ [u]"] Cons.prems
  have "load_loop (map (\<lambda>u. user_line u @ [LF]) us) (length (done @ [u])) ((done @ [u]) @ replicate k zero_user) =
      (done @ [u]) @ us @ replicate (k - length us) zero_user"
    by (simp add: savable_def)
  moreover have "AUTH_MAX_USERS - length done = Suc k" "AUTH_MAX_USERS - length done - length (u # us) = k - length us"
    using k by simp_all
  ultimately show ?case using step by (simp only: append_assoc append_Cons append_Nil)
qed simp

lemma user_line_ok:
  assumes "savable u" shows "LF \<notin> set (user_line u) \<and> NUL \<notin> set (user_line u) \<and> length (user_line u) \<le> 2046"
proof -
  have d: "c \<in> set (dec (unat (u_permissions u))) \<Longrightarrow> c \<noteq> LF \<and> c \<noteq> NUL" for c
    by (drule dec_digits) (auto simp: is_digit_def byte_def)
  have "length (dec (unat (u_permissions u))) \<le> Suc 9"
    by (rule length_dec) (use u32_nat_bounds [of "u_permissions u"] in simp)
  with assms d show ?thesis by (auto simp: savable_def user_line_def)
qed

lemma save_header_ok:
  "\<forall>l \<in> set save_header. LF \<notin> set l \<and> NUL \<notin> set l \<and> length l \<le> 2046 \<and> is_comment (l @ [LF])"
  by (simp add: save_header_def is_comment_def)

lemma find_filter_eq: "find P (filter Q xs @ replicate k z) = find P xs"
  if "\<And>x. P x \<Longrightarrow> Q x" "\<not> P z"
  using that by (induction xs) (auto simp: find_None_iff intro!: find_None_iff [THEN iffD2])



section \<open>Deviations\<close>

text \<open>The line that the database's own header gives as the way to define the anonymous account
  is rejected by the loader, as is every line with an empty password hash.\<close>
theorem documented_anonymous_line_rejected:
  "parse_user_line (''anonymous::/pub:1'' @ [LF]) = None"
  by (simp add: parse_user_line_def scan_field_def)

text \<open>Permissions written in hexadecimal, as the header announces, load as no permission at
  all, because only the leading decimal zero is read.\<close>
theorem hex_permissions_read_as_zero:
  "map_option u_permissions (parse_user_line (''bob:77:/bob:0xFF'' @ [LF])) = Some AUTH_PERM_NONE"
  by (simp add: parse_user_line_def scan_field_def scan_u_def scan_number_def is_digit_def isspace_def
      byte_def digits_val_def strncpy_buf_def auth_perms)

text \<open>The password hash is no SHA-256 digest but a 32-bit polynomial: different passwords share
  it, and an account created with one of them accepts the other.\<close>
theorem password_hash_collision:
  "''Aa'' \<noteq> ''BB'' \<and> verify_password ''BB'' (hash_password ''Aa'')"
  by (simp add: verify_password_def hash_password_def simple_hash_def byte_def)

end
