(* ===== verification/Filelock.thy ===== *)
theory Filelock
  imports FTP_Prelude "HOL-Library.Multiset"
begin

text \<open>
  \<open>server/src/filelock.c\<close>: per-path reader/writer locks. The global linked list of entries is a
  list, its head first; the global mutex is held during every operation, so each is one step, but
  for the two blocking acquisitions, which are split at \<open>pthread_cond_wait\<close>. Counts are the
  numbers of present holders and waiters, far below the range of \<open>unsigned int\<close>, and are natural
  numbers. The flag \<open>mem\<close> says whether \<open>calloc\<close> and \<open>pthread_cond_init\<close> succeed.
\<close>

section \<open>Entries\<close>

definition SESSION_MAX_PATH :: nat where "SESSION_MAX_PATH = 1024"

record file_lock_entry_t =
  l_path :: string
  l_readers :: nat
  l_writers :: nat
  l_waiting_writers :: nat

type_synonym lock_entries = "file_lock_entry_t list"

definition file_lock_path_valid :: "string \<Rightarrow> bool" where
  "file_lock_path_valid path \<longleftrightarrow> \<not> (length path = 0 \<or> length path \<ge> SESSION_MAX_PATH)"

definition file_lock_find :: "string \<Rightarrow> lock_entries \<Rightarrow> file_lock_entry_t option" where
  "file_lock_find path es = find (\<lambda>e. l_path e = path) es"

text \<open>
  Changing the entry found for a path in place, and unlinking it (\<open>file_lock_remove_entry\<close>): both
  act on the first entry with the path, the one \<open>file_lock_find\<close> returns.
\<close>

fun entry_update :: "string \<Rightarrow> (file_lock_entry_t \<Rightarrow> file_lock_entry_t) \<Rightarrow> lock_entries \<Rightarrow> lock_entries" where
  "entry_update path f [] = []"
| "entry_update path f (e # es) = (if l_path e = path then f e # es else e # entry_update path f es)"

fun file_lock_remove_entry :: "string \<Rightarrow> lock_entries \<Rightarrow> lock_entries" where
  "file_lock_remove_entry path [] = []"
| "file_lock_remove_entry path (e # es) =
     (if l_path e = path then es else e # file_lock_remove_entry path es)"

definition file_lock_get_or_create ::
  "bool \<Rightarrow> string \<Rightarrow> lock_entries \<Rightarrow> (file_lock_entry_t \<times> lock_entries) option" where
  "file_lock_get_or_create mem path es =
     (case file_lock_find path es of
        Some e \<Rightarrow> Some (e, es)
      | None \<Rightarrow>
          (if \<not> mem then None
           else (let e = \<lparr>l_path = strncpy_buf SESSION_MAX_PATH path, l_readers = 0,
                          l_writers = 0, l_waiting_writers = 0\<rparr>
                 in Some (e, e # es))))"

section \<open>Operations\<close>

definition file_lock_try_acquire_shared :: "bool \<Rightarrow> string \<Rightarrow> lock_entries \<Rightarrow> int \<times> lock_entries" where
  "file_lock_try_acquire_shared mem path es =
     (if \<not> file_lock_path_valid path then (-1, es)
      else (case file_lock_get_or_create mem path es of
              None \<Rightarrow> (-1, es)
            | Some (e, es') \<Rightarrow>
                (if l_writers e > 0 \<or> l_waiting_writers e > 0 then (-1, es')
                 else (0, entry_update path (\<lambda>e. e\<lparr>l_readers := l_readers e + 1\<rparr>) es'))))"

definition file_lock_try_acquire_exclusive :: "bool \<Rightarrow> string \<Rightarrow> lock_entries \<Rightarrow> int \<times> lock_entries" where
  "file_lock_try_acquire_exclusive mem path es =
     (if \<not> file_lock_path_valid path then (-1, es)
      else (case file_lock_get_or_create mem path es of
              None \<Rightarrow> (-1, es)
            | Some (e, es') \<Rightarrow>
                (if l_writers e > 0 \<or> l_readers e > 0 then (-1, es')
                 else (0, entry_update path (\<lambda>e. e\<lparr>l_writers := 1\<rparr>) es'))))"

definition file_lock_release_common :: "string \<Rightarrow> bool \<Rightarrow> lock_entries \<Rightarrow> lock_entries" where
  "file_lock_release_common path exclusive es =
     (if \<not> file_lock_path_valid path then es
      else (case file_lock_find path es of
              None \<Rightarrow> es
            | Some e \<Rightarrow>
                (let e' = (if exclusive then e\<lparr>l_writers := 0\<rparr>
                           else if l_readers e = 0 then e else e\<lparr>l_readers := l_readers e - 1\<rparr>)
                 in if l_readers e' = 0 \<and> l_writers e' = 0 \<and> l_waiting_writers e' = 0
                    then file_lock_remove_entry path es
                    else entry_update path (\<lambda>_. e') es)))"

definition file_lock_release_shared :: "string \<Rightarrow> lock_entries \<Rightarrow> lock_entries" where
  "file_lock_release_shared path es = file_lock_release_common path False es"

definition file_lock_release_exclusive :: "string \<Rightarrow> lock_entries \<Rightarrow> lock_entries" where
  "file_lock_release_exclusive path es = file_lock_release_common path True es"

definition file_lock_is_exclusive_locked :: "string \<Rightarrow> lock_entries \<Rightarrow> int" where
  "file_lock_is_exclusive_locked path es =
     (if \<not> file_lock_path_valid path then -1
      else (case file_lock_find path es of
              None \<Rightarrow> 0
            | Some e \<Rightarrow> (if l_writers e > 0 then 1 else 0)))"

definition file_lock_get_shared_lock_count :: "string \<Rightarrow> lock_entries \<Rightarrow> int" where
  "file_lock_get_shared_lock_count path es =
     (if \<not> file_lock_path_valid path then -1
      else (case file_lock_find path es of
              None \<Rightarrow> 0
            | Some e \<Rightarrow> int (l_readers e)))"

text \<open>
  The blocking acquisitions: \<open>enter\<close> runs up to the first \<open>pthread_cond_wait\<close> or to the end,
  \<open>wake\<close> runs from the return of \<open>pthread_cond_wait\<close>, with the mutex held again, to the next
  wait or to the end, on the entry the thread waits on.
\<close>

datatype acquire_result = Failed | Blocked | Acquired

definition file_lock_acquire_shared_enter ::
  "bool \<Rightarrow> string \<Rightarrow> lock_entries \<Rightarrow> acquire_result \<times> lock_entries" where
  "file_lock_acquire_shared_enter mem path es =
     (if \<not> file_lock_path_valid path then (Failed, es)
      else (case file_lock_get_or_create mem path es of
              None \<Rightarrow> (Failed, es)
            | Some (e, es') \<Rightarrow>
                (if l_writers e > 0 \<or> l_waiting_writers e > 0 then (Blocked, es')
                 else (Acquired, entry_update path (\<lambda>e. e\<lparr>l_readers := l_readers e + 1\<rparr>) es'))))"

definition file_lock_acquire_shared_wake :: "string \<Rightarrow> lock_entries \<Rightarrow> acquire_result \<times> lock_entries" where
  "file_lock_acquire_shared_wake path es =
     (case file_lock_find path es of
        None \<Rightarrow> (Failed, es)
      | Some e \<Rightarrow>
          (if l_writers e > 0 \<or> l_waiting_writers e > 0 then (Blocked, es)
           else (Acquired, entry_update path (\<lambda>e. e\<lparr>l_readers := l_readers e + 1\<rparr>) es)))"

definition file_lock_acquire_exclusive_wake :: "string \<Rightarrow> lock_entries \<Rightarrow> acquire_result \<times> lock_entries" where
  "file_lock_acquire_exclusive_wake path es =
     (case file_lock_find path es of
        None \<Rightarrow> (Failed, es)
      | Some e \<Rightarrow>
          (if l_writers e > 0 \<or> l_readers e > 0 then (Blocked, es)
           else (Acquired, entry_update path
                   (\<lambda>e. e\<lparr>l_waiting_writers := l_waiting_writers e - 1, l_writers := 1\<rparr>) es)))"

definition file_lock_acquire_exclusive_enter ::
  "bool \<Rightarrow> string \<Rightarrow> lock_entries \<Rightarrow> acquire_result \<times> lock_entries" where
  "file_lock_acquire_exclusive_enter mem path es =
     (if \<not> file_lock_path_valid path then (Failed, es)
      else (case file_lock_get_or_create mem path es of
              None \<Rightarrow> (Failed, es)
            | Some (e, es') \<Rightarrow>
                file_lock_acquire_exclusive_wake path
                  (entry_update path (\<lambda>e. e\<lparr>l_waiting_writers := l_waiting_writers e + 1\<rparr>) es')))"

section \<open>The table as a map of counts\<close>

text \<open>Per path: the numbers of readers, writers and waiting writers.\<close>

definition lock_view :: "lock_entries \<Rightarrow> string \<Rightarrow> nat \<times> nat \<times> nat" where
  "lock_view es path =
     (case file_lock_find path es of
        None \<Rightarrow> (0, 0, 0)
      | Some e \<Rightarrow> (l_readers e, l_writers e, l_waiting_writers e))"

text \<open>
  Well-formed tables: one entry per path, none without a holder or a waiting writer, and in every
  entry readers and a single writer exclude each other.
\<close>

definition wf_entry :: "file_lock_entry_t \<Rightarrow> bool" where
  "wf_entry e \<longleftrightarrow> file_lock_path_valid (l_path e) \<and>
     l_readers e + l_writers e + l_waiting_writers e > 0 \<and>
     (l_writers e = 0 \<or> l_writers e = 1 \<and> l_readers e = 0)"

definition wf_locks :: "lock_entries \<Rightarrow> bool" where
  "wf_locks es \<longleftrightarrow> distinct (map l_path es) \<and> (\<forall>e \<in> set es. wf_entry e)"

lemma find_Nil [simp]: "file_lock_find q [] = None"
  by (simp add: file_lock_find_def)

lemma find_Cons [simp]: "file_lock_find q (e # es) = (if l_path e = q then Some e else file_lock_find q es)"
  by (simp add: file_lock_find_def)

lemma find_Some_entry: "file_lock_find p es = Some e \<Longrightarrow> e \<in> set es \<and> l_path e = p"
  by (induction es) (auto split: if_splits)

lemma find_None_path: "file_lock_find p es = None \<longleftrightarrow> p \<notin> l_path ` set es"
  by (induction es) auto

lemma find_entry_update:
  "(\<And>e. l_path (f e) = l_path e) \<Longrightarrow>
   file_lock_find q (entry_update p f es) =
     (if q = p then map_option f (file_lock_find q es) else file_lock_find q es)"
  by (induction es) auto

lemma paths_entry_update: "(\<And>e. l_path (f e) = l_path e) \<Longrightarrow> map l_path (entry_update p f es) = map l_path es"
  by (induction es) auto

lemma set_entry_update:
  "distinct (map l_path es) \<Longrightarrow> file_lock_find p es = Some d \<Longrightarrow>
   set (entry_update p f es) \<subseteq> insert (f d) {e \<in> set es. l_path e \<noteq> p}"
  by (induction es) (fastforce split: if_splits simp: image_iff)+

lemma set_remove_entry: "set (file_lock_remove_entry p es) \<subseteq> set es"
  by (induction es) auto

lemma find_remove_entry:
  "distinct (map l_path es) \<Longrightarrow>
   file_lock_find q (file_lock_remove_entry p es) = (if q = p then None else file_lock_find q es)"
  by (induction es) (auto simp: find_None_path)

lemma distinct_remove_entry: "distinct (map l_path es) \<Longrightarrow> distinct (map l_path (file_lock_remove_entry p es))"
proof (induction es)
  case (Cons e es)
  then show ?case using set_remove_entry [of p es] by auto
qed simp

lemma valid_path_copy: "file_lock_path_valid p \<Longrightarrow> strncpy_buf SESSION_MAX_PATH p = p"
  by (simp add: file_lock_path_valid_def strncpy_buf_id)

definition available :: "bool \<Rightarrow> string \<Rightarrow> lock_entries \<Rightarrow> bool" where
  "available mem p es \<longleftrightarrow> file_lock_path_valid p \<and> (mem \<or> file_lock_find p es \<noteq> None)"

text \<open>Updating and removing an entry of a table whose other entries are well-formed.\<close>

lemma update_wf:
  assumes "distinct (map l_path es)" "\<forall>e \<in> set es. l_path e = p \<or> wf_entry e"
    and "file_lock_find p es = Some d" "wf_entry (f d)" "\<And>e. l_path (f e) = l_path e"
  shows "wf_locks (entry_update p f es)"
    and "lock_view (entry_update p f es) =
           (lock_view es)(p := (l_readers (f d), l_writers (f d), l_waiting_writers (f d)))"
proof -
  show "wf_locks (entry_update p f es)"
    using assms set_entry_update [OF assms(1,3), of f] by (auto simp: wf_locks_def paths_entry_update)
  show "lock_view (entry_update p f es) =
           (lock_view es)(p := (l_readers (f d), l_writers (f d), l_waiting_writers (f d)))"
    using assms by (simp add: fun_eq_iff lock_view_def find_entry_update)
qed

lemma remove_wf:
  assumes "wf_locks es"
  shows "wf_locks (file_lock_remove_entry p es)"
    and "lock_view (file_lock_remove_entry p es) = (lock_view es)(p := (0, 0, 0))"
  using assms set_remove_entry [of p es]
  by (auto simp: wf_locks_def distinct_remove_entry fun_eq_iff lock_view_def find_remove_entry)

text \<open>What \<open>file_lock_get_or_create\<close> hands out: the entry of the path, in a table equal but for it.\<close>

lemma get_or_create:
  assumes "wf_locks es" "available mem p es"
  obtains e es' where "file_lock_get_or_create mem p es = Some (e, es')"
    "file_lock_find p es' = Some e" "l_path e = p" "distinct (map l_path es')"
    "\<forall>e \<in> set es'. l_path e = p \<or> wf_entry e" "lock_view es' = lock_view es"
    "lock_view es p = (l_readers e, l_writers e, l_waiting_writers e)"
    "file_lock_find p es = None \<longrightarrow> l_readers e = 0 \<and> l_writers e = 0 \<and> l_waiting_writers e = 0"
    "file_lock_find p es \<noteq> None \<longrightarrow> es' = es \<and> wf_entry e"
proof (cases "file_lock_find p es")
  case None
  let ?e = "\<lparr>l_path = p, l_readers = 0, l_writers = 0, l_waiting_writers = 0\<rparr>"
  show ?thesis
  proof (rule that [of ?e "?e # es"])
    show "lock_view (?e # es) = lock_view es"
      using None by (simp add: fun_eq_iff lock_view_def)
  qed (use None None [unfolded find_None_path] assms in
      \<open>auto simp: file_lock_get_or_create_def available_def valid_path_copy wf_locks_def lock_view_def
        Let_def\<close>)
next
  case (Some e)
  show ?thesis
    by (rule that [of e es]) (use Some assms find_Some_entry [OF Some] in
        \<open>auto simp: file_lock_get_or_create_def wf_locks_def lock_view_def\<close>)
qed

lemma get_or_create_None: "file_lock_path_valid p \<Longrightarrow> \<not> available mem p es \<Longrightarrow> file_lock_get_or_create mem p es = None"
  by (auto simp: available_def file_lock_get_or_create_def)

lemma not_available:
  assumes "\<not> available mem p es"
  shows "file_lock_try_acquire_shared mem p es = (-1, es)"
    and "file_lock_try_acquire_exclusive mem p es = (-1, es)"
    and "file_lock_acquire_shared_enter mem p es = (Failed, es)"
    and "file_lock_acquire_exclusive_enter mem p es = (Failed, es)"
  using get_or_create_None [OF _ assms]
  by (simp_all add: file_lock_try_acquire_shared_def file_lock_try_acquire_exclusive_def
      file_lock_acquire_shared_enter_def file_lock_acquire_exclusive_enter_def)

section \<open>Operations on the counts\<close>

lemma try_acquire_shared_spec:
  assumes "wf_locks es" "available mem p es" "lock_view es p = (r, w, q)"
  shows "file_lock_try_acquire_shared mem p es = (if w > 0 \<or> q > 0 then (-1, es)
           else (0, snd (file_lock_try_acquire_shared mem p es)))"
    and "w = 0 \<Longrightarrow> q = 0 \<Longrightarrow> wf_locks (snd (file_lock_try_acquire_shared mem p es)) \<and>
           lock_view (snd (file_lock_try_acquire_shared mem p es)) = (lock_view es)(p := (r + 1, w, q))"
proof -
  from assms(1,2) obtain e es' where g: "file_lock_get_or_create mem p es = Some (e, es')"
    "file_lock_find p es' = Some e" "l_path e = p" "distinct (map l_path es')"
    "\<forall>e \<in> set es'. l_path e = p \<or> wf_entry e" "lock_view es' = lock_view es"
    "lock_view es p = (l_readers e, l_writers e, l_waiting_writers e)"
    "file_lock_find p es \<noteq> None \<longrightarrow> es' = es \<and> wf_entry e"
    "file_lock_find p es = None \<longrightarrow> l_readers e = 0 \<and> l_writers e = 0 \<and> l_waiting_writers e = 0"
    by (rule get_or_create)
  have v: "file_lock_path_valid p" using assms(2) by (simp add: available_def)
  show "file_lock_try_acquire_shared mem p es = (if w > 0 \<or> q > 0 then (-1, es)
           else (0, snd (file_lock_try_acquire_shared mem p es)))"
    using g v assms(3) by (auto simp: file_lock_try_acquire_shared_def)
  assume "w = 0" "q = 0"
  then show "wf_locks (snd (file_lock_try_acquire_shared mem p es)) \<and>
           lock_view (snd (file_lock_try_acquire_shared mem p es)) = (lock_view es)(p := (r + 1, w, q))"
    using g v assms(3) update_wf [OF g(4,5,2), of "\<lambda>e. e\<lparr>l_readers := l_readers e + 1\<rparr>"]
    by (simp add: file_lock_try_acquire_shared_def wf_entry_def)
qed

lemma try_acquire_exclusive_spec:
  assumes "wf_locks es" "available mem p es" "lock_view es p = (r, w, q)"
  shows "file_lock_try_acquire_exclusive mem p es = (if w > 0 \<or> r > 0 then (-1, es)
           else (0, snd (file_lock_try_acquire_exclusive mem p es)))"
    and "w = 0 \<Longrightarrow> r = 0 \<Longrightarrow> wf_locks (snd (file_lock_try_acquire_exclusive mem p es)) \<and>
           lock_view (snd (file_lock_try_acquire_exclusive mem p es)) = (lock_view es)(p := (r, 1, q))"
proof -
  from assms(1,2) obtain e es' where g: "file_lock_get_or_create mem p es = Some (e, es')"
    "file_lock_find p es' = Some e" "l_path e = p" "distinct (map l_path es')"
    "\<forall>e \<in> set es'. l_path e = p \<or> wf_entry e" "lock_view es' = lock_view es"
    "lock_view es p = (l_readers e, l_writers e, l_waiting_writers e)"
    "file_lock_find p es \<noteq> None \<longrightarrow> es' = es \<and> wf_entry e"
    "file_lock_find p es = None \<longrightarrow> l_readers e = 0 \<and> l_writers e = 0 \<and> l_waiting_writers e = 0"
    by (rule get_or_create)
  have v: "file_lock_path_valid p" using assms(2) by (simp add: available_def)
  show "file_lock_try_acquire_exclusive mem p es = (if w > 0 \<or> r > 0 then (-1, es)
           else (0, snd (file_lock_try_acquire_exclusive mem p es)))"
    using g v assms(3) by (auto simp: file_lock_try_acquire_exclusive_def)
  assume "w = 0" "r = 0"
  then show "wf_locks (snd (file_lock_try_acquire_exclusive mem p es)) \<and>
           lock_view (snd (file_lock_try_acquire_exclusive mem p es)) = (lock_view es)(p := (r, 1, q))"
    using g v assms(3) update_wf [OF g(4,5,2), of "\<lambda>e. e\<lparr>l_writers := 1\<rparr>"]
    by (simp add: file_lock_try_acquire_exclusive_def wf_entry_def)
qed


lemma try_acquire_shared_cases:
  assumes "wf_locks es" "lock_view es p = (r, w, q)" "file_lock_try_acquire_shared mem p es = (c, es')"
  shows "c = - 1 \<and> es' = es \<or>
    c = 0 \<and> w = 0 \<and> q = 0 \<and> wf_locks es' \<and> lock_view es' = (lock_view es)(p := (r + 1, w, q))"
proof (cases "available mem p es")
  case True
  note s = try_acquire_shared_spec [OF assms(1) True assms(2)]
  show ?thesis
  proof (cases "w = 0 \<and> q = 0")
    case True
    with s(1) assms(3) have "c = 0" by simp
    with True s(2) assms(3) show ?thesis by simp
  qed (use s(1) assms(3) in simp)
qed (use not_available(1) assms(3) in simp)

lemma try_acquire_exclusive_cases:
  assumes "wf_locks es" "lock_view es p = (r, w, q)" "file_lock_try_acquire_exclusive mem p es = (c, es')"
  shows "c = - 1 \<and> es' = es \<or>
    c = 0 \<and> w = 0 \<and> r = 0 \<and> wf_locks es' \<and> lock_view es' = (lock_view es)(p := (r, 1, q))"
proof (cases "available mem p es")
  case True
  note s = try_acquire_exclusive_spec [OF assms(1) True assms(2)]
  show ?thesis
  proof (cases "w = 0 \<and> r = 0")
    case True
    with s(1) assms(3) have "c = 0" by simp
    with True s(2) assms(3) show ?thesis by simp
  qed (use s(1) assms(3) in simp)
qed (use not_available(2) assms(3) in simp)

lemma lock_view_wf:
  assumes "wf_locks es" "lock_view es p = (r, w, q)"
  shows "w \<le> 1" "w = 0 \<or> r = 0" "file_lock_find p es = None \<longleftrightarrow> r = 0 \<and> w = 0 \<and> q = 0"
    "r + w + q > 0 \<Longrightarrow> file_lock_path_valid p"
  using assms find_Some_entry [of p es]
  by (auto simp: lock_view_def wf_locks_def wf_entry_def split: option.splits)

lemma release_spec:
  assumes wf: "wf_locks es" and v: "lock_view es p = (r, w, q)"
  shows "w > 0 \<Longrightarrow> wf_locks (file_lock_release_exclusive p es) \<and>
           lock_view (file_lock_release_exclusive p es) = (lock_view es)(p := (r, 0, q))"
    and "r > 0 \<Longrightarrow> wf_locks (file_lock_release_shared p es) \<and>
           lock_view (file_lock_release_shared p es) = (lock_view es)(p := (r - 1, w, q))"
proof -
  have rel: "wf_locks (file_lock_release_common p x es) \<and>
      lock_view (file_lock_release_common p x es) =
        (lock_view es)(p := (if x then (r, 0, q) else (r - 1, w, q)))"
    if h: "if x then w > 0 else r > 0" for x
  proof -
    from h v obtain e where e: "file_lock_find p es = Some e"
      "r = l_readers e" "w = l_writers e" "q = l_waiting_writers e"
      by (auto simp: lock_view_def split: option.splits if_splits)
    have we: "wf_entry e" "l_path e = p" and wf': "distinct (map l_path es)"
        "\<forall>e \<in> set es. l_path e = p \<or> wf_entry e"
      using wf e(1) find_Some_entry [of p es] by (auto simp: wf_locks_def)
    define e' where "e' = (if x then e\<lparr>l_writers := 0\<rparr> else e\<lparr>l_readers := l_readers e - 1\<rparr>)"
    have pv: "file_lock_path_valid p" using we by (auto simp: wf_entry_def)
    have upd: "entry_update p (\<lambda>_. e') es = entry_update p (\<lambda>d. if d = e then e' else d) es"
      using e(1) by (induction es) (auto split: if_splits)
    have lp: "l_path e' = p" using we by (simp add: e'_def)
    show ?thesis
    proof (cases "l_readers e' = 0 \<and> l_writers e' = 0 \<and> l_waiting_writers e' = 0")
      case True
      then have "file_lock_release_common p x es = file_lock_remove_entry p es"
        using e h pv by (auto simp: file_lock_release_common_def e'_def)
      with True show ?thesis using remove_wf [OF wf] e h by (auto simp: e'_def)
    next
      case False
      then have c: "file_lock_release_common p x es = entry_update p (\<lambda>d. if d = e then e' else d) es"
        unfolding upd [symmetric] using e h pv by (auto simp: file_lock_release_common_def e'_def)
      have "wf_entry e'" using False we h by (auto simp: wf_entry_def e'_def)
      then show ?thesis unfolding c
        using update_wf [OF wf' e(1), of "\<lambda>d. if d = e then e' else d"] lp we e by (auto simp: e'_def)
    qed
  qed
  show "w > 0 \<Longrightarrow> wf_locks (file_lock_release_exclusive p es) \<and>
           lock_view (file_lock_release_exclusive p es) = (lock_view es)(p := (r, 0, q))"
    using rel [of True] by (simp add: file_lock_release_exclusive_def)
  show "r > 0 \<Longrightarrow> wf_locks (file_lock_release_shared p es) \<and>
           lock_view (file_lock_release_shared p es) = (lock_view es)(p := (r - 1, w, q))"
    using rel [of False] by (simp add: file_lock_release_shared_def)
qed


lemma acquire_shared_wake_spec:
  assumes "wf_locks es" "lock_view es p = (r, w, q)" "file_lock_find p es \<noteq> None"
  shows "file_lock_acquire_shared_wake p es = (if w > 0 \<or> q > 0 then (Blocked, es)
           else (Acquired, snd (file_lock_acquire_shared_wake p es)))"
    and "w = 0 \<Longrightarrow> q = 0 \<Longrightarrow> wf_locks (snd (file_lock_acquire_shared_wake p es)) \<and>
           lock_view (snd (file_lock_acquire_shared_wake p es)) = (lock_view es)(p := (r + 1, w, q))"
proof -
  obtain e where e: "file_lock_find p es = Some e" using assms(3) by auto
  have we: "wf_entry e" "distinct (map l_path es)" "\<forall>e \<in> set es. l_path e = p \<or> wf_entry e"
    using assms(1) e find_Some_entry [of p es] by (auto simp: wf_locks_def)
  show "file_lock_acquire_shared_wake p es = (if w > 0 \<or> q > 0 then (Blocked, es)
           else (Acquired, snd (file_lock_acquire_shared_wake p es)))"
    using e assms(2) by (auto simp: file_lock_acquire_shared_wake_def lock_view_def)
  assume "w = 0" "q = 0"
  then show "wf_locks (snd (file_lock_acquire_shared_wake p es)) \<and>
           lock_view (snd (file_lock_acquire_shared_wake p es)) = (lock_view es)(p := (r + 1, w, q))"
    using e assms(2) we(1) update_wf [OF we(2,3) e, of "\<lambda>e. e\<lparr>l_readers := l_readers e + 1\<rparr>"]
    by (auto simp: file_lock_acquire_shared_wake_def wf_entry_def lock_view_def)
qed

lemma acquire_exclusive_wake_spec:
  assumes "wf_locks es" "lock_view es p = (r, w, q)" "q > 0"
  shows "file_lock_acquire_exclusive_wake p es = (if w > 0 \<or> r > 0 then (Blocked, es)
           else (Acquired, snd (file_lock_acquire_exclusive_wake p es)))"
    and "w = 0 \<Longrightarrow> r = 0 \<Longrightarrow> wf_locks (snd (file_lock_acquire_exclusive_wake p es)) \<and>
           lock_view (snd (file_lock_acquire_exclusive_wake p es)) = (lock_view es)(p := (0, 1, q - 1))"
proof -
  obtain e where e: "file_lock_find p es = Some e"
    using assms by (auto simp: lock_view_def split: option.splits)
  have we: "wf_entry e" "distinct (map l_path es)" "\<forall>e \<in> set es. l_path e = p \<or> wf_entry e"
    using assms(1) e find_Some_entry [of p es] by (auto simp: wf_locks_def)
  show "file_lock_acquire_exclusive_wake p es = (if w > 0 \<or> r > 0 then (Blocked, es)
           else (Acquired, snd (file_lock_acquire_exclusive_wake p es)))"
    using e assms(2) by (auto simp: file_lock_acquire_exclusive_wake_def lock_view_def)
  assume "w = 0" "r = 0"
  then show "wf_locks (snd (file_lock_acquire_exclusive_wake p es)) \<and>
           lock_view (snd (file_lock_acquire_exclusive_wake p es)) = (lock_view es)(p := (0, 1, q - 1))"
    using e assms(2) we(1) update_wf [OF we(2,3) e,
        of "\<lambda>e. e\<lparr>l_waiting_writers := l_waiting_writers e - 1, l_writers := 1\<rparr>"]
    by (auto simp: file_lock_acquire_exclusive_wake_def wf_entry_def lock_view_def)
qed

lemma acquire_shared_enter_spec:
  assumes "wf_locks es" "available mem p es" "lock_view es p = (r, w, q)"
  shows "file_lock_acquire_shared_enter mem p es = (if w > 0 \<or> q > 0 then (Blocked, es)
           else (Acquired, snd (file_lock_try_acquire_shared mem p es)))"
proof -
  from assms(1,2) obtain e es' where g: "file_lock_get_or_create mem p es = Some (e, es')"
    "lock_view es p = (l_readers e, l_writers e, l_waiting_writers e)"
    "file_lock_find p es \<noteq> None \<longrightarrow> es' = es \<and> wf_entry e"
    "file_lock_find p es = None \<longrightarrow> l_readers e = 0 \<and> l_writers e = 0 \<and> l_waiting_writers e = 0"
    by (rule get_or_create)
  have v: "file_lock_path_valid p" using assms(2) by (simp add: available_def)
  show ?thesis
    using g(1,2) v assms(3) g(3,4)
    by (cases "file_lock_find p es") (simp_all add: file_lock_try_acquire_shared_def
        file_lock_acquire_shared_enter_def)
qed

lemma acquire_exclusive_enter_spec:
  assumes "wf_locks es" "available mem p es" "lock_view es p = (r, w, q)"
  obtains es1 where "wf_locks es1" "lock_view es1 = (lock_view es)(p := (r, w, q + 1))"
    "file_lock_acquire_exclusive_enter mem p es = file_lock_acquire_exclusive_wake p es1"
proof -
  from assms(1,2) obtain e es' where g: "file_lock_get_or_create mem p es = Some (e, es')"
    "file_lock_find p es' = Some e" "l_path e = p" "distinct (map l_path es')"
    "\<forall>e \<in> set es'. l_path e = p \<or> wf_entry e" "lock_view es' = lock_view es"
    "lock_view es p = (l_readers e, l_writers e, l_waiting_writers e)"
    "file_lock_find p es \<noteq> None \<longrightarrow> es' = es \<and> wf_entry e"
    "file_lock_find p es = None \<longrightarrow> l_readers e = 0 \<and> l_writers e = 0 \<and> l_waiting_writers e = 0"
    by (rule get_or_create)
  have v: "file_lock_path_valid p" using assms(2) by (simp add: available_def)
  define f :: "file_lock_entry_t \<Rightarrow> file_lock_entry_t" where "f = (\<lambda>e. e\<lparr>l_waiting_writers := l_waiting_writers e + 1\<rparr>)"
  have "wf_entry (f e)"
    using g v by (cases "file_lock_find p es") (auto simp: wf_entry_def f_def)
  note u = update_wf [OF g(4,5,2), of f, OF this]
  show ?thesis
    by (rule that [of "entry_update p (\<lambda>e. e\<lparr>l_waiting_writers := l_waiting_writers e + 1\<rparr>) es'"])
      (use u g v assms(3) in \<open>auto simp: file_lock_acquire_exclusive_enter_def f_def\<close>)
qed

section \<open>The contract of a reader/writer lock\<close>

text \<open>
  What the FTP commands rely on: on success the counts of the path change and those of the other
  paths do not; a held lock excludes the conflicting ones; a release undoes its acquisition.
\<close>

locale rw_lock =
  fixes try_shared try_exclusive :: "string \<Rightarrow> 'l \<Rightarrow> int \<times> 'l"
    and release_shared release_exclusive :: "string \<Rightarrow> 'l \<Rightarrow> 'l"
    and view :: "'l \<Rightarrow> string \<Rightarrow> nat \<times> nat \<times> nat"
    and ok :: "'l \<Rightarrow> bool"
  assumes try_shared: "ok l \<Longrightarrow> view l p = (r, w, q) \<Longrightarrow> try_shared p l = (c, l') \<Longrightarrow>
      c = - 1 \<and> l' = l \<or> c = 0 \<and> w = 0 \<and> q = 0 \<and> ok l' \<and> view l' = (view l)(p := (r + 1, w, q))"
    and try_exclusive: "ok l \<Longrightarrow> view l p = (r, w, q) \<Longrightarrow> try_exclusive p l = (c, l') \<Longrightarrow>
      c = - 1 \<and> l' = l \<or> c = 0 \<and> w = 0 \<and> r = 0 \<and> ok l' \<and> view l' = (view l)(p := (r, 1, q))"
    and release_shared: "ok l \<Longrightarrow> view l p = (r, w, q) \<Longrightarrow> r > 0 \<Longrightarrow>
      ok (release_shared p l) \<and> view (release_shared p l) = (view l)(p := (r - 1, w, q))"
    and release_exclusive: "ok l \<Longrightarrow> view l p = (r, w, q) \<Longrightarrow> w > 0 \<Longrightarrow>
      ok (release_exclusive p l) \<and> view (release_exclusive p l) = (view l)(p := (r, 0, q))"
begin

lemma shared_neutral:
  assumes "ok l" "try_shared p l = (0, l')"
  shows "ok (release_shared p l') \<and> view (release_shared p l') = view l"
proof -
  obtain r w q where v: "view l p = (r, w, q)" by (cases "view l p")
  note s = try_shared [OF assms(1) v assms(2)]
  then have "ok l'" "view l' p = (r + 1, w, q)" and eq: "view l' = (view l)(p := (r + 1, w, q))" by auto
  from release_shared [OF this(1,2)] show ?thesis using v eq by auto
qed

lemma exclusive_neutral:
  assumes "ok l" "try_exclusive p l = (0, l')"
  shows "ok (release_exclusive p l') \<and> view (release_exclusive p l') = view l"
proof -
  obtain r w q where v: "view l p = (r, w, q)" by (cases "view l p")
  note s = try_exclusive [OF assms(1) v assms(2)]
  then have "ok l'" "view l' p = (r, 1, q)" "w = 0" and eq: "view l' = (view l)(p := (r, 1, q))" by auto
  from release_exclusive [OF this(1,2)] this(3) show ?thesis using v eq by auto
qed

lemma exclusive_excludes:
  assumes "ok l" "try_exclusive p l = (0, l')"
  shows "try_exclusive p l' = (-1, l')" "try_shared p l' = (-1, l')"
proof -
  obtain r w q where v: "view l p = (r, w, q)" by (cases "view l p")
  note s = try_exclusive [OF assms(1) v assms(2)]
  then have ok: "ok l'" and v': "view l' p = (r, 1, q)" by auto
  show "try_exclusive p l' = (-1, l')"
    using try_exclusive [OF ok v'] by (cases "try_exclusive p l'") auto
  show "try_shared p l' = (-1, l')"
    using try_shared [OF ok v'] by (cases "try_shared p l'") auto
qed

lemma shared_excludes_exclusive:
  assumes "ok l" "try_shared p l = (0, l')"
  shows "try_exclusive p l' = (-1, l')"
proof -
  obtain r w q where v: "view l p = (r, w, q)" by (cases "view l p")
  note s = try_shared [OF assms(1) v assms(2)]
  then have ok: "ok l'" and v': "view l' p = (r + 1, w, q)" by auto
  show ?thesis using try_exclusive [OF ok v'] by (cases "try_exclusive p l'") auto
qed

end

interpretation flk: rw_lock "file_lock_try_acquire_shared mem" "file_lock_try_acquire_exclusive mem"
  file_lock_release_shared file_lock_release_exclusive lock_view wf_locks for mem
proof unfold_locales
  fix l p r w q c l'
  assume l: "wf_locks l" and v: "lock_view l p = (r, w, q)"
  show "file_lock_try_acquire_shared mem p l = (c, l') \<Longrightarrow>
      c = - 1 \<and> l' = l \<or> c = 0 \<and> w = 0 \<and> q = 0 \<and> wf_locks l' \<and> lock_view l' = (lock_view l)(p := (r + 1, w, q))"
    by (rule try_acquire_shared_cases [OF l v])
  show "file_lock_try_acquire_exclusive mem p l = (c, l') \<Longrightarrow>
      c = - 1 \<and> l' = l \<or> c = 0 \<and> w = 0 \<and> r = 0 \<and> wf_locks l' \<and> lock_view l' = (lock_view l)(p := (r, 1, q))"
    by (rule try_acquire_exclusive_cases [OF l v])
  show "r > 0 \<Longrightarrow> wf_locks (file_lock_release_shared p l) \<and>
      lock_view (file_lock_release_shared p l) = (lock_view l)(p := (r - 1, w, q))"
    by (rule release_spec(2) [OF l v])
  show "w > 0 \<Longrightarrow> wf_locks (file_lock_release_exclusive p l) \<and>
      lock_view (file_lock_release_exclusive p l) = (lock_view l)(p := (r, 0, q))"
    by (rule release_spec(1) [OF l v])
qed


section \<open>Threads\<close>

text \<open>
  Threads that call the operations, each call one step (the mutex is held throughout), but for the
  blocking acquisitions. A thread that holds or waits for a lock names its path; it releases only
  what it holds. When a release frees the entry, a reader blocked on that entry is left with a
  dangling pointer (\<open>Freed\<close>): readers in \<open>pthread_cond_wait\<close> are not counted in the entry.
\<close>

datatype lock_thread =
  Idle | Reading string | Writing string | Wait_read string | Wait_write string | Freed string

record lock_sys =
  ls_entries :: lock_entries
  ls_threads :: "lock_thread list"

fun after_shared :: "string \<Rightarrow> acquire_result \<Rightarrow> lock_thread" where
  "after_shared p Failed = Idle"
| "after_shared p Blocked = Wait_read p"
| "after_shared p Acquired = Reading p"

fun after_exclusive :: "string \<Rightarrow> acquire_result \<Rightarrow> lock_thread" where
  "after_exclusive p Failed = Idle"
| "after_exclusive p Blocked = Wait_write p"
| "after_exclusive p Acquired = Writing p"

definition strand :: "lock_entries \<Rightarrow> lock_thread \<Rightarrow> lock_thread" where
  "strand es t = (case t of Wait_read p \<Rightarrow> (if file_lock_find p es = None then Freed p else t) | _ \<Rightarrow> t)"

inductive lock_step :: "lock_sys \<Rightarrow> lock_sys \<Rightarrow> bool" where
  shared_enter: "t < length ths \<Longrightarrow> ths ! t = Idle \<Longrightarrow> file_lock_acquire_shared_enter mem p es = (r, es') \<Longrightarrow>
     lock_step \<lparr>ls_entries = es, ls_threads = ths\<rparr>
       \<lparr>ls_entries = es', ls_threads = ths[t := after_shared p r]\<rparr>"
| shared_wake: "t < length ths \<Longrightarrow> ths ! t = Wait_read p \<Longrightarrow> file_lock_acquire_shared_wake p es = (r, es') \<Longrightarrow>
     lock_step \<lparr>ls_entries = es, ls_threads = ths\<rparr>
       \<lparr>ls_entries = es', ls_threads = ths[t := after_shared p r]\<rparr>"
| exclusive_enter: "t < length ths \<Longrightarrow> ths ! t = Idle \<Longrightarrow> file_lock_acquire_exclusive_enter mem p es = (r, es') \<Longrightarrow>
     lock_step \<lparr>ls_entries = es, ls_threads = ths\<rparr>
       \<lparr>ls_entries = es', ls_threads = ths[t := after_exclusive p r]\<rparr>"
| exclusive_wake: "t < length ths \<Longrightarrow> ths ! t = Wait_write p \<Longrightarrow> file_lock_acquire_exclusive_wake p es = (r, es') \<Longrightarrow>
     lock_step \<lparr>ls_entries = es, ls_threads = ths\<rparr>
       \<lparr>ls_entries = es', ls_threads = ths[t := after_exclusive p r]\<rparr>"
| try_shared: "t < length ths \<Longrightarrow> ths ! t = Idle \<Longrightarrow> file_lock_try_acquire_shared mem p es = (c, es') \<Longrightarrow>
     lock_step \<lparr>ls_entries = es, ls_threads = ths\<rparr>
       \<lparr>ls_entries = es', ls_threads = ths[t := if c = 0 then Reading p else Idle]\<rparr>"
| try_exclusive: "t < length ths \<Longrightarrow> ths ! t = Idle \<Longrightarrow> file_lock_try_acquire_exclusive mem p es = (c, es') \<Longrightarrow>
     lock_step \<lparr>ls_entries = es, ls_threads = ths\<rparr>
       \<lparr>ls_entries = es', ls_threads = ths[t := if c = 0 then Writing p else Idle]\<rparr>"
| release_shared: "t < length ths \<Longrightarrow> ths ! t = Reading p \<Longrightarrow> es' = file_lock_release_shared p es \<Longrightarrow>
     lock_step \<lparr>ls_entries = es, ls_threads = ths\<rparr>
       \<lparr>ls_entries = es', ls_threads = map (strand es') (ths[t := Idle])\<rparr>"
| release_exclusive: "t < length ths \<Longrightarrow> ths ! t = Writing p \<Longrightarrow> es' = file_lock_release_exclusive p es \<Longrightarrow>
     lock_step \<lparr>ls_entries = es, ls_threads = ths\<rparr>
       \<lparr>ls_entries = es', ls_threads = map (strand es') (ths[t := Idle])\<rparr>"

text \<open>The counts in the table are the numbers of threads, and no blocked reader lacks its entry.\<close>

definition lock_counts :: "lock_entries \<Rightarrow> lock_thread list \<Rightarrow> bool" where
  "lock_counts es ths \<longleftrightarrow> wf_locks es \<and>
     (\<forall>p. lock_view es p =
        (count (mset ths) (Reading p), count (mset ths) (Writing p), count (mset ths) (Wait_write p)))"

definition lock_inv :: "lock_sys \<Rightarrow> bool" where
  "lock_inv s \<longleftrightarrow> lock_counts (ls_entries s) (ls_threads s) \<and>
     (\<forall>p. Wait_read p \<in> set (ls_threads s) \<longrightarrow> file_lock_find p (ls_entries s) \<noteq> None)"

lemma count_update:
  "t < length ths \<Longrightarrow> ths ! t = x \<Longrightarrow>
   count (mset (ths[t := y])) z = count (mset ths) z - (if x = z then 1 else 0) + (if y = z then 1 else 0)"
  by (auto simp: mset_update)

lemma count_strand:
  "z \<notin> range Wait_read \<union> range Freed \<Longrightarrow> count (image_mset (strand es) (mset ths)) z = count (mset ths) z"
  by (induction ths) (auto simp: strand_def split: lock_thread.splits)

lemma find_lock_view:
  assumes "wf_locks es"
  shows "file_lock_find p es = None \<longleftrightarrow> lock_view es p = (0, 0, 0)"
  using lock_view_wf(3) [OF assms] by (cases "lock_view es p") auto

text \<open>A step of one thread that changes the counts of one path accordingly.\<close>

fun held :: "string \<Rightarrow> lock_thread \<Rightarrow> nat \<times> nat \<times> nat" where
  "held p (Reading q) = (if p = q then (1, 0, 0) else (0, 0, 0))"
| "held p (Writing q) = (if p = q then (0, 1, 0) else (0, 0, 0))"
| "held p (Wait_write q) = (if p = q then (0, 0, 1) else (0, 0, 0))"
| "held p _ = (0, 0, 0)"

lemma lock_counts_step:
  assumes "lock_counts es ths" "t < length ths" "ths ! t = x" "wf_locks es'"
    and "lock_view es p = (r, w, q)" "lock_view es' = (lock_view es)(p := (r', w', q'))"
    and "held p x = (a, b, c)" "held p y = (a', b', c')"
    and "r' + a = r + a'" "w' + b = w + b'" "q' + c = q + c'"
    and "\<And>o'. o' \<noteq> p \<Longrightarrow> held o' x = (0, 0, 0) \<and> held o' y = (0, 0, 0)"
  shows "lock_counts es' (ths[t := y])"
proof -
  note upd = count_update [OF assms(2,3), of y]
  have "x \<in> set ths" using assms(2,3) by auto
  then have pos: "count (mset ths) x > 0" by simp
  have "lock_view es' o' = (count (mset (ths[t := y])) (Reading o'), count (mset (ths[t := y])) (Writing o'),
         count (mset (ths[t := y])) (Wait_write o'))" for o'
  proof (cases "o' = p")
    case False
    then show ?thesis using assms(1,6) assms(12) [of o'] upd
      by (cases x; cases y) (auto simp: lock_counts_def split: if_splits)
  next
    case True
    have v: "lock_view es p = (count (mset ths) (Reading p), count (mset ths) (Writing p), count (mset ths) (Wait_write p))"
      using assms(1) by (auto simp: lock_counts_def)
    show ?thesis using True assms(5-11) upd pos v
      by (cases x; cases y) (auto split: if_splits)
  qed
  then show ?thesis using assms(4) by (simp add: lock_counts_def)
qed


lemma lock_inv_acquire:
  assumes inv: "lock_inv \<lparr>ls_entries = es, ls_threads = ths\<rparr>" and "t < length ths" "ths ! t = x" "wf_locks es'"
    and "lock_view es p = (r, w, q)" "lock_view es' = (lock_view es)(p := (r', w', q'))"
    and "held p x = (a, b, c)" "held p y = (a', b', c')"
    and "r' + a = r + a'" "w' + b = w + b'" "q' + c = q + c'"
    and "\<And>o'. o' \<noteq> p \<Longrightarrow> held o' x = (0, 0, 0) \<and> held o' y = (0, 0, 0)"
    and "r' + w' + q' > 0" "\<And>o'. y = Wait_read o' \<Longrightarrow> o' = p"
  shows "lock_inv \<lparr>ls_entries = es', ls_threads = ths[t := y]\<rparr>"
proof -
  have "lock_counts es' (ths[t := y])"
    by (rule lock_counts_step [of es ths t x es' p r w q r' w' q' a b c y a' b' c'])
      (use assms in \<open>auto simp: lock_inv_def\<close>)
  moreover have "file_lock_find o' es' \<noteq> None" if wr: "Wait_read o' \<in> set (ths[t := y])" for o'
  proof (cases "o' = p")
    case False
    then have "Wait_read o' \<in> set ths"
      using wr assms(14) [of o'] set_update_subset_insert [of ths t y] by auto
    with inv have "lock_view es o' \<noteq> (0, 0, 0)" and "wf_locks es"
      using find_lock_view [of es o'] by (auto simp: lock_inv_def lock_counts_def)
    with False show ?thesis using find_lock_view [OF assms(4), of o'] assms(6) by simp
  qed (use find_lock_view [OF assms(4), of p] assms(6,13) in auto)
  ultimately show ?thesis by (simp add: lock_inv_def)
qed

lemma lock_inv_same:
  "lock_inv \<lparr>ls_entries = es, ls_threads = ths\<rparr> \<Longrightarrow> ths ! t = x \<Longrightarrow>
   lock_inv \<lparr>ls_entries = es, ls_threads = ths[t := x]\<rparr>"
  by (metis list_update_id)

lemma lock_inv_shared_enter:
  assumes inv: "lock_inv \<lparr>ls_entries = es, ls_threads = ths\<rparr>" and t: "t < length ths" "ths ! t = Idle"
    and op: "file_lock_acquire_shared_enter mem p es = (r, es')"
  shows "lock_inv \<lparr>ls_entries = es', ls_threads = ths[t := after_shared p r]\<rparr>"
proof (cases "available mem p es")
  case False
  then have "r = Failed" "es' = es" using op not_available(3) [of mem p es] by simp_all
  with inv t show ?thesis by (simp add: lock_inv_same)
next
  case True
  have wf: "wf_locks es" using inv by (simp add: lock_inv_def lock_counts_def)
  obtain n w q where v: "lock_view es p = (n, w, q)" by (cases "lock_view es p")
  note s = acquire_shared_enter_spec [OF wf True v] try_acquire_shared_spec(2) [OF wf True v]
  show ?thesis
  proof (cases "w > 0 \<or> q > 0")
    case True
    then have e: "r = Blocked" "es' = es" using s op by auto
    show ?thesis unfolding e
      by (rule lock_inv_acquire [OF inv t wf v, of n w q 0 0 0 _ 0 0 0]) (use True v in auto)
  next
    case False
    then have e: "r = Acquired" "wf_locks es'" "lock_view es' = (lock_view es)(p := (n + 1, w, q))"
      using s op by auto
    show ?thesis unfolding e(1)
      by (rule lock_inv_acquire [OF inv t e(2) v e(3), of 0 0 0 _ 1 0 0]) auto
  qed
qed

lemma lock_inv_shared_wake:
  assumes inv: "lock_inv \<lparr>ls_entries = es, ls_threads = ths\<rparr>" and t: "t < length ths" "ths ! t = Wait_read p"
    and op: "file_lock_acquire_shared_wake p es = (r, es')"
  shows "lock_inv \<lparr>ls_entries = es', ls_threads = ths[t := after_shared p r]\<rparr>"
proof -
  have wf: "wf_locks es" using inv by (simp add: lock_inv_def lock_counts_def)
  have "Wait_read p \<in> set ths" using t nth_mem by metis
  then have f: "file_lock_find p es \<noteq> None" using inv by (auto simp: lock_inv_def)
  obtain n w q where v: "lock_view es p = (n, w, q)" by (cases "lock_view es p")
  note s = acquire_shared_wake_spec [OF wf v f]
  show ?thesis
  proof (cases "w > 0 \<or> q > 0")
    case True
    then have "r = Blocked" "es' = es" using s(1) op by auto
    with inv t show ?thesis by (simp add: lock_inv_same)
  next
    case False
    then have e: "r = Acquired" "wf_locks es'" "lock_view es' = (lock_view es)(p := (n + 1, w, q))"
      using s op by auto
    show ?thesis unfolding e(1)
      by (rule lock_inv_acquire [OF inv t e(2) v e(3), of 0 0 0 _ 1 0 0]) auto
  qed
qed

lemma lock_inv_exclusive_enter:
  assumes inv: "lock_inv \<lparr>ls_entries = es, ls_threads = ths\<rparr>" and t: "t < length ths" "ths ! t = Idle"
    and op: "file_lock_acquire_exclusive_enter mem p es = (r, es')"
  shows "lock_inv \<lparr>ls_entries = es', ls_threads = ths[t := after_exclusive p r]\<rparr>"
proof (cases "available mem p es")
  case False
  then have "r = Failed" "es' = es" using op not_available(4) [of mem p es] by simp_all
  with inv t show ?thesis by (simp add: lock_inv_same)
next
  case True
  have wf: "wf_locks es" using inv by (simp add: lock_inv_def lock_counts_def)
  obtain n w q where v: "lock_view es p = (n, w, q)" by (cases "lock_view es p")
  obtain es1 where e1: "wf_locks es1" "lock_view es1 = (lock_view es)(p := (n, w, q + 1))"
    "file_lock_acquire_exclusive_enter mem p es = file_lock_acquire_exclusive_wake p es1"
    using acquire_exclusive_enter_spec [OF wf True v] by blast
  have v1: "lock_view es1 p = (n, w, q + 1)" "q + 1 > 0" using e1 by auto
  note s = acquire_exclusive_wake_spec [OF e1(1) v1]
  show ?thesis
  proof (cases "w > 0 \<or> n > 0")
    case True
    then have e: "r = Blocked" "es' = es1" using s(1) op e1(3) by auto
    show ?thesis unfolding e
      by (rule lock_inv_acquire [OF inv t e1(1) v e1(2), of 0 0 0 _ 0 0 1]) auto
  next
    case False
    then have e: "r = Acquired" "wf_locks es'" "lock_view es' = (lock_view es)(p := (0, 1, q))"
      using s op e1 by auto
    show ?thesis unfolding e(1)
      by (rule lock_inv_acquire [OF inv t e(2) v e(3), of 0 0 0 _ 0 1 0]) (use False in auto)
  qed
qed

lemma lock_inv_exclusive_wake:
  assumes inv: "lock_inv \<lparr>ls_entries = es, ls_threads = ths\<rparr>" and t: "t < length ths" "ths ! t = Wait_write p"
    and op: "file_lock_acquire_exclusive_wake p es = (r, es')"
  shows "lock_inv \<lparr>ls_entries = es', ls_threads = ths[t := after_exclusive p r]\<rparr>"
proof -
  have wf: "wf_locks es" using inv by (simp add: lock_inv_def lock_counts_def)
  have "count (mset ths) (Wait_write p) > 0" using t nth_mem [of t ths] by simp
  then obtain n w q where v: "lock_view es p = (n, w, q)" and q: "q > 0"
    using inv by (auto simp: lock_inv_def lock_counts_def)
  note s = acquire_exclusive_wake_spec [OF wf v q]
  show ?thesis
  proof (cases "w > 0 \<or> n > 0")
    case True
    then have "r = Blocked" "es' = es" using s(1) op by auto
    with inv t show ?thesis by (simp add: lock_inv_same)
  next
    case False
    then have e: "r = Acquired" "wf_locks es'" "lock_view es' = (lock_view es)(p := (0, 1, q - 1))"
      using s op by auto
    show ?thesis unfolding e(1)
      by (rule lock_inv_acquire [OF inv t e(2) v e(3), of 0 0 1 _ 0 1 0]) (use False q in auto)
  qed
qed


lemma lock_inv_try_shared:
  assumes inv: "lock_inv \<lparr>ls_entries = es, ls_threads = ths\<rparr>" and t: "t < length ths" "ths ! t = Idle"
    and op: "file_lock_try_acquire_shared mem p es = (c, es')"
  shows "lock_inv \<lparr>ls_entries = es', ls_threads = ths[t := if c = 0 then Reading p else Idle]\<rparr>"
proof -
  have wf: "wf_locks es" using inv by (simp add: lock_inv_def lock_counts_def)
  obtain n w q where v: "lock_view es p = (n, w, q)" by (cases "lock_view es p")
  from try_acquire_shared_cases [OF wf v op] show ?thesis
  proof (elim disjE conjE)
    assume "c = 0" and e: "wf_locks es'" "lock_view es' = (lock_view es)(p := (n + 1, w, q))"
    show ?thesis unfolding \<open>c = 0\<close>
      by (rule lock_inv_acquire [OF inv t e(1) v e(2), of 0 0 0 _ 1 0 0]) auto
  qed (use inv t in \<open>simp add: lock_inv_same\<close>)
qed

lemma lock_inv_try_exclusive:
  assumes inv: "lock_inv \<lparr>ls_entries = es, ls_threads = ths\<rparr>" and t: "t < length ths" "ths ! t = Idle"
    and op: "file_lock_try_acquire_exclusive mem p es = (c, es')"
  shows "lock_inv \<lparr>ls_entries = es', ls_threads = ths[t := if c = 0 then Writing p else Idle]\<rparr>"
proof -
  have wf: "wf_locks es" using inv by (simp add: lock_inv_def lock_counts_def)
  obtain n w q where v: "lock_view es p = (n, w, q)" by (cases "lock_view es p")
  from try_acquire_exclusive_cases [OF wf v op] show ?thesis
  proof (elim disjE conjE)
    assume "c = 0" "w = 0" and e: "wf_locks es'" "lock_view es' = (lock_view es)(p := (n, 1, q))"
    show ?thesis unfolding \<open>c = 0\<close>
      by (rule lock_inv_acquire [OF inv t e(1) v e(2), of 0 0 0 _ 0 1 0]) (use \<open>w = 0\<close> in auto)
  qed (use inv t in \<open>simp add: lock_inv_same\<close>)
qed

lemma strand_Wait_read: "Wait_read p = strand es x \<Longrightarrow> file_lock_find p es \<noteq> None"
  by (cases x) (auto simp: strand_def split: if_splits)

lemma lock_inv_strand:
  "lock_counts es ths \<Longrightarrow> lock_inv \<lparr>ls_entries = es, ls_threads = map (strand es) ths\<rparr>"
  by (auto simp: lock_inv_def lock_counts_def count_strand image_iff dest!: strand_Wait_read)

lemma lock_inv_release:
  assumes inv: "lock_inv \<lparr>ls_entries = es, ls_threads = ths\<rparr>" and t: "t < length ths"
  shows "ths ! t = Reading p \<Longrightarrow> es' = file_lock_release_shared p es \<Longrightarrow>
      lock_inv \<lparr>ls_entries = es', ls_threads = map (strand es') (ths[t := Idle])\<rparr>"
    and "ths ! t = Writing p \<Longrightarrow> es' = file_lock_release_exclusive p es \<Longrightarrow>
      lock_inv \<lparr>ls_entries = es', ls_threads = map (strand es') (ths[t := Idle])\<rparr>"
proof -
  have c: "lock_counts es ths" and wf: "wf_locks es" using inv by (auto simp: lock_inv_def lock_counts_def)
  have v: "lock_view es p = (count (mset ths) (Reading p), count (mset ths) (Writing p), count (mset ths) (Wait_write p))"
    (is "_ = (?r, ?w, ?q)") using c by (simp add: lock_counts_def)
  note rs = release_spec [OF wf v]
  show "lock_inv \<lparr>ls_entries = es', ls_threads = map (strand es') (ths[t := Idle])\<rparr>"
    if x: "ths ! t = Reading p" and op: "es' = file_lock_release_shared p es"
  proof (rule lock_inv_strand)
    have n: "?r > 0" using t x nth_mem [of t ths] by simp
    then have e: "wf_locks es'" "lock_view es' = (lock_view es)(p := (?r - 1, ?w, ?q))"
      using rs(2) op by blast+
    show "lock_counts es' (ths[t := Idle])"
      by (rule lock_counts_step [OF c t x e(1) v e(2), of 1 0 0 _ 0 0 0]) (use n in auto)
  qed
  show "lock_inv \<lparr>ls_entries = es', ls_threads = map (strand es') (ths[t := Idle])\<rparr>"
    if x: "ths ! t = Writing p" and op: "es' = file_lock_release_exclusive p es"
  proof (rule lock_inv_strand)
    have n: "?w > 0" using t x nth_mem [of t ths] by simp
    then have e: "wf_locks es'" "lock_view es' = (lock_view es)(p := (?r, 0, ?q))"
      using rs(1) op by blast+
    have "?w = 1" using n lock_view_wf(1) [OF wf v] by linarith
    then show "lock_counts es' (ths[t := Idle])"
      by (intro lock_counts_step [OF c t x e(1) v e(2), of 0 1 0 _ 0 0 0]) auto
  qed
qed

definition lock_init :: "nat \<Rightarrow> lock_sys" where
  "lock_init n = \<lparr>ls_entries = [], ls_threads = replicate n Idle\<rparr>"

lemma lock_inv_init: "lock_inv (lock_init n)"
  by (auto simp: lock_init_def lock_inv_def lock_counts_def wf_locks_def lock_view_def fun_eq_iff count_eq_zero_iff)

lemma lock_inv_step: "lock_step s s' \<Longrightarrow> lock_inv s \<Longrightarrow> lock_inv s'"
proof (induction rule: lock_step.induct)
qed (simp_all only: lock_inv_shared_enter lock_inv_shared_wake lock_inv_exclusive_enter
    lock_inv_exclusive_wake lock_inv_try_shared lock_inv_try_exclusive lock_inv_release)

lemma lock_inv_reachable: "lock_step\<^sup>*\<^sup>* s s' \<Longrightarrow> lock_inv s \<Longrightarrow> lock_inv s'"
  by (induction rule: rtranclp_induct) (auto intro: lock_inv_step)

text \<open>
  C27: in every state that any number of threads can reach through the lock operations, two threads
  never hold the lock of one path unless both hold it for reading, the table keeps an entry exactly
  for the paths that some thread holds or waits to write, and the counts in the entry are the
  numbers of those threads.
\<close>

theorem lock_mutual_exclusion:
  assumes "lock_step\<^sup>*\<^sup>* (lock_init n) s"
    and "i < length (ls_threads s)" "j < length (ls_threads s)" "i \<noteq> j" "ls_threads s ! i = Writing p"
  shows "ls_threads s ! j \<noteq> Writing p \<and> ls_threads s ! j \<noteq> Reading p \<and>
    distinct (map l_path (ls_entries s)) \<and>
    (\<forall>q. file_lock_find q (ls_entries s) \<noteq> None \<longleftrightarrow>
       Reading q \<in> set (ls_threads s) \<or> Writing q \<in> set (ls_threads s) \<or> Wait_write q \<in> set (ls_threads s)) \<and>
    (\<forall>q. lock_view (ls_entries s) q =
       (count (mset (ls_threads s)) (Reading q), count (mset (ls_threads s)) (Writing q),
        count (mset (ls_threads s)) (Wait_write q)))"
proof -
  let ?m = "mset (ls_threads s)"
  have inv: "lock_inv s" using lock_inv_reachable [OF assms(1) lock_inv_init] .
  then have wf: "wf_locks (ls_entries s)" and v: "\<And>q. lock_view (ls_entries s) q =
       (count ?m (Reading q), count ?m (Writing q), count ?m (Wait_write q))"
    by (auto simp: lock_inv_def lock_counts_def)
  have w: "count ?m (Writing p) > 0" using assms(2,5) nth_mem by force
  with lock_view_wf(1,2) [OF wf v, of p] have w1: "count ?m (Writing p) = 1" "count ?m (Reading p) = 0" by linarith+
  have nr: "ls_threads s ! j \<noteq> Reading p" using w1(2) assms(3) nth_mem by (force simp: count_eq_zero_iff)
  have "Writing p \<in># mset ((ls_threads s)[i := Idle])" if "ls_threads s ! j = Writing p"
    using that assms(3,4) nth_mem [of j "(ls_threads s)[i := Idle]"] by simp
  then have nw: "ls_threads s ! j \<noteq> Writing p"
    using w1(1) count_update [OF assms(2,5), of Idle "Writing p"] by force
  have "file_lock_find q (ls_entries s) \<noteq> None \<longleftrightarrow>
       Reading q \<in> set (ls_threads s) \<or> Writing q \<in> set (ls_threads s) \<or> Wait_write q \<in> set (ls_threads s)" for q
    using find_lock_view [OF wf, of q] v [of q] by (auto simp: count_eq_zero_iff)
  with nr nw wf v show ?thesis by (auto simp: wf_locks_def)
qed


text \<open>Two threads, one path: the first writes, the second waits to read.\<close>

definition demo_lock_state :: lock_sys where
  "demo_lock_state = \<lparr>ls_entries = [\<lparr>l_path = ''/f'', l_readers = 0, l_writers = 1, l_waiting_writers = 0\<rparr>],
     ls_threads = [Writing ''/f'', Wait_read ''/f'']\<rparr>"

lemma demo_lock_reachable: "lock_step\<^sup>*\<^sup>* (lock_init 2) demo_lock_state"
proof -
  have c: "file_lock_acquire_exclusive_enter True ''/f'' [] =
      (Acquired, [\<lparr>l_path = ''/f'', l_readers = 0, l_writers = 1, l_waiting_writers = 0\<rparr>])"
    by code_simp
  have d: "file_lock_acquire_shared_enter True ''/f''
        [\<lparr>l_path = ''/f'', l_readers = 0, l_writers = 1, l_waiting_writers = 0\<rparr>] =
      (Blocked, [\<lparr>l_path = ''/f'', l_readers = 0, l_writers = 1, l_waiting_writers = 0\<rparr>])"
    by code_simp
  have "lock_step (lock_init 2)
      \<lparr>ls_entries = [\<lparr>l_path = ''/f'', l_readers = 0, l_writers = 1, l_waiting_writers = 0\<rparr>],
       ls_threads = [Writing ''/f'', Idle]\<rparr>"
    using exclusive_enter [of 0 "[Idle, Idle]", OF _ _ c] by (simp add: lock_init_def numeral_2_eq_2)
  moreover have "lock_step \<lparr>ls_entries = [\<lparr>l_path = ''/f'', l_readers = 0, l_writers = 1, l_waiting_writers = 0\<rparr>],
       ls_threads = [Writing ''/f'', Idle]\<rparr> demo_lock_state"
    using shared_enter [of 1 "[Writing ''/f'', Idle]", OF _ _ d] by (simp add: demo_lock_state_def)
  ultimately show ?thesis by (meson rtranclp.simps)
qed

lemma lock_mutual_exclusion_witness:
  "lock_step\<^sup>*\<^sup>* (lock_init 2) demo_lock_state \<and> ls_threads demo_lock_state ! 1 \<noteq> Reading ''/f'' \<and>
   lock_view (ls_entries demo_lock_state) ''/f'' = (0, 1, 0)"
  using demo_lock_reachable lock_mutual_exclusion [OF demo_lock_reachable, of 0 1 "''/f''"]
  by (simp add: demo_lock_state_def)

text \<open>
  The entry of a path can be freed while a reader is still blocked on its condition variable:
  \<open>file_lock_release_common\<close> looks at the readers, the writer and the waiting writers of the entry,
  and a reader that waits in \<open>file_lock_acquire_shared\<close> is none of them.
\<close>

theorem lock_entry_freed_under_blocked_reader:
  "\<exists>s. lock_step\<^sup>*\<^sup>* (lock_init 2) s \<and> ls_entries s = [] \<and> ls_threads s = [Idle, Freed ''/f'']"
proof -
  have r: "file_lock_release_exclusive ''/f''
      [\<lparr>l_path = ''/f'', l_readers = 0, l_writers = 1, l_waiting_writers = 0\<rparr>] = []"
    by code_simp
  have "lock_step demo_lock_state \<lparr>ls_entries = [], ls_threads = [Idle, Freed ''/f'']\<rparr>"
    unfolding demo_lock_state_def
    using release_exclusive [of 0 "[Writing ''/f'', Wait_read ''/f'']" "''/f''", OF _ _ r [symmetric]]
    by (simp add: strand_def)
  with demo_lock_reachable show ?thesis
    by (intro exI [of _ "\<lparr>ls_entries = [], ls_threads = [Idle, Freed ''/f'']\<rparr>"]) (simp add: rtranclp.rtrancl_into_rtrancl)
qed

end
