(* ===== verification/Posix.thy ===== *)
theory Posix
  imports FTP_Prelude
begin

text \<open>
  The operating system as the server sees it. The calls the sources make are the fields of a
  record of state transformers over an unknown world \<open>'w\<close>, a parameter of every definition that
  uses them; nothing is assumed of them here. The state of a process is the world together with
  two ghost fields: the list of the effects on files and sockets so far, which the safety
  properties speak about, and a flag that is set when a loop that retries an interrupted call has
  used up its patience (\<open>px_patience\<close>, an arbitrary bound on such retries).
\<close>

section \<open>Types of the interface\<close>

datatype errno = EINTR | EEXIST | EAGAIN | EOTHER

datatype open_mode = O_read | O_write_create | O_write_create_trunc

datatype net_addr_family_t = NET_AF_IPV4 | NET_AF_IPV6 | NET_AF_UNSPEC

datatype sock_opt = SO_reuseaddr | SO_ipv6_only | SO_rcvtimeo | SO_sndtimeo | SO_tcp_nodelay
  | SO_keepalive | SO_oobinline

datatype select_set = Read_set | Write_set | Except_set

datatype shutdown_how = Shut_rd | Shut_wr | Shut_rdwr

record stat_t =
  st_mode :: u32
  st_nlink :: u32
  st_uid :: u32
  st_gid :: u32
  st_size :: int
  st_mtime :: int

text \<open>One result of \<open>getaddrinfo\<close>: whether it is an IPv6 address, and the address itself.\<close>

record addrinfo =
  ai_inet6 :: bool
  ai_addr :: nat

text \<open>
  A failing call returns its \<open>errno\<close> where the code reads it, \<open>None\<close> or \<open>False\<close> where it only
  tests for failure, and a negative number where the code tests the sign. \<open>px_readdir\<close> stands
  for \<open>opendir\<close> and the names that the calls of \<open>readdir\<close> on that stream return;
  \<open>px_malloc\<close> for the success of an allocation (and of the initialisation of what is in it);
  \<open>px_strftime\<close> for \<open>strftime\<close> on \<open>gmtime_r\<close> (\<open>True\<close>) or \<open>localtime_r\<close>; \<open>px_stack\<close> for
  the address of a local variable, which is used as a source of randomness.
\<close>

record 'w posix =
  px_stat :: "string \<Rightarrow> ('w, stat_t option) state"
  px_lstat :: "string \<Rightarrow> ('w, stat_t option) state"
  px_fstat :: "int \<Rightarrow> ('w, stat_t option) state"
  px_open :: "string \<Rightarrow> open_mode \<Rightarrow> ('w, int) state"
  px_lseek :: "int \<Rightarrow> int \<Rightarrow> ('w, bool) state"
  px_read :: "int \<Rightarrow> nat \<Rightarrow> ('w, errno + string) state"
  px_write :: "int \<Rightarrow> string \<Rightarrow> ('w, errno + nat) state"
  px_fsync :: "int \<Rightarrow> ('w, unit) state"
  px_close :: "int \<Rightarrow> ('w, unit) state"
  px_mkdir :: "string \<Rightarrow> ('w, errno option) state"
  px_unlink :: "string \<Rightarrow> ('w, bool) state"
  px_rmdir :: "string \<Rightarrow> ('w, bool) state"
  px_rename :: "string \<Rightarrow> string \<Rightarrow> ('w, bool) state"
  px_readdir :: "string \<Rightarrow> ('w, string list option) state"
  px_readlink :: "string \<Rightarrow> ('w, string option) state"
  px_fopen :: "string \<Rightarrow> ('w, string option) state"
  px_getaddrinfo :: "net_addr_family_t \<Rightarrow> string \<Rightarrow> string \<Rightarrow> bool \<Rightarrow> ('w, addrinfo list option) state"
  px_socket :: "addrinfo \<Rightarrow> ('w, int) state"
  px_setsockopt :: "int \<Rightarrow> sock_opt \<Rightarrow> int \<Rightarrow> ('w, bool) state"
  px_bind :: "int \<Rightarrow> addrinfo \<Rightarrow> ('w, bool) state"
  px_connect :: "int \<Rightarrow> addrinfo \<Rightarrow> ('w, bool) state"
  px_listen :: "int \<Rightarrow> int \<Rightarrow> ('w, bool) state"
  px_accept :: "int \<Rightarrow> ('w, errno + int \<times> string \<times> u16) state"
  px_getsockname :: "int \<Rightarrow> ('w, (string \<times> u16) option) state"
  px_recv :: "int \<Rightarrow> nat \<Rightarrow> ('w, errno + string) state"
  px_recv_oob :: "int \<Rightarrow> nat \<Rightarrow> ('w, errno + string) state"
  px_send :: "int \<Rightarrow> string \<Rightarrow> ('w, errno + nat) state"
  px_shutdown :: "int \<Rightarrow> shutdown_how \<Rightarrow> ('w, bool) state"
  px_getfl :: "int \<Rightarrow> ('w, u32 option) state"
  px_setfl :: "int \<Rightarrow> u32 \<Rightarrow> ('w, bool) state"
  px_select :: "int \<Rightarrow> select_set \<Rightarrow> int \<Rightarrow> ('w, int) state"
  px_sockatmark :: "int \<Rightarrow> ('w, int) state"
  px_time :: "('w, int) state"
  px_malloc :: "('w, bool) state"
  px_pthread_create :: "('w, bool) state"
  px_getpwuid :: "u32 \<Rightarrow> ('w, string option) state"
  px_getgrgid :: "u32 \<Rightarrow> ('w, string option) state"
  px_strftime :: "bool \<Rightarrow> string \<Rightarrow> int \<Rightarrow> string"
  px_stack :: nat
  px_patience :: nat

section \<open>The state of the process\<close>

datatype path_op = Op_stat | Op_lstat | Op_open open_mode | Op_mkdir | Op_unlink | Op_rmdir
  | Op_readdir | Op_readlink

text \<open>
  Effects: a call on a path, a rename, and the transfer of bytes. \<open>Ev_write\<close> and \<open>Ev_send\<close> carry
  the bytes that the call accepted, \<open>Ev_read\<close> and \<open>Ev_recv\<close> the bytes it returned.
\<close>

datatype os_event =
    Ev_path path_op string
  | Ev_rename string string
  | Ev_seek int int
  | Ev_read int string
  | Ev_write int string
  | Ev_recv int string
  | Ev_send int string
  | Ev_close int

record 'w os =
  world :: 'w
  trace :: "os_event list"
  stuck :: bool

type_synonym ('w, 'z, 'a) os_m = "(('w, 'z) os_scheme, 'a) state"

definition os :: "('w, 'a) state \<Rightarrow> ('w, 'z, 'a) os_m" where
  "os m = State (\<lambda>s. case run_state m (world s) of (a, w) \<Rightarrow> (a, s\<lparr>world := w\<rparr>))"

definition emit :: "os_event \<Rightarrow> ('w, 'z, unit) os_m" where
  "emit e = modify (\<lambda>s. s\<lparr>trace := trace s @ [e]\<rparr>)"

definition give_up :: "('w, 'z, unit) os_m" where
  "give_up = modify (\<lambda>s. s\<lparr>stuck := True\<rparr>)"

section \<open>The calls that leave a trace\<close>

definition path_call :: "path_op \<Rightarrow> string \<Rightarrow> ('w, 'a) state \<Rightarrow> ('w, 'z, 'a) os_m" where
  "path_call k path m = do { emit (Ev_path k path); os m }"

definition sys_stat :: "'w posix \<Rightarrow> string \<Rightarrow> ('w, 'z, stat_t option) os_m" where
  "sys_stat P path = path_call Op_stat path (px_stat P path)"

definition sys_lstat :: "'w posix \<Rightarrow> string \<Rightarrow> ('w, 'z, stat_t option) os_m" where
  "sys_lstat P path = path_call Op_lstat path (px_lstat P path)"

definition sys_open :: "'w posix \<Rightarrow> string \<Rightarrow> open_mode \<Rightarrow> ('w, 'z, int) os_m" where
  "sys_open P path k = path_call (Op_open k) path (px_open P path k)"

definition sys_mkdir :: "'w posix \<Rightarrow> string \<Rightarrow> ('w, 'z, errno option) os_m" where
  "sys_mkdir P path = path_call Op_mkdir path (px_mkdir P path)"

definition sys_unlink :: "'w posix \<Rightarrow> string \<Rightarrow> ('w, 'z, bool) os_m" where
  "sys_unlink P path = path_call Op_unlink path (px_unlink P path)"

definition sys_rmdir :: "'w posix \<Rightarrow> string \<Rightarrow> ('w, 'z, bool) os_m" where
  "sys_rmdir P path = path_call Op_rmdir path (px_rmdir P path)"

definition sys_readdir :: "'w posix \<Rightarrow> string \<Rightarrow> ('w, 'z, string list option) os_m" where
  "sys_readdir P path = path_call Op_readdir path (px_readdir P path)"

definition sys_readlink :: "'w posix \<Rightarrow> string \<Rightarrow> ('w, 'z, string option) os_m" where
  "sys_readlink P path = path_call Op_readlink path (px_readlink P path)"

definition sys_rename :: "'w posix \<Rightarrow> string \<Rightarrow> string \<Rightarrow> ('w, 'z, bool) os_m" where
  "sys_rename P old new = do { emit (Ev_rename old new); os (px_rename P old new) }"

definition sys_lseek :: "'w posix \<Rightarrow> int \<Rightarrow> int \<Rightarrow> ('w, 'z, bool) os_m" where
  "sys_lseek P fd off = do { emit (Ev_seek fd off); os (px_lseek P fd off) }"

definition sys_close :: "'w posix \<Rightarrow> int \<Rightarrow> ('w, 'z, unit) os_m" where
  "sys_close P fd = do { emit (Ev_close fd); os (px_close P fd) }"

text \<open>
  A call never transfers more bytes than asked for: the count that \<open>read\<close>, \<open>recv\<close>, \<open>write\<close> and
  \<open>send\<close> return is at most their last argument.
\<close>

definition sys_read :: "'w posix \<Rightarrow> int \<Rightarrow> nat \<Rightarrow> ('w, 'z, errno + string) os_m" where
  "sys_read P fd n = do {
     r \<leftarrow> os (px_read P fd n);
     case r of Inl e \<Rightarrow> ret (Inl e)
     | Inr bs \<Rightarrow> do { emit (Ev_read fd (take n bs)); ret (Inr (take n bs)) } }"

definition sys_recv :: "'w posix \<Rightarrow> int \<Rightarrow> nat \<Rightarrow> ('w, 'z, errno + string) os_m" where
  "sys_recv P fd n = do {
     r \<leftarrow> os (px_recv P fd n);
     case r of Inl e \<Rightarrow> ret (Inl e)
     | Inr bs \<Rightarrow> do { emit (Ev_recv fd (take n bs)); ret (Inr (take n bs)) } }"

definition sys_write :: "'w posix \<Rightarrow> int \<Rightarrow> string \<Rightarrow> ('w, 'z, errno + nat) os_m" where
  "sys_write P fd bs = do {
     r \<leftarrow> os (px_write P fd bs);
     case r of Inl e \<Rightarrow> ret (Inl e)
     | Inr n \<Rightarrow> do { emit (Ev_write fd (take n bs)); ret (Inr (min n (length bs))) } }"

definition sys_send :: "'w posix \<Rightarrow> int \<Rightarrow> string \<Rightarrow> ('w, 'z, errno + nat) os_m" where
  "sys_send P fd bs = do {
     r \<leftarrow> os (px_send P fd bs);
     case r of Inl e \<Rightarrow> ret (Inl e)
     | Inr n \<Rightarrow> do { emit (Ev_send fd (take n bs)); ret (Inr (min n (length bs))) } }"

lemmas sys_defs = sys_stat_def sys_lstat_def sys_open_def sys_mkdir_def sys_unlink_def sys_rmdir_def
  sys_readdir_def sys_readlink_def path_call_def sys_rename_def sys_lseek_def sys_close_def

section \<open>What a computation may do\<close>

text \<open>
  \<open>does A m\<close>: \<open>m\<close> changes nothing but the world and the ghost fields, extends the trace, by effects
  in \<open>A\<close>, and never clears the flag.
\<close>

definition does :: "os_event set \<Rightarrow> ('w, 'z, 'a) os_m \<Rightarrow> bool" where
  "does A m \<longleftrightarrow> (\<forall>s. \<exists>tr. trace (snd (run_state m s)) = trace s @ tr \<and> set tr \<subseteq> A \<and>
     os.more (snd (run_state m s)) = os.more s \<and> (stuck s \<longrightarrow> stuck (snd (run_state m s))))"

named_theorems doing \<open>effects of the calls\<close>

lemma does_os [doing]: "does A (os m)"
  by (auto simp: does_def os_def split: prod.splits)

lemma does_emit [doing]: "e \<in> A \<Longrightarrow> does A (emit e)"
  by (simp add: does_def emit_def)

lemma does_stuck [doing]: "does A give_up"
  by (simp add: does_def give_up_def)

lemma does_ret [doing]: "does A (ret a)"
  by (simp add: does_def)

lemma does_bind [doing]:
  assumes m: "does A m" and f: "\<And>a. does A (f a)"
  shows "does A (State_Monad.bind m f)"
  unfolding does_def
proof
  fix s
  obtain a s' where r: "run_state m s = (a, s')" by (cases "run_state m s")
  from m obtain tr where "trace s' = trace s @ tr" "set tr \<subseteq> A" "os.more s' = os.more s" "stuck s \<longrightarrow> stuck s'"
    unfolding does_def using r by (metis snd_conv)
  moreover from f [of a] obtain tr' where "trace (snd (run_state (f a) s')) = trace s' @ tr'" "set tr' \<subseteq> A"
    "os.more (snd (run_state (f a) s')) = os.more s'" "stuck s' \<longrightarrow> stuck (snd (run_state (f a) s'))"
    unfolding does_def by blast
  ultimately show "\<exists>tr. trace (snd (run_state (State_Monad.bind m f) s)) = trace s @ tr \<and> set tr \<subseteq> A \<and>
     os.more (snd (run_state (State_Monad.bind m f) s)) = os.more s \<and>
     (stuck s \<longrightarrow> stuck (snd (run_state (State_Monad.bind m f) s)))"
    using r by (intro exI [of _ "tr @ tr'"]) simp
qed

lemma does_if [doing]: "(b \<Longrightarrow> does A m) \<Longrightarrow> (\<not> b \<Longrightarrow> does A n) \<Longrightarrow> does A (if b then m else n)"
  by simp

lemma does_option [doing]:
  "(x = None \<Longrightarrow> does A m) \<Longrightarrow> (\<And>a. x = Some a \<Longrightarrow> does A (f a)) \<Longrightarrow> does A (case x of None \<Rightarrow> m | Some a \<Rightarrow> f a)"
  by (cases x) auto

lemma does_sum [doing]:
  "(\<And>a. x = Inl a \<Longrightarrow> does A (f a)) \<Longrightarrow> (\<And>a. x = Inr a \<Longrightarrow> does A (g a)) \<Longrightarrow>
   does A (case x of Inl a \<Rightarrow> f a | Inr a \<Rightarrow> g a)"
  by (cases x) auto

lemma does_prod [doing]: "(\<And>a b. x = (a, b) \<Longrightarrow> does A (f a b)) \<Longrightarrow> does A (case x of (a, b) \<Rightarrow> f a b)"
  by (cases x) auto

lemma does_let [doing]: "does A (f a) \<Longrightarrow> does A (let x = a in f x)"
  by simp

lemma does_mono: "does A m \<Longrightarrow> A \<subseteq> B \<Longrightarrow> does B m"
  unfolding does_def by (meson subset_trans)

lemma keeps_does:
  assumes "does A m" "\<And>s s' tr. I s \<Longrightarrow> trace s' = trace s @ tr \<Longrightarrow> set tr \<subseteq> A \<Longrightarrow> os.more s' = os.more s \<Longrightarrow> I s'"
  shows "keeps I m any"
  using assms by (auto simp: keeps_def does_def) metis

lemma does_calls [doing]:
  "Ev_path Op_stat p \<in> A \<Longrightarrow> does A (sys_stat P p)"
  "Ev_path Op_lstat p \<in> A \<Longrightarrow> does A (sys_lstat P p)"
  "Ev_path (Op_open k) p \<in> A \<Longrightarrow> does A (sys_open P p k)"
  "Ev_path Op_mkdir p \<in> A \<Longrightarrow> does A (sys_mkdir P p)"
  "Ev_path Op_unlink p \<in> A \<Longrightarrow> does A (sys_unlink P p)"
  "Ev_path Op_rmdir p \<in> A \<Longrightarrow> does A (sys_rmdir P p)"
  "Ev_path Op_readdir p \<in> A \<Longrightarrow> does A (sys_readdir P p)"
  "Ev_path Op_readlink p \<in> A \<Longrightarrow> does A (sys_readlink P p)"
  "Ev_rename p q \<in> A \<Longrightarrow> does A (sys_rename P p q)"
  "Ev_seek fd i \<in> A \<Longrightarrow> does A (sys_lseek P fd i)"
  "Ev_close fd \<in> A \<Longrightarrow> does A (sys_close P fd)"
  unfolding sys_defs by (intro doing; assumption)+

lemma does_io [doing]:
  "range (Ev_read fd) \<subseteq> A \<Longrightarrow> does A (sys_read P fd n)"
  "range (Ev_recv fd) \<subseteq> A \<Longrightarrow> does A (sys_recv P fd n)"
  "range (Ev_write fd) \<subseteq> A \<Longrightarrow> does A (sys_write P fd bs)"
  "range (Ev_send fd) \<subseteq> A \<Longrightarrow> does A (sys_send P fd bs)"
  unfolding sys_read_def sys_recv_def sys_write_def sys_send_def by (intro doing; blast)+

section \<open>An operating system for examples\<close>

text \<open>
  A world without a state, in which every path is a directory, every file is empty, and every
  socket takes all it is given. It only serves to apply properties to concrete values; the examples
  of the other theories replace the calls that matter to them.
\<close>

definition plain_stat :: stat_t where
  "plain_stat = \<lparr>st_mode = 0, st_nlink = 1, st_uid = 0, st_gid = 0, st_size = 0, st_mtime = 0\<rparr>"

definition plain_posix :: "'w posix" where
  "plain_posix = \<lparr>
     px_stat = (\<lambda>_. ret (Some (plain_stat\<lparr>st_mode := 0x4000\<rparr>))), px_lstat = (\<lambda>_. ret (Some (plain_stat\<lparr>st_mode := 0x4000\<rparr>))),
     px_fstat = (\<lambda>_. ret (Some plain_stat)), px_open = (\<lambda>_ _. ret 3), px_lseek = (\<lambda>_ _. ret True),
     px_read = (\<lambda>_ _. ret (Inr [])), px_write = (\<lambda>_ bs. ret (Inr (length bs))), px_fsync = (\<lambda>_. ret ()),
     px_close = (\<lambda>_. ret ()), px_mkdir = (\<lambda>_. ret None), px_unlink = (\<lambda>_. ret True), px_rmdir = (\<lambda>_. ret True),
     px_rename = (\<lambda>_ _. ret True), px_readdir = (\<lambda>_. ret (Some [])), px_readlink = (\<lambda>_. ret None),
     px_fopen = (\<lambda>_. ret None), px_getaddrinfo = (\<lambda>_ _ _ _. ret (Some [\<lparr>ai_inet6 = False, ai_addr = 0\<rparr>])),
     px_socket = (\<lambda>_. ret 4), px_setsockopt = (\<lambda>_ _ _. ret True), px_bind = (\<lambda>_ _. ret True),
     px_connect = (\<lambda>_ _. ret True), px_listen = (\<lambda>_ _. ret True), px_accept = (\<lambda>_. ret (Inr (5, ''10.0.0.9'', 4000))),
     px_getsockname = (\<lambda>_. ret (Some (''10.0.0.1'', 21))), px_recv = (\<lambda>_ _. ret (Inr [])),
     px_recv_oob = (\<lambda>_ _. ret (Inr [])), px_send = (\<lambda>_ bs. ret (Inr (length bs))), px_shutdown = (\<lambda>_ _. ret True),
     px_getfl = (\<lambda>_. ret (Some 0)), px_setfl = (\<lambda>_ _. ret True), px_select = (\<lambda>_ _ _. ret 1),
     px_sockatmark = (\<lambda>_. ret 0), px_time = ret 0, px_malloc = ret True, px_pthread_create = ret True,
     px_getpwuid = (\<lambda>_. ret None), px_getgrgid = (\<lambda>_. ret None), px_strftime = (\<lambda>_ _ _. []),
     px_stack = 0, px_patience = 8\<rparr>"

end
