(* ===== verification/Filesys.thy ===== *)
theory Filesys
  imports Posix
begin

text \<open>
  \<open>server/src/filesys.c\<close>, its POSIX branch: joining and taking apart paths, and the operations on
  files and directories. A C truth value is a \<open>bool\<close>; \<open>long long\<close> results are \<open>int\<close>, negative
  on failure; a buffer that a call fills is part of the result. The loops around \<open>read\<close> and
  \<open>write\<close> retry as long as they are interrupted: \<open>k\<close> counts what is left of \<open>px_patience\<close>.
\<close>

section \<open>Paths\<close>

definition PATH_MAX :: nat where "PATH_MAX = 4096"
definition MAX_RECURSION_DEPTH :: nat where "MAX_RECURSION_DEPTH = 256"
definition MAX_FILENAME_LEN :: nat where "MAX_FILENAME_LEN = 256"

definition fs_join_path :: "nat \<Rightarrow> string \<Rightarrow> string \<Rightarrow> string option" where
  "fs_join_path dest_size dir name =
     (if dest_size = 0 then None
      else
        (let needs_sep = (length dir > 0 \<and> last dir \<noteq> CHR ''/'');
             actual_name = dropWhile (\<lambda>c. c = CHR ''/'') name;
             text = dir @ (if needs_sep then ''/'' else []) @ actual_name
         in if length text < dest_size then Some text else None))"

definition fs_extract_filename :: "string \<Rightarrow> string" where
  "fs_extract_filename path =
     (if CHR ''/'' \<in> set path then rev (takeWhile (\<lambda>c. c \<noteq> CHR ''/'') (rev path)) else path)"

definition is_sep :: "char \<Rightarrow> bool" where
  "is_sep c \<longleftrightarrow> c = CHR ''/'' \<or> c = CHR 0x5C"

function strip_seps :: "string \<Rightarrow> string" where
  "strip_seps p =
     (if p \<noteq> [] \<and> is_sep (last p) then
        (if length p = 1 \<and> p ! 0 = CHR ''/'' then p
         else if length p = 3 \<and> p ! 1 = CHR '':'' \<and> is_sep (p ! 2) then p
         else strip_seps (butlast p))
      else p)"
  by pat_completeness auto
termination by (relation "measure length") auto

declare strip_seps.simps [simp del]

definition fs_get_parent_directory :: "string \<Rightarrow> nat \<Rightarrow> string option" where
  "fs_get_parent_directory path parent_size =
     (if parent_size = 0 then None
      else if length path \<ge> parent_size then None
      else
        (let parent = strip_seps path
         in if length parent = 0 then None
            else if CHR ''/'' \<notin> set parent then None
            else
              (let head = rev (tl (dropWhile (\<lambda>c. c \<noteq> CHR ''/'') (rev parent)))
               in if head = [] then Some ''/'' else Some head)))"

section \<open>Queries\<close>

definition S_IFMT :: u32 where "S_IFMT = 0xF000"
definition S_ISDIR :: "u32 \<Rightarrow> bool" where "S_ISDIR m \<longleftrightarrow> m AND S_IFMT = 0x4000"
definition S_ISREG :: "u32 \<Rightarrow> bool" where "S_ISREG m \<longleftrightarrow> m AND S_IFMT = 0x8000"
definition S_ISLNK :: "u32 \<Rightarrow> bool" where "S_ISLNK m \<longleftrightarrow> m AND S_IFMT = 0xA000"

definition fs_path_exists :: "'w posix \<Rightarrow> string \<Rightarrow> ('w, 'z, bool) os_m" where
  "fs_path_exists P path = do {
     st \<leftarrow> sys_stat P path;
     ret (st \<noteq> None) }"

definition fs_is_directory :: "'w posix \<Rightarrow> string \<Rightarrow> ('w, 'z, bool) os_m" where
  "fs_is_directory P path = do {
     st \<leftarrow> sys_stat P path;
     ret (case st of None \<Rightarrow> False | Some st \<Rightarrow> S_ISDIR (st_mode st)) }"

definition fs_get_file_size :: "'w posix \<Rightarrow> string \<Rightarrow> ('w, 'z, int) os_m" where
  "fs_get_file_size P path = do {
     st \<leftarrow> sys_stat P path;
     ret (case st of None \<Rightarrow> -1
          | Some st \<Rightarrow> if \<not> S_ISREG (st_mode st) then -1 else st_size st) }"

definition fs_get_file_mtime :: "'w posix \<Rightarrow> string \<Rightarrow> ('w, 'z, int) os_m" where
  "fs_get_file_mtime P path = do {
     st \<leftarrow> sys_stat P path;
     ret (case st of None \<Rightarrow> -1
          | Some st \<Rightarrow> if \<not> S_ISREG (st_mode st) then -1 else st_mtime st) }"

section \<open>Directories\<close>

definition is_dot :: "string \<Rightarrow> bool" where
  "is_dot name \<longleftrightarrow> name = ''.'' \<or> name = ''..''"

text \<open>
  The loop over the entries of one directory; \<open>sub\<close> is the recursive call for a subdirectory.
\<close>

fun dir_size_loop :: "'w posix \<Rightarrow> (string \<Rightarrow> ('w, 'z, int) os_m) \<Rightarrow> string \<Rightarrow> string list \<Rightarrow> int \<Rightarrow> ('w, 'z, int) os_m" where
  "dir_size_loop P sub path [] tot = ret tot"
| "dir_size_loop P sub path (name # names) tot =
     (if is_dot name then dir_size_loop P sub path names tot
      else
        (case fs_join_path PATH_MAX path name of
           None \<Rightarrow> ret (-1)
         | Some childpath \<Rightarrow> do {
             st \<leftarrow> sys_lstat P childpath;
             (case st of
                None \<Rightarrow> ret (-1)
              | Some st \<Rightarrow>
                  if S_ISLNK (st_mode st) then dir_size_loop P sub path names tot
                  else if S_ISDIR (st_mode st) then do {
                    s \<leftarrow> sub childpath;
                    if s < 0 then ret (-1) else dir_size_loop P sub path names (tot + s) }
                  else if S_ISREG (st_mode st) then dir_size_loop P sub path names (tot + st_size st)
                  else dir_size_loop P sub path names tot) }))"

text \<open>
  The second argument of \<open>dir_size_recursive\<close> is the number of levels that the depth limit leaves:
  \<open>MAX_RECURSION_DEPTH + 1 - depth\<close>, so 0 is \<open>depth > MAX_RECURSION_DEPTH\<close>.
\<close>

fun dir_size_recursive :: "'w posix \<Rightarrow> nat \<Rightarrow> string \<Rightarrow> ('w, 'z, int) os_m" where
  "dir_size_recursive P 0 path = ret (-1)"
| "dir_size_recursive P (Suc levels) path = do {
     d \<leftarrow> sys_readdir P path;
     (case d of None \<Rightarrow> ret (-1)
      | Some names \<Rightarrow> dir_size_loop P (dir_size_recursive P levels) path names 0) }"

definition fs_get_directory_size :: "'w posix \<Rightarrow> string \<Rightarrow> ('w, 'z, int) os_m" where
  "fs_get_directory_size P path = do {
     st \<leftarrow> sys_lstat P path;
     (case st of None \<Rightarrow> ret (-1)
      | Some st \<Rightarrow>
          if \<not> S_ISDIR (st_mode st) then ret (-1)
          else dir_size_recursive P (MAX_RECURSION_DEPTH + 1) path) }"

datatype fs_file_type_t = FS_TYPE_UNKNOWN | FS_TYPE_FILE | FS_TYPE_DIR | FS_TYPE_SYMLINK

record fs_file_info_t =
  fi_name :: string
  fi_type :: fs_file_type_t
  fi_size :: int
  fi_last_modified :: int
  fi_mode :: u32
  fi_nlink :: u32
  fi_uid :: u32
  fi_gid :: u32
  fi_link_target :: string

definition file_info :: "string \<Rightarrow> stat_t \<Rightarrow> string \<Rightarrow> fs_file_info_t" where
  "file_info name st target =
     \<lparr>fi_name = strncpy_buf MAX_FILENAME_LEN name,
      fi_type = (if S_ISLNK (st_mode st) then FS_TYPE_SYMLINK
                 else if S_ISDIR (st_mode st) then FS_TYPE_DIR
                 else if S_ISREG (st_mode st) then FS_TYPE_FILE else FS_TYPE_UNKNOWN),
      fi_size = (if S_ISREG (st_mode st) \<or> S_ISLNK (st_mode st) then st_size st else 0),
      fi_last_modified = st_mtime st, fi_mode = st_mode st, fi_nlink = st_nlink st,
      fi_uid = st_uid st, fi_gid = st_gid st, fi_link_target = target\<rparr>"

text \<open>The list under construction stands for \<open>file_list\<close> and \<open>count\<close>, its length.\<close>

fun list_directory_loop ::
  "'w posix \<Rightarrow> string \<Rightarrow> nat \<Rightarrow> string list \<Rightarrow> fs_file_info_t list \<Rightarrow> ('w, 'z, fs_file_info_t list) os_m" where
  "list_directory_loop P path max_files [] files = ret files"
| "list_directory_loop P path max_files (name # names) files =
     (if \<not> length files < max_files then ret files
      else if is_dot name then list_directory_loop P path max_files names files
      else
        (case fs_join_path PATH_MAX path name of
           None \<Rightarrow> list_directory_loop P path max_files names files
         | Some childpath \<Rightarrow> do {
             st \<leftarrow> sys_lstat P childpath;
             (case st of
                None \<Rightarrow> list_directory_loop P path max_files names files
              | Some st \<Rightarrow>
                  if S_ISLNK (st_mode st) then do {
                    t \<leftarrow> sys_readlink P childpath;
                    list_directory_loop P path max_files names (files @ [file_info name st
                      (case t of None \<Rightarrow> [] | Some t \<Rightarrow> cstr (take (MAX_FILENAME_LEN - 1) t))]) }
                  else list_directory_loop P path max_files names (files @ [file_info name st []])) }))"

definition fs_list_directory :: "'w posix \<Rightarrow> string \<Rightarrow> nat \<Rightarrow> ('w, 'z, fs_file_info_t list option) os_m" where
  "fs_list_directory P path max_files =
     (if max_files = 0 then ret None
      else do {
        d \<leftarrow> sys_readdir P path;
        (case d of None \<Rightarrow> ret None
         | Some names \<Rightarrow> do {
             files \<leftarrow> list_directory_loop P path max_files names [];
             ret (Some files) }) })"

definition fs_create_directory :: "'w posix \<Rightarrow> string \<Rightarrow> ('w, 'z, int) os_m" where
  "fs_create_directory P path = do {
     r \<leftarrow> sys_mkdir P path;
     (case r of None \<Rightarrow> ret 0
      | Some err \<Rightarrow>
          if err = EEXIST then do {
            st \<leftarrow> sys_stat P path;
            ret (case st of None \<Rightarrow> -1 | Some st \<Rightarrow> if S_ISDIR (st_mode st) then 0 else -1) }
          else ret (-1)) }"

definition fs_delete_file :: "'w posix \<Rightarrow> string \<Rightarrow> ('w, 'z, int) os_m" where
  "fs_delete_file P path = do {
     ok \<leftarrow> sys_unlink P path;
     ret (if ok then 0 else -1) }"

fun remove_directory_loop :: "'w posix \<Rightarrow> (string \<Rightarrow> ('w, 'z, int) os_m) \<Rightarrow> string \<Rightarrow> string list \<Rightarrow> ('w, 'z, int) os_m" where
  "remove_directory_loop P sub path [] = ret 0"
| "remove_directory_loop P sub path (name # names) =
     (if is_dot name then remove_directory_loop P sub path names
      else
        (case fs_join_path PATH_MAX path name of
           None \<Rightarrow> ret (-1)
         | Some childpath \<Rightarrow> do {
             st \<leftarrow> sys_lstat P childpath;
             (case st of
                None \<Rightarrow> ret (-1)
              | Some st \<Rightarrow>
                  if S_ISLNK (st_mode st) then do {
                    ok \<leftarrow> sys_unlink P childpath;
                    if \<not> ok then ret (-1) else remove_directory_loop P sub path names }
                  else if S_ISDIR (st_mode st) then do {
                    r \<leftarrow> sub childpath;
                    if r \<noteq> 0 then ret (-1)
                    else do {
                      ok \<leftarrow> sys_rmdir P childpath;
                      if \<not> ok then ret (-1) else remove_directory_loop P sub path names } }
                  else do {
                    ok \<leftarrow> sys_unlink P childpath;
                    if \<not> ok then ret (-1) else remove_directory_loop P sub path names }) }))"

fun remove_directory_recursive :: "'w posix \<Rightarrow> nat \<Rightarrow> string \<Rightarrow> ('w, 'z, int) os_m" where
  "remove_directory_recursive P 0 path = ret (-1)"
| "remove_directory_recursive P (Suc levels) path = do {
     d \<leftarrow> sys_readdir P path;
     (case d of None \<Rightarrow> ret (-1)
      | Some names \<Rightarrow> remove_directory_loop P (remove_directory_recursive P levels) path names) }"

definition fs_delete_directory :: "'w posix \<Rightarrow> string \<Rightarrow> bool \<Rightarrow> ('w, 'z, int) os_m" where
  "fs_delete_directory P path force_delete =
     (if \<not> force_delete then do {
        ok \<leftarrow> sys_rmdir P path;
        ret (if ok then 0 else -1) }
      else do {
        r \<leftarrow> remove_directory_recursive P (MAX_RECURSION_DEPTH + 1) path;
        if r \<noteq> 0 then ret (-1)
        else do {
          ok \<leftarrow> sys_rmdir P path;
          ret (if ok then 0 else -1) } })"

definition fs_rename :: "'w posix \<Rightarrow> string \<Rightarrow> string \<Rightarrow> ('w, 'z, int) os_m" where
  "fs_rename P old_path new_path = do {
     ok \<leftarrow> sys_rename P old_path new_path;
     ret (if ok then 0 else -1) }"


section \<open>File contents\<close>

lemma bind_cong_fun [fundef_cong]:
  "m = m' \<Longrightarrow> (\<And>a. f a = f' a) \<Longrightarrow> State_Monad.bind m f = State_Monad.bind m' f'"
  by (auto simp: State_Monad.bind_def fun_eq_iff)

text \<open>
  The reading loop: \<open>want\<close> is \<open>length - total\<close>, \<open>out\<close> the buffer so far. \<open>None\<close> is \<open>total = -1\<close>.
\<close>

function read_loop :: "'w posix \<Rightarrow> int \<Rightarrow> nat \<Rightarrow> nat \<Rightarrow> string \<Rightarrow> ('w, 'z, string option) os_m" where
  "read_loop P fd k want out =
     (if want = 0 then ret (Some out)
      else do {
        r \<leftarrow> sys_read P fd want;
        (case r of
           Inl err \<Rightarrow>
             (if err = EINTR then
                (if k = 0 then do { give_up; ret None } else read_loop P fd (k - 1) want out)
              else ret None)
         | Inr bs \<Rightarrow>
             (if length bs = 0 then ret (Some out)
              else read_loop P fd k (want - length bs) (out @ bs))) })"
  by pat_completeness auto
termination by (relation "measure (\<lambda>(P, fd, k, want, out). k + want)") auto

text \<open>The writing loop: \<open>todo\<close> is what is left of the buffer; a \<open>write\<close> that takes nothing is
  repeated as well.\<close>

function write_loop :: "'w posix \<Rightarrow> int \<Rightarrow> nat \<Rightarrow> string \<Rightarrow> ('w, 'z, bool) os_m" where
  "write_loop P fd k todo =
     (if todo = [] then ret True
      else do {
        r \<leftarrow> sys_write P fd todo;
        (case r of
           Inl err \<Rightarrow>
             (if err = EINTR then
                (if k = 0 then do { give_up; ret False } else write_loop P fd (k - 1) todo)
              else ret False)
         | Inr n \<Rightarrow>
             (if n = 0 then
                (if k = 0 then do { give_up; ret False } else write_loop P fd (k - 1) todo)
              else write_loop P fd k (drop n todo))) })"
  by pat_completeness auto
termination by (relation "measure (\<lambda>(P, fd, k, todo). k + length todo)") auto

declare read_loop.simps [simp del] write_loop.simps [simp del]

definition fs_read_file_all :: "'w posix \<Rightarrow> string \<Rightarrow> nat \<Rightarrow> ('w, 'z, string option) os_m" where
  "fs_read_file_all P path buffer_size =
     (if buffer_size = 0 then ret None
      else do {
        fd \<leftarrow> sys_open P path O_read;
        if fd < 0 then ret None
        else do {
          st \<leftarrow> os (px_fstat P fd);
          (case st of
             None \<Rightarrow> do { sys_close P fd; ret None }
           | Some st \<Rightarrow> do {
               r \<leftarrow> read_loop P fd (px_patience P) (nat (min (st_size st) (int buffer_size))) [];
               sys_close P fd;
               ret r }) } })"

definition fs_write_file_all :: "'w posix \<Rightarrow> string \<Rightarrow> string \<Rightarrow> ('w, 'z, int) os_m" where
  "fs_write_file_all P path buffer = do {
     fd \<leftarrow> sys_open P path O_write_create_trunc;
     if fd < 0 then ret (-1)
     else do {
       ok \<leftarrow> write_loop P fd (px_patience P) buffer;
       os (px_fsync P fd);
       sys_close P fd;
       ret (if ok then int (length buffer) else -1) } }"

definition fs_read_file_chunk :: "'w posix \<Rightarrow> string \<Rightarrow> int \<Rightarrow> nat \<Rightarrow> ('w, 'z, string option) os_m" where
  "fs_read_file_chunk P path offset len =
     (if offset < 0 \<or> len = 0 then ret None
      else do {
        fd \<leftarrow> sys_open P path O_read;
        if fd < 0 then ret None
        else do {
          ok \<leftarrow> sys_lseek P fd offset;
          if \<not> ok then do { sys_close P fd; ret None }
          else do {
            r \<leftarrow> read_loop P fd (px_patience P) len [];
            sys_close P fd;
            ret r } } })"

definition fs_write_file_chunk :: "'w posix \<Rightarrow> string \<Rightarrow> string \<Rightarrow> int \<Rightarrow> ('w, 'z, int) os_m" where
  "fs_write_file_chunk P path buffer offset =
     (if offset < 0 then ret (-1)
      else do {
        fd \<leftarrow> sys_open P path O_write_create;
        if fd < 0 then ret (-1)
        else do {
          ok \<leftarrow> sys_lseek P fd offset;
          if \<not> ok then do { sys_close P fd; ret (-1) }
          else do {
            ok \<leftarrow> write_loop P fd (px_patience P) buffer;
            os (px_fsync P fd);
            sys_close P fd;
            ret (if ok then int (length buffer) else -1) } } })"

section \<open>Effects\<close>

lemma does_queries [doing]:
  "Ev_path Op_stat p \<in> A \<Longrightarrow> does A (fs_path_exists P p)"
  "Ev_path Op_stat p \<in> A \<Longrightarrow> does A (fs_is_directory P p)"
  "Ev_path Op_stat p \<in> A \<Longrightarrow> does A (fs_get_file_size P p)"
  "Ev_path Op_stat p \<in> A \<Longrightarrow> does A (fs_get_file_mtime P p)"
  unfolding fs_path_exists_def fs_is_directory_def fs_get_file_size_def fs_get_file_mtime_def
  by (intro doing; assumption)+

lemma does_changes [doing]:
  "Ev_path Op_mkdir p \<in> A \<Longrightarrow> Ev_path Op_stat p \<in> A \<Longrightarrow> does A (fs_create_directory P p)"
  "Ev_path Op_unlink p \<in> A \<Longrightarrow> does A (fs_delete_file P p)"
  "Ev_path Op_rmdir p \<in> A \<Longrightarrow> does A (fs_delete_directory P p False)"
  "Ev_rename p q \<in> A \<Longrightarrow> does A (fs_rename P p q)"
  unfolding fs_create_directory_def fs_delete_file_def fs_delete_directory_def fs_rename_def if_True simp_thms
  by (intro doing; assumption)+

lemma does_read_loop [doing]: "range (Ev_read fd) \<subseteq> A \<Longrightarrow> does A (read_loop P fd k want out)"
proof (induction P fd k want out rule: read_loop.induct)
  case (1 P fd k want out)
  show ?case
    by (subst read_loop.simps) (intro doing 1; (rule 1(3))?; simp)
qed

lemma does_write_loop [doing]: "range (Ev_write fd) \<subseteq> A \<Longrightarrow> does A (write_loop P fd k todo)"
proof (induction P fd k todo rule: write_loop.induct)
  case (1 P fd k todo)
  show ?case
    by (subst write_loop.simps) (intro doing 1; (rule 1(4))?; simp)
qed

definition file_io :: "os_event set" where
  "file_io = {e. \<exists>fd. e \<in> range (Ev_read fd) \<union> range (Ev_write fd) \<union> range (Ev_seek fd) \<or> e = Ev_close fd}"

lemma file_io_subsets:
  "range (Ev_read fd) \<subseteq> insert x file_io" "range (Ev_write fd) \<subseteq> insert x file_io"
  "Ev_seek fd i \<in> insert x file_io" "Ev_close fd \<in> insert x file_io"
  by (auto simp: file_io_def)

lemma does_chunks:
  "does (insert (Ev_path (Op_open O_read) p) file_io) (fs_read_file_chunk P p off len)"
  "does (insert (Ev_path (Op_open O_write_create) p) file_io) (fs_write_file_chunk P p buf off)"
  unfolding fs_read_file_chunk_def fs_write_file_chunk_def
  by (intro doing file_io_subsets insertI1)+

end
