(* ===== verification/Filesys_Win32.thy ===== *)
theory Filesys_Win32
  imports Filesys
begin

text \<open>
  The Windows branches of \<open>server/src/filesys.c\<close>: every function of the file is written twice,
  and this theory models the text under \<open>#ifdef _WIN32\<close> next to the POSIX text in \<open>Filesys\<close>. The
  calls of the Windows API are the fields of a record of state transformers over the unknown
  world \<open>'w\<close>, as \<open>posix\<close> is for the other branch, and leave their effects in the same trace: a
  query of attributes is \<open>Op_stat\<close>, a deleted file \<open>Op_unlink\<close>, a removed directory \<open>Op_rmdir\<close>, the
  enumeration of a directory \<open>Op_readdir\<close> of the search pattern.
\<close>

section \<open>The interface\<close>

text \<open>\<open>WIN32_FIND_DATAA\<close>, \<open>WIN32_FILE_ATTRIBUTE_DATA\<close> (the same without a name), \<open>SYSTEMTIME\<close> and
  the fields of \<open>struct tm\<close> that the code sets. A \<open>DWORD\<close> is 32 bits wide, a \<open>WORD\<close> 16.\<close>

record file_data =
  dwFileAttributes :: u32
  nFileSizeHigh :: u32
  nFileSizeLow :: u32
  ftHigh :: u32
  ftLow :: u32

record find_data = file_data +
  cFileName :: string

record system_time =
  wYear :: u16
  wMonth :: u16
  wDay :: u16
  wHour :: u16
  wMinute :: u16
  wSecond :: u16

record tm_fields =
  tm_year :: int
  tm_mon :: int
  tm_mday :: int
  tm_hour :: int
  tm_min :: int
  tm_sec :: int
  tm_isdst :: int

text \<open>The ways in which the code calls \<open>CreateFileA\<close>: for no access at all (\<open>Open_query\<close>), to read
  an existing file, to write a file created anew, and to write a file created where missing.\<close>

datatype create_mode = Open_query | Open_existing | Create_always | Open_always

text \<open>
  \<open>w32_find\<close> stands for \<open>FindFirstFileA\<close> and the entries that it and the calls of \<open>FindNextFileA\<close>
  on its handle return: a search that succeeds has a first entry. \<open>w32_create_directory\<close> returns the
  error that \<open>GetLastError\<close> reports. \<open>w32_local_time\<close> is \<open>FileTimeToSystemTime\<close> followed by
  \<open>SystemTimeToTzSpecificLocalTime\<close>, and \<open>w32_mktime\<close> is \<open>mktime\<close>.
\<close>

record 'w win32 =
  w32_attributes :: "string \<Rightarrow> ('w, u32) state"
  w32_attributes_ex :: "string \<Rightarrow> ('w, file_data option) state"
  w32_find :: "string \<Rightarrow> ('w, (find_data \<times> find_data list) option) state"
  w32_create_file :: "string \<Rightarrow> create_mode \<Rightarrow> ('w, int) state"
  w32_link_count :: "int \<Rightarrow> ('w, u32 option) state"
  w32_file_size :: "int \<Rightarrow> ('w, int option) state"
  w32_set_pointer :: "int \<Rightarrow> int \<Rightarrow> ('w, bool) state"
  w32_read_file :: "int \<Rightarrow> nat \<Rightarrow> ('w, string option) state"
  w32_write_file :: "int \<Rightarrow> string \<Rightarrow> ('w, nat option) state"
  w32_flush :: "int \<Rightarrow> ('w, unit) state"
  w32_close_handle :: "int \<Rightarrow> ('w, unit) state"
  w32_create_directory :: "string \<Rightarrow> ('w, u32 option) state"
  w32_delete_file :: "string \<Rightarrow> ('w, bool) state"
  w32_remove_directory :: "string \<Rightarrow> ('w, bool) state"
  w32_move_file :: "string \<Rightarrow> string \<Rightarrow> ('w, bool) state"
  w32_local_time :: "u32 \<Rightarrow> u32 \<Rightarrow> system_time"
  w32_mktime :: "tm_fields \<Rightarrow> int"
  w32_patience :: nat

definition INVALID_HANDLE_VALUE :: int where "INVALID_HANDLE_VALUE = -1"
definition INVALID_FILE_ATTRIBUTES :: u32 where "INVALID_FILE_ATTRIBUTES = 0xFFFFFFFF"
definition FILE_ATTRIBUTE_READONLY :: u32 where "FILE_ATTRIBUTE_READONLY = 0x1"
definition FILE_ATTRIBUTE_DIRECTORY :: u32 where "FILE_ATTRIBUTE_DIRECTORY = 0x10"
definition FILE_ATTRIBUTE_REPARSE_POINT :: u32 where "FILE_ATTRIBUTE_REPARSE_POINT = 0x400"
definition ERROR_ALREADY_EXISTS :: u32 where "ERROR_ALREADY_EXISTS = 183"
definition MAXDWORD :: nat where "MAXDWORD = 0xFFFFFFFF"

definition has_attr :: "u32 \<Rightarrow> u32 \<Rightarrow> bool" where "has_attr a b \<longleftrightarrow> a AND b \<noteq> 0"

section \<open>The calls that leave a trace\<close>

definition win_attributes :: "'w win32 \<Rightarrow> string \<Rightarrow> ('w, 'z, u32) os_m" where
  "win_attributes W path = path_call Op_stat path (w32_attributes W path)"

definition win_attributes_ex :: "'w win32 \<Rightarrow> string \<Rightarrow> ('w, 'z, file_data option) os_m" where
  "win_attributes_ex W path = path_call Op_stat path (w32_attributes_ex W path)"

definition win_find :: "'w win32 \<Rightarrow> string \<Rightarrow> ('w, 'z, (find_data \<times> find_data list) option) os_m" where
  "win_find W pattern = path_call Op_readdir pattern (w32_find W pattern)"

definition create_op :: "create_mode \<Rightarrow> path_op" where
  "create_op k = (case k of Open_query \<Rightarrow> Op_lstat | Open_existing \<Rightarrow> Op_open O_read
     | Create_always \<Rightarrow> Op_open O_write_create_trunc | Open_always \<Rightarrow> Op_open O_write_create)"

definition win_create_file :: "'w win32 \<Rightarrow> string \<Rightarrow> create_mode \<Rightarrow> ('w, 'z, int) os_m" where
  "win_create_file W path k = path_call (create_op k) path (w32_create_file W path k)"

definition win_create_directory :: "'w win32 \<Rightarrow> string \<Rightarrow> ('w, 'z, u32 option) os_m" where
  "win_create_directory W path = path_call Op_mkdir path (w32_create_directory W path)"

definition win_delete_file :: "'w win32 \<Rightarrow> string \<Rightarrow> ('w, 'z, bool) os_m" where
  "win_delete_file W path = path_call Op_unlink path (w32_delete_file W path)"

definition win_remove_directory :: "'w win32 \<Rightarrow> string \<Rightarrow> ('w, 'z, bool) os_m" where
  "win_remove_directory W path = path_call Op_rmdir path (w32_remove_directory W path)"

definition win_move_file :: "'w win32 \<Rightarrow> string \<Rightarrow> string \<Rightarrow> ('w, 'z, bool) os_m" where
  "win_move_file W old new = do { emit (Ev_rename old new); os (w32_move_file W old new) }"

definition win_set_pointer :: "'w win32 \<Rightarrow> int \<Rightarrow> int \<Rightarrow> ('w, 'z, bool) os_m" where
  "win_set_pointer W h off = do { emit (Ev_seek h off); os (w32_set_pointer W h off) }"

definition win_close_handle :: "'w win32 \<Rightarrow> int \<Rightarrow> ('w, 'z, unit) os_m" where
  "win_close_handle W h = do { emit (Ev_close h); os (w32_close_handle W h) }"

text \<open>As on the other branch, no more bytes are transferred than asked for.\<close>

definition win_read_file :: "'w win32 \<Rightarrow> int \<Rightarrow> nat \<Rightarrow> ('w, 'z, string option) os_m" where
  "win_read_file W h n = do {
     r \<leftarrow> os (w32_read_file W h n);
     case r of None \<Rightarrow> ret None
     | Some bs \<Rightarrow> do { emit (Ev_read h (take n bs)); ret (Some (take n bs)) } }"

definition win_write_file :: "'w win32 \<Rightarrow> int \<Rightarrow> string \<Rightarrow> ('w, 'z, nat option) os_m" where
  "win_write_file W h bs = do {
     r \<leftarrow> os (w32_write_file W h bs);
     case r of None \<Rightarrow> ret None
     | Some n \<Rightarrow> do { emit (Ev_write h (take n bs)); ret (Some (min n (length bs))) } }"

section \<open>Paths\<close>

text \<open>\<open>joined_win32\<close> is the text that \<open>snprintf\<close> is asked for.\<close>

definition joined_win32 :: "string \<Rightarrow> string \<Rightarrow> string" where
  "joined_win32 dir name =
     (let needs_sep = (length dir > 0 \<and> last dir \<noteq> CHR 0x5C \<and> last dir \<noteq> CHR ''/'');
          actual_name = dropWhile (\<lambda>c. c = CHR 0x5C \<or> c = CHR ''/'') name
      in dir @ (if needs_sep then [CHR 0x5C] else []) @ actual_name)"

definition fs_join_path_win32 :: "nat \<Rightarrow> string \<Rightarrow> string \<Rightarrow> string option" where
  "fs_join_path_win32 dest_size dir name =
     (if dest_size = 0 then None
      else if length (joined_win32 dir name) < dest_size then Some (joined_win32 dir name) else None)"

text \<open>The rightmost of both separators: \<open>after_last\<close> is what follows it, \<open>upto_last\<close> its index.\<close>

definition after_last :: "(char \<Rightarrow> bool) \<Rightarrow> string \<Rightarrow> string" where
  "after_last sep path = rev (takeWhile (\<lambda>c. \<not> sep c) (rev path))"

definition last_index :: "(char \<Rightarrow> bool) \<Rightarrow> string \<Rightarrow> nat option" where
  "last_index sep path =
     (if \<exists>c\<in>set path. sep c then Some (length path - length (after_last sep path) - 1) else None)"

definition fs_extract_filename_win32 :: "string \<Rightarrow> string" where
  "fs_extract_filename_win32 path =
     (case last_index is_sep path of
        Some i \<Rightarrow> drop (i + 1) path
      | None \<Rightarrow> if length path = 2 \<and> path ! 1 = CHR '':'' then [] else path)"

text \<open>\<open>Overrun\<close> is a write past the end of the caller's buffer, \<open>parent[3]\<close> in a buffer of 3.\<close>

datatype parent_result = Parent string | No_parent | Overrun

definition fs_get_parent_directory_win32 :: "string \<Rightarrow> nat \<Rightarrow> parent_result" where
  "fs_get_parent_directory_win32 path parent_size =
     (if parent_size = 0 then No_parent
      else if length path \<ge> parent_size then No_parent
      else
        (let parent = strip_seps path
         in if length parent = 0 then No_parent
            else
              (case last_index is_sep parent of
                 None \<Rightarrow>
                   if length parent = 2 \<and> parent ! 1 = CHR '':'' then
                     (if parent_size < 4 then Overrun else Parent (parent @ [CHR 0x5C]))
                   else No_parent
               | Some slash \<Rightarrow>
                   if slash = 2 \<and> parent ! 1 = CHR '':'' then Parent (take (slash + 1) parent)
                   else if slash = 0 then Parent (take (slash + 1) parent)
                   else Parent (take slash parent))))"

section \<open>Queries\<close>

definition fs_path_exists_win32 :: "'w win32 \<Rightarrow> string \<Rightarrow> ('w, 'z, bool) os_m" where
  "fs_path_exists_win32 W path = do {
     attr \<leftarrow> win_attributes W path;
     ret (attr \<noteq> INVALID_FILE_ATTRIBUTES) }"

definition fs_is_directory_win32 :: "'w win32 \<Rightarrow> string \<Rightarrow> ('w, 'z, bool) os_m" where
  "fs_is_directory_win32 W path = do {
     attr \<leftarrow> win_attributes W path;
     ret (if attr = INVALID_FILE_ATTRIBUTES then False else has_attr attr FILE_ATTRIBUTE_DIRECTORY) }"

text \<open>\<open>LARGE_INTEGER\<close> and \<open>ULARGE_INTEGER\<close>: the same 64 bits, read with and without a sign.\<close>

definition quad :: "u32 \<Rightarrow> u32 \<Rightarrow> u64" where "quad hi lo = word_cat hi lo"

definition fs_get_file_size_win32 :: "'w win32 \<Rightarrow> string \<Rightarrow> ('w, 'z, int) os_m" where
  "fs_get_file_size_win32 W path = do {
     fileInfo \<leftarrow> win_attributes_ex W path;
     ret (case fileInfo of None \<Rightarrow> -1
          | Some i \<Rightarrow>
              if has_attr (dwFileAttributes i) FILE_ATTRIBUTE_DIRECTORY then -1
              else sint (quad (nFileSizeHigh i) (nFileSizeLow i))) }"

text \<open>From units of 100 nanoseconds since 1601 to seconds since 1970, in 64 bits without a sign.\<close>

definition unix_time :: "u64 \<Rightarrow> int" where
  "unix_time t = sint (t div 10000000 - 11644473600)"

definition fs_get_file_mtime_win32 :: "'w win32 \<Rightarrow> string \<Rightarrow> ('w, 'z, int) os_m" where
  "fs_get_file_mtime_win32 W path = do {
     fileInfo \<leftarrow> win_attributes_ex W path;
     ret (case fileInfo of None \<Rightarrow> -1
          | Some i \<Rightarrow>
              if has_attr (dwFileAttributes i) FILE_ATTRIBUTE_DIRECTORY then -1
              else unix_time (quad (ftHigh i) (ftLow i))) }"

section \<open>Directories\<close>

fun dir_size_loop_win32 ::
  "'w win32 \<Rightarrow> (string \<Rightarrow> ('w, 'z, int) os_m) \<Rightarrow> string \<Rightarrow> find_data list \<Rightarrow> int \<Rightarrow> ('w, 'z, int) os_m" where
  "dir_size_loop_win32 W sub path [] tot = ret tot"
| "dir_size_loop_win32 W sub path (d # ds) tot =
     (if is_dot (cFileName d) then dir_size_loop_win32 W sub path ds tot
      else
        (case fs_join_path_win32 PATH_MAX path (cFileName d) of
           None \<Rightarrow> ret (-1)
         | Some child_path \<Rightarrow>
             if has_attr (dwFileAttributes d) FILE_ATTRIBUTE_REPARSE_POINT then
               dir_size_loop_win32 W sub path ds tot
             else if has_attr (dwFileAttributes d) FILE_ATTRIBUTE_DIRECTORY then do {
               s \<leftarrow> sub child_path;
               if s < 0 then ret (-1) else dir_size_loop_win32 W sub path ds (tot + s) }
             else dir_size_loop_win32 W sub path ds (tot + sint (quad (nFileSizeHigh d) (nFileSizeLow d)))))"

text \<open>As in \<open>Filesys\<close>, the second argument is what the depth limit leaves.\<close>

fun dir_size_recursive_win32 :: "'w win32 \<Rightarrow> nat \<Rightarrow> string \<Rightarrow> ('w, 'z, int) os_m" where
  "dir_size_recursive_win32 W 0 path = ret (-1)"
| "dir_size_recursive_win32 W (Suc levels) path =
     (case fs_join_path_win32 PATH_MAX path ''*'' of
        None \<Rightarrow> ret (-1)
      | Some search_path \<Rightarrow> do {
          r \<leftarrow> win_find W search_path;
          (case r of None \<Rightarrow> ret (-1)
           | Some (d, ds) \<Rightarrow> dir_size_loop_win32 W (dir_size_recursive_win32 W levels) path (d # ds) 0) })"

definition fs_get_directory_size_win32 :: "'w win32 \<Rightarrow> string \<Rightarrow> ('w, 'z, int) os_m" where
  "fs_get_directory_size_win32 W path = do {
     attr \<leftarrow> win_attributes W path;
     if attr = INVALID_FILE_ATTRIBUTES then ret (-1)
     else if \<not> has_attr attr FILE_ATTRIBUTE_DIRECTORY then ret (-1)
     else dir_size_recursive_win32 W (MAX_RECURSION_DEPTH + 1) path }"


text \<open>The permission bits of \<open>filesys.h\<close> for Windows, written there in octal.\<close>

definition S_IFDIR :: u32 where "S_IFDIR = 0x4000"
definition S_IFREG :: u32 where "S_IFREG = 0x8000"
definition S_IFLNK :: u32 where "S_IFLNK = 0xA000"
definition S_IRWXU :: u32 where "S_IRWXU = 0x1C0"
definition S_IRUSR :: u32 where "S_IRUSR = 0x100"
definition S_IWUSR :: u32 where "S_IWUSR = 0x80"
definition S_IXUSR :: u32 where "S_IXUSR = 0x40"
definition S_IRWXG :: u32 where "S_IRWXG = 0x38"
definition S_IRGRP :: u32 where "S_IRGRP = 0x20"
definition S_IXGRP :: u32 where "S_IXGRP = 0x8"
definition S_IRWXO :: u32 where "S_IRWXO = 0x7"
definition S_IROTH :: u32 where "S_IROTH = 0x4"
definition S_IXOTH :: u32 where "S_IXOTH = 0x1"

definition entry_type :: "find_data \<Rightarrow> fs_file_type_t" where
  "entry_type d =
     (if has_attr (dwFileAttributes d) FILE_ATTRIBUTE_REPARSE_POINT then FS_TYPE_SYMLINK
      else if has_attr (dwFileAttributes d) FILE_ATTRIBUTE_DIRECTORY then FS_TYPE_DIR
      else FS_TYPE_FILE)"

text \<open>\<open>strrchr\<close> of a dot, and \<open>_stricmp\<close> as a comparison of the upper-case names.\<close>

definition executable_name :: "string \<Rightarrow> bool" where
  "executable_name name \<longleftrightarrow>
     CHR ''.'' \<in> set name \<and>
     List.map toupper (after_last (\<lambda>c. c = CHR ''.'') name) \<in> {''EXE'', ''BAT'', ''CMD'', ''COM''}"

definition entry_mode :: "find_data \<Rightarrow> u32" where
  "entry_mode d =
     (case entry_type d of
        FS_TYPE_DIR \<Rightarrow>
          (let mode = S_IFDIR OR S_IRUSR OR S_IXUSR OR S_IRGRP OR S_IXGRP OR S_IROTH OR S_IXOTH
           in if \<not> has_attr (dwFileAttributes d) FILE_ATTRIBUTE_READONLY then mode OR S_IWUSR else mode)
      | FS_TYPE_FILE \<Rightarrow>
          (let mode = S_IFREG OR S_IRUSR OR S_IRGRP OR S_IROTH;
               mode = (if \<not> has_attr (dwFileAttributes d) FILE_ATTRIBUTE_READONLY then mode OR S_IWUSR else mode)
           in if executable_name (cFileName d) then mode OR (S_IXUSR OR S_IXGRP OR S_IXOTH) else mode)
      | FS_TYPE_SYMLINK \<Rightarrow> S_IFLNK OR S_IRWXU OR S_IRWXG OR S_IRWXO
      | FS_TYPE_UNKNOWN \<Rightarrow> 0)"

definition local_tm :: "system_time \<Rightarrow> tm_fields" where
  "local_tm st =
     \<lparr>tm_year = int (unat (wYear st)) - 1900, tm_mon = int (unat (wMonth st)) - 1, tm_mday = int (unat (wDay st)),
      tm_hour = int (unat (wHour st)), tm_min = int (unat (wMinute st)), tm_sec = int (unat (wSecond st)),
      tm_isdst = -1\<rparr>"

text \<open>
  The number of links is that of the file found under the joined name, of which the code keeps
  what fits into its buffer: it does not look at the result of \<open>fs_join_path\<close>.
\<close>

definition link_count_win32 :: "'w win32 \<Rightarrow> string \<Rightarrow> ('w, 'z, u32) os_m" where
  "link_count_win32 W child_path = do {
     hFile \<leftarrow> win_create_file W child_path Open_query;
     if hFile \<noteq> INVALID_HANDLE_VALUE then do {
       n \<leftarrow> os (w32_link_count W hFile);
       win_close_handle W hFile;
       ret (case n of None \<Rightarrow> 1 | Some n \<Rightarrow> n) }
     else ret 1 }"

definition file_info_win32 :: "'w win32 \<Rightarrow> find_data \<Rightarrow> u32 \<Rightarrow> fs_file_info_t" where
  "file_info_win32 W d nlink =
     \<lparr>fi_name = strncpy_buf MAX_FILENAME_LEN (cFileName d),
      fi_type = entry_type d,
      fi_size = (if entry_type d = FS_TYPE_FILE \<or> entry_type d = FS_TYPE_SYMLINK
                 then sint (quad (nFileSizeHigh d) (nFileSizeLow d)) else 0),
      fi_last_modified = w32_mktime W (local_tm (w32_local_time W (ftHigh d) (ftLow d))),
      fi_mode = entry_mode d, fi_nlink = nlink, fi_uid = 1000, fi_gid = 1000, fi_link_target = []\<rparr>"

fun list_directory_loop_win32 ::
  "'w win32 \<Rightarrow> string \<Rightarrow> nat \<Rightarrow> find_data list \<Rightarrow> fs_file_info_t list \<Rightarrow> ('w, 'z, fs_file_info_t list) os_m" where
  "list_directory_loop_win32 W path max_files [] files = ret files"
| "list_directory_loop_win32 W path max_files (d # ds) files =
     (if is_dot (cFileName d) then list_directory_loop_win32 W path max_files ds files
      else if length files \<ge> max_files then ret files
      else do {
        nlink \<leftarrow> link_count_win32 W (snprintf_buf PATH_MAX (joined_win32 path (cFileName d)));
        list_directory_loop_win32 W path max_files ds (files @ [file_info_win32 W d nlink]) })"

definition fs_list_directory_win32 :: "'w win32 \<Rightarrow> string \<Rightarrow> nat \<Rightarrow> ('w, 'z, fs_file_info_t list option) os_m" where
  "fs_list_directory_win32 W path max_files =
     (if max_files = 0 then ret None
      else
        (case fs_join_path_win32 PATH_MAX path ''*'' of
           None \<Rightarrow> ret None
         | Some search_path \<Rightarrow> do {
             r \<leftarrow> win_find W search_path;
             (case r of None \<Rightarrow> ret None
              | Some (d, ds) \<Rightarrow> do {
                  files \<leftarrow> list_directory_loop_win32 W path max_files (d # ds) [];
                  ret (Some files) }) }))"

definition fs_create_directory_win32 :: "'w win32 \<Rightarrow> string \<Rightarrow> ('w, 'z, int) os_m" where
  "fs_create_directory_win32 W path = do {
     r \<leftarrow> win_create_directory W path;
     (case r of None \<Rightarrow> ret 0
      | Some error \<Rightarrow>
          if error = ERROR_ALREADY_EXISTS then do {
            attr \<leftarrow> win_attributes W path;
            ret (if attr \<noteq> INVALID_FILE_ATTRIBUTES \<and> has_attr attr FILE_ATTRIBUTE_DIRECTORY then 0 else -1) }
          else ret (-1)) }"

definition fs_delete_file_win32 :: "'w win32 \<Rightarrow> string \<Rightarrow> ('w, 'z, int) os_m" where
  "fs_delete_file_win32 W path = do {
     ok \<leftarrow> win_delete_file W path;
     ret (if ok then 0 else -1) }"

fun remove_directory_loop_win32 ::
  "'w win32 \<Rightarrow> (string \<Rightarrow> ('w, 'z, int) os_m) \<Rightarrow> string \<Rightarrow> find_data list \<Rightarrow> ('w, 'z, int) os_m" where
  "remove_directory_loop_win32 W sub path [] = ret 0"
| "remove_directory_loop_win32 W sub path (d # ds) =
     (if is_dot (cFileName d) then remove_directory_loop_win32 W sub path ds
      else
        (case fs_join_path_win32 PATH_MAX path (cFileName d) of
           None \<Rightarrow> ret (-1)
         | Some child_path \<Rightarrow>
             if has_attr (dwFileAttributes d) FILE_ATTRIBUTE_REPARSE_POINT then
               (if has_attr (dwFileAttributes d) FILE_ATTRIBUTE_DIRECTORY then do {
                  ok \<leftarrow> win_remove_directory W child_path;
                  if \<not> ok then ret (-1) else remove_directory_loop_win32 W sub path ds }
                else do {
                  ok \<leftarrow> win_delete_file W child_path;
                  if \<not> ok then ret (-1) else remove_directory_loop_win32 W sub path ds })
             else if has_attr (dwFileAttributes d) FILE_ATTRIBUTE_DIRECTORY then do {
               r \<leftarrow> sub child_path;
               if r \<noteq> 0 then ret (-1)
               else do {
                 ok \<leftarrow> win_remove_directory W child_path;
                 if \<not> ok then ret (-1) else remove_directory_loop_win32 W sub path ds } }
             else do {
               ok \<leftarrow> win_delete_file W child_path;
               if \<not> ok then ret (-1) else remove_directory_loop_win32 W sub path ds }))"

fun remove_directory_recursive_win32 :: "'w win32 \<Rightarrow> nat \<Rightarrow> string \<Rightarrow> ('w, 'z, int) os_m" where
  "remove_directory_recursive_win32 W 0 path = ret (-1)"
| "remove_directory_recursive_win32 W (Suc levels) path =
     (case fs_join_path_win32 PATH_MAX path ''*'' of
        None \<Rightarrow> ret (-1)
      | Some search_path \<Rightarrow> do {
          r \<leftarrow> win_find W search_path;
          (case r of None \<Rightarrow> ret (-1)
           | Some (d, ds) \<Rightarrow>
               remove_directory_loop_win32 W (remove_directory_recursive_win32 W levels) path (d # ds)) })"

definition fs_delete_directory_win32 :: "'w win32 \<Rightarrow> string \<Rightarrow> bool \<Rightarrow> ('w, 'z, int) os_m" where
  "fs_delete_directory_win32 W path force_delete =
     (if \<not> force_delete then do {
        ok \<leftarrow> win_remove_directory W path;
        ret (if ok then 0 else -1) }
      else do {
        r \<leftarrow> remove_directory_recursive_win32 W (MAX_RECURSION_DEPTH + 1) path;
        if r \<noteq> 0 then ret (-1)
        else do {
          ok \<leftarrow> win_remove_directory W path;
          ret (if ok then 0 else -1) } })"

definition fs_rename_win32 :: "'w win32 \<Rightarrow> string \<Rightarrow> string \<Rightarrow> ('w, 'z, int) os_m" where
  "fs_rename_win32 W old_path new_path = do {
     ok \<leftarrow> win_move_file W old_path new_path;
     ret (if ok then 0 else -1) }"

section \<open>File contents\<close>

text \<open>
  A call takes at most \<open>MAXDWORD\<close> bytes. Nothing is interrupted here, so the reading loop ends by
  itself; a \<open>WriteFile\<close> that succeeds and writes nothing is repeated, \<open>k\<close> times at most.
\<close>

function read_loop_win32 :: "'w win32 \<Rightarrow> int \<Rightarrow> nat \<Rightarrow> string \<Rightarrow> ('w, 'z, string option) os_m" where
  "read_loop_win32 W h want out =
     (if want = 0 then ret (Some out)
      else do {
        r \<leftarrow> win_read_file W h (if want > MAXDWORD then MAXDWORD else want);
        (case r of
           None \<Rightarrow> ret None
         | Some bs \<Rightarrow>
             if length bs = 0 then ret (Some out)
             else read_loop_win32 W h (want - length bs) (out @ bs)) })"
  by pat_completeness auto
termination by (relation "measure (\<lambda>(W, h, want, out). want)") auto

function write_loop_win32 :: "'w win32 \<Rightarrow> int \<Rightarrow> nat \<Rightarrow> string \<Rightarrow> ('w, 'z, bool) os_m" where
  "write_loop_win32 W h k todo =
     (if todo = [] then ret True
      else do {
        r \<leftarrow> win_write_file W h (take MAXDWORD todo);
        (case r of
           None \<Rightarrow> ret False
         | Some n \<Rightarrow>
             if n = 0 then
               (if k = 0 then do { give_up; ret False } else write_loop_win32 W h (k - 1) todo)
             else write_loop_win32 W h k (drop n todo)) })"
  by pat_completeness auto
termination by (relation "measure (\<lambda>(W, h, k, todo). k + length todo)") auto

declare read_loop_win32.simps [simp del] write_loop_win32.simps [simp del]

definition fs_read_file_all_win32 :: "'w win32 \<Rightarrow> string \<Rightarrow> nat \<Rightarrow> ('w, 'z, string option) os_m" where
  "fs_read_file_all_win32 W path buffer_size =
     (if buffer_size = 0 then ret None
      else do {
        hFile \<leftarrow> win_create_file W path Open_existing;
        if hFile = INVALID_HANDLE_VALUE then ret None
        else do {
          file_size \<leftarrow> os (w32_file_size W hFile);
          (case file_size of
             None \<Rightarrow> do { win_close_handle W hFile; ret None }
           | Some n \<Rightarrow> do {
               r \<leftarrow> read_loop_win32 W hFile (nat (min n (int buffer_size))) [];
               win_close_handle W hFile;
               ret r }) } })"

text \<open>The writers flush the file only when all of it has been written.\<close>

definition fs_write_file_all_win32 :: "'w win32 \<Rightarrow> string \<Rightarrow> string \<Rightarrow> ('w, 'z, int) os_m" where
  "fs_write_file_all_win32 W path buffer = do {
     hFile \<leftarrow> win_create_file W path Create_always;
     if hFile = INVALID_HANDLE_VALUE then ret (-1)
     else do {
       ok \<leftarrow> write_loop_win32 W hFile (w32_patience W) buffer;
       if \<not> ok then do { win_close_handle W hFile; ret (-1) }
       else do {
         os (w32_flush W hFile);
         win_close_handle W hFile;
         ret (int (length buffer)) } } }"

definition fs_read_file_chunk_win32 :: "'w win32 \<Rightarrow> string \<Rightarrow> int \<Rightarrow> nat \<Rightarrow> ('w, 'z, string option) os_m" where
  "fs_read_file_chunk_win32 W path offset len =
     (if offset < 0 \<or> len = 0 then ret None
      else do {
        hFile \<leftarrow> win_create_file W path Open_existing;
        if hFile = INVALID_HANDLE_VALUE then ret None
        else do {
          ok \<leftarrow> win_set_pointer W hFile offset;
          if \<not> ok then do { win_close_handle W hFile; ret None }
          else do {
            r \<leftarrow> read_loop_win32 W hFile len [];
            win_close_handle W hFile;
            ret r } } })"

definition fs_write_file_chunk_win32 :: "'w win32 \<Rightarrow> string \<Rightarrow> string \<Rightarrow> int \<Rightarrow> ('w, 'z, int) os_m" where
  "fs_write_file_chunk_win32 W path buffer offset =
     (if offset < 0 then ret (-1)
      else do {
        hFile \<leftarrow> win_create_file W path Open_always;
        if hFile = INVALID_HANDLE_VALUE then ret (-1)
        else do {
          ok \<leftarrow> win_set_pointer W hFile offset;
          if \<not> ok then do { win_close_handle W hFile; ret (-1) }
          else do {
            ok \<leftarrow> write_loop_win32 W hFile (w32_patience W) buffer;
            if \<not> ok then do { win_close_handle W hFile; ret (-1) }
            else do {
              os (w32_flush W hFile);
              win_close_handle W hFile;
              ret (int (length buffer)) } } } })"


section \<open>Times, modes and effects\<close>

lemma unix_time_exact: "unix_time t = uint t div 10000000 - 11644473600"
proof -
  have "uint t < 2 ^ 64" using uint_lt2p [of t] by simp
  then have r: "uint t div 10000000 < 2 ^ 63" "0 \<le> uint t div 10000000"
    by (auto simp: pos_imp_zdiv_nonneg_iff)
  have "t div 10000000 = word_of_int (uint t div 10000000)"
    by (simp add: word_div_def)
  then have "t div 10000000 - 11644473600 = (word_of_int (uint t div 10000000 - 11644473600) :: u64)"
    by simp
  then have "unix_time t = signed_take_bit 63 (uint t div 10000000 - 11644473600)"
    unfolding unix_time_def by (simp only: sint_sbintrunc') simp
  then show ?thesis using r by (simp add: signed_take_bit_int_eq_self)
qed

lemma entry_mode_bits:
  "S_ISDIR (entry_mode d) \<longleftrightarrow> entry_type d = FS_TYPE_DIR"
  "S_ISREG (entry_mode d) \<longleftrightarrow> entry_type d = FS_TYPE_FILE"
  "S_ISLNK (entry_mode d) \<longleftrightarrow> entry_type d = FS_TYPE_SYMLINK"
  unfolding S_ISDIR_def S_ISREG_def S_ISLNK_def S_IFMT_def entry_mode_def Let_def
    S_IFDIR_def S_IFREG_def S_IFLNK_def S_IRWXU_def S_IRUSR_def S_IWUSR_def S_IXUSR_def S_IRWXG_def
    S_IRGRP_def S_IXGRP_def S_IRWXO_def S_IROTH_def S_IXOTH_def entry_type_def
  by (simp_all split: fs_file_type_t.split)

text \<open>A Windows system for examples, as \<open>plain_posix\<close> is for the other branch.\<close>

definition plain_win32 :: "'w win32" where
  "plain_win32 =
     \<lparr>w32_attributes = (\<lambda>_. ret FILE_ATTRIBUTE_DIRECTORY), w32_attributes_ex = (\<lambda>_. ret None), w32_find = (\<lambda>_. ret None),
      w32_create_file = (\<lambda>_ _. ret 3), w32_link_count = (\<lambda>_. ret None), w32_file_size = (\<lambda>_. ret (Some 0)),
      w32_set_pointer = (\<lambda>_ _. ret True), w32_read_file = (\<lambda>_ _. ret (Some [])),
      w32_write_file = (\<lambda>_ bs. ret (Some (length bs))), w32_flush = (\<lambda>_. ret ()), w32_close_handle = (\<lambda>_. ret ()),
      w32_create_directory = (\<lambda>_. ret None), w32_delete_file = (\<lambda>_. ret True), w32_remove_directory = (\<lambda>_. ret True),
      w32_move_file = (\<lambda>_ _. ret True),
      w32_local_time = (\<lambda>_ _. \<lparr>wYear = 1970, wMonth = 1, wDay = 1, wHour = 0, wMinute = 0, wSecond = 0\<rparr>),
      w32_mktime = (\<lambda>_. 0), w32_patience = 8\<rparr>"

end
