(* ===== verification/Paths.thy ===== *)
theory Paths
  imports Filesys_Win32
begin

text \<open>
  The path functions of \<open>filesys.c\<close> of both branches against one contract. \<open>path_syntax\<close> is what
  a join of a directory and a name and a split at the last separator promise each other, for
  any set of separators; it is interpreted on the POSIX functions and on the Windows ones. A
  \<open>component\<close> is a name that a directory can hold: not empty and without a separator.
\<close>

section \<open>The last separator\<close>

definition component :: "(char \<Rightarrow> bool) \<Rightarrow> string \<Rightarrow> bool" where
  "component sep n \<longleftrightarrow> n \<noteq> [] \<and> (\<forall>c\<in>set n. \<not> sep c)"

lemma after_last_append: "\<forall>c\<in>set n. \<not> sep c \<Longrightarrow> sep c \<Longrightarrow> after_last sep (d @ c # n) = n"
  by (simp add: after_last_def takeWhile_append)

lemma last_index_append: "\<forall>c\<in>set n. \<not> sep c \<Longrightarrow> sep c \<Longrightarrow> last_index sep (d @ c # n) = Some (length d)"
  by (auto simp: last_index_def after_last_append)

lemma dropWhile_component: "component sep n \<Longrightarrow> dropWhile sep n = n"
  by (cases n) (auto simp: component_def)

text \<open>The directory part of a path: what precedes the last separator.\<close>

lemma before_last: "\<forall>c\<in>set n. \<not> sep c \<Longrightarrow> sep c \<Longrightarrow> rev (tl (dropWhile (\<lambda>c. \<not> sep c) (rev (d @ c # n)))) = d"
  by (simp add: dropWhile_append)

section \<open>The contract of a path syntax\<close>

text \<open>
  \<open>slashed sep c d\<close> is the directory \<open>d\<close> ready for a name, with a separator \<open>c\<close> where it has none.
  A join never leaves the directory, and two names of a directory never share a path.
\<close>

definition slashed :: "(char \<Rightarrow> bool) \<Rightarrow> char \<Rightarrow> string \<Rightarrow> string" where
  "slashed sep c d = (if d \<noteq> [] \<and> \<not> sep (last d) then d @ [c] else d)"

locale path_syntax =
  fixes sep :: "char \<Rightarrow> bool"
    and sep_char :: char
    and joined :: "string \<Rightarrow> string \<Rightarrow> string"
    and filename :: "string \<Rightarrow> string"
  assumes sep_char: "sep sep_char"
    and joined: "joined d n = d @ (if d \<noteq> [] \<and> \<not> sep (last d) then [sep_char] else []) @ dropWhile sep n"
    and filename: "\<exists>c\<in>set p. sep c \<Longrightarrow> filename p = after_last sep p"
begin

lemma joined_folder: "joined d n = slashed sep sep_char d @ dropWhile sep n"
  by (simp add: joined slashed_def)

lemma joined_component: "component sep n \<Longrightarrow> joined d n = slashed sep sep_char d @ n"
  by (simp add: joined_folder dropWhile_component)

lemma folder_idem [simp]: "slashed sep sep_char (slashed sep sep_char d) = slashed sep sep_char d"
  by (simp add: slashed_def sep_char)

lemma folder_ends: "d \<noteq> [] \<Longrightarrow> \<exists>e c. slashed sep sep_char d = e @ [c] \<and> sep c"
proof (cases "sep (last d)")
  case True
  moreover assume "d \<noteq> []"
  ultimately show ?thesis by (intro exI [of _ "butlast d"] exI [of _ "last d"]) (simp add: slashed_def)
qed (simp add: slashed_def sep_char)

lemma filename_joined:
  assumes "d \<noteq> []" "component sep n"
  shows "filename (joined d n) = n"
proof -
  obtain e c where e: "slashed sep sep_char d = e @ [c]" "sep c" using folder_ends [OF assms(1)] by blast
  then have "joined d n = e @ c # n" by (simp add: joined_component assms(2))
  then show ?thesis using filename [of "e @ c # n"] e assms(2) by (simp add: after_last_append component_def)
qed

lemma joined_inject: "component sep n \<Longrightarrow> component sep m \<Longrightarrow> joined d n = joined d m \<longleftrightarrow> n = m"
  by (simp add: joined_component)

lemma folder_component: "component sep n \<Longrightarrow> slashed sep sep_char (slashed sep sep_char d @ n) = slashed sep sep_char d @ n @ [sep_char]"
  by (auto simp: slashed_def component_def)

text \<open>What lies below one name never lies below, or is, another.\<close>

lemma apart:
  assumes n: "component sep n" and m: "component sep m" and ne: "n \<noteq> m"
  shows "slashed sep sep_char (joined d n) @ x \<noteq> joined d m" and "slashed sep sep_char (joined d n) @ x \<noteq> slashed sep sep_char (joined d m) @ y"
proof -
  have "(n @ [sep_char]) @ x \<noteq> m"
  proof
    assume "(n @ [sep_char]) @ x = m"
    then have "sep_char \<in> set m" by auto
    then show False using m sep_char by (auto simp: component_def)
  qed
  then show "slashed sep sep_char (joined d n) @ x \<noteq> joined d m"
    by (simp add: joined_component n m folder_component)
  have "(n @ [sep_char]) @ x \<noteq> (m @ [sep_char]) @ y"
  proof
    assume eq: "(n @ [sep_char]) @ x = (m @ [sep_char]) @ y"
    then have "takeWhile (\<lambda>c. \<not> sep c) (n @ sep_char # x) = takeWhile (\<lambda>c. \<not> sep c) (m @ sep_char # y)" by simp
    then show False using n m ne sep_char by (simp add: component_def takeWhile_append)
  qed
  then show "slashed sep sep_char (joined d n) @ x \<noteq> slashed sep sep_char (joined d m) @ y"
    by (simp add: joined_component n m folder_component)
qed

end

section \<open>Both branches satisfy it\<close>

definition posix_sep :: "char \<Rightarrow> bool" where "posix_sep c \<longleftrightarrow> c = CHR ''/''"

definition joined_posix :: "string \<Rightarrow> string \<Rightarrow> string" where
  "joined_posix d n = d @ (if d \<noteq> [] \<and> last d \<noteq> CHR ''/'' then ''/'' else []) @ dropWhile (\<lambda>c. c = CHR ''/'') n"

lemma fs_join_path_joined:
  "fs_join_path sz d n = (if length (joined_posix d n) < sz then Some (joined_posix d n) else None)"
  by (auto simp: fs_join_path_def joined_posix_def Let_def)

lemma fs_join_path_win32_joined:
  "fs_join_path_win32 sz d n = (if length (joined_win32 d n) < sz then Some (joined_win32 d n) else None)"
  by (auto simp: fs_join_path_win32_def)

interpretation px: path_syntax posix_sep "CHR ''/''" joined_posix fs_extract_filename
proof
  show "posix_sep (CHR ''/'')" by (simp add: posix_sep_def)
  show "joined_posix d n = d @ (if d \<noteq> [] \<and> \<not> posix_sep (last d) then [CHR ''/''] else []) @ dropWhile posix_sep n" for d n
    by (simp add: joined_posix_def posix_sep_def [abs_def])
  show "\<exists>c\<in>set p. posix_sep c \<Longrightarrow> fs_extract_filename p = after_last posix_sep p" for p
    by (auto simp: fs_extract_filename_def after_last_def posix_sep_def [abs_def])
qed

lemma after_last_index:
  assumes "\<exists>c\<in>set p. sep c"
  shows "\<exists>i. last_index sep p = Some i \<and> drop (i + 1) p = after_last sep p"
proof -
  have split: "p = rev (dropWhile (\<lambda>c. \<not> sep c) (rev p)) @ after_last sep p"
    by (metis after_last_def rev_append rev_rev_ident takeWhile_dropWhile_id)
  have "length p - length (after_last sep p) \<ge> 1"
    using assms by (subst split) (simp add: Suc_le_eq dropWhile_eq_Nil_conv)
  then have "Suc (length p - Suc (length (after_last sep p))) = length p - length (after_last sep p)" by arith
  moreover have "drop (length p - length (after_last sep p)) p = after_last sep p"
    by (subst (2) split, subst (1) split) simp
  ultimately show ?thesis using assms by (simp add: last_index_def)
qed

interpretation win: path_syntax is_sep "CHR 0x5C" joined_win32 fs_extract_filename_win32
proof
  show "is_sep (CHR 0x5C)" by (simp add: is_sep_def)
  show "joined_win32 d n = d @ (if d \<noteq> [] \<and> \<not> is_sep (last d) then [CHR 0x5C] else []) @ dropWhile is_sep n" for d n
    by (auto simp: joined_win32_def is_sep_def [abs_def] Let_def disj_commute)
  show "\<exists>c\<in>set p. is_sep c \<Longrightarrow> fs_extract_filename_win32 p = after_last is_sep p" for p
    using after_last_index [of p is_sep] by (auto simp: fs_extract_filename_win32_def)
qed


section \<open>Round trips\<close>

text \<open>\<open>strip_seps\<close> takes trailing separators off, of either kind in both branches.\<close>

lemma strip_seps_component: "n \<noteq> [] \<Longrightarrow> \<not> is_sep (last n) \<Longrightarrow> strip_seps (d @ n) = d @ n"
  by (subst strip_seps.simps) simp

lemma parent_joined:
  assumes d: "d \<noteq> []" "last d \<noteq> CHR ''/'' \<or> d = ''/''" and n: "component is_sep n"
    and sz: "length (joined_posix d n) < sz"
  shows "fs_get_parent_directory (joined_posix d n) sz = Some d"
proof -
  define e where "e = (if d = ''/'' then [] else d)"
  have c: "component posix_sep n" using n by (auto simp: component_def is_sep_def posix_sep_def)
  have p: "joined_posix d n = e @ CHR ''/'' # n"
    using d unfolding px.joined_component [OF c] by (cases "d = ''/''") (simp_all add: slashed_def posix_sep_def e_def)
  have "strip_seps (joined_posix d n) = joined_posix d n"
    using strip_seps_component [of n "e @ ''/''"] n by (simp add: p component_def)
  moreover have "rev (tl (dropWhile (\<lambda>c. c \<noteq> CHR ''/'') (rev (e @ CHR ''/'' # n)))) = e"
    using before_last [of n posix_sep "CHR ''/''" e] c by (simp add: posix_sep_def component_def)
  ultimately have "fs_get_parent_directory (joined_posix d n) sz = (if e = [] then Some ''/'' else Some e)"
    using sz by (simp add: fs_get_parent_directory_def Let_def p)
  then show ?thesis using d(1) by (cases "d = ''/''") (simp_all add: e_def)
qed

text \<open>
  C29: joining and taking apart are inverse to each other (POSIX). When a name without separators is
  joined to a directory in normal form (no trailing slash, or the root), the file name of the
  result is the name and its parent is the directory, in every buffer that holds the path.
\<close>

theorem path_roundtrip:
  assumes "component is_sep n" "d \<noteq> []" "last d \<noteq> CHR ''/'' \<or> d = ''/''" "fs_join_path sz d n = Some p"
  shows "fs_extract_filename p = n \<and> fs_get_parent_directory p sz = Some d"
proof -
  have p: "p = joined_posix d n" "length (joined_posix d n) < sz"
    using assms(4) by (auto simp: fs_join_path_joined split: if_splits)
  have "component posix_sep n" using assms(1) by (auto simp: component_def is_sep_def posix_sep_def)
  then show ?thesis using assms(1-3) p by (simp add: px.filename_joined parent_joined)
qed

lemma path_roundtrip_witness:
  "fs_join_path PATH_MAX ''/srv/ftp'' ''a.txt'' = Some ''/srv/ftp/a.txt'' \<and>
   fs_extract_filename ''/srv/ftp/a.txt'' = ''a.txt'' \<and>
   fs_get_parent_directory ''/srv/ftp/a.txt'' PATH_MAX = Some ''/srv/ftp''"
proof -
  have j: "fs_join_path PATH_MAX ''/srv/ftp'' ''a.txt'' = Some ''/srv/ftp/a.txt''" by code_simp
  have "component is_sep ''a.txt''" by (simp add: component_def is_sep_def)
  from path_roundtrip [OF this _ _ j] j show ?thesis by simp
qed

lemma strip_seps_drive: "strip_seps [a, CHR '':''] = [a, CHR '':'']"
  by (subst strip_seps.simps) (simp add: is_sep_def)

text \<open>
  On Windows the root of a drive keeps its separator, and so does a path that is a drive without
  one; otherwise the parent of a joined path is the directory.
\<close>

lemma last_index_joined:
  assumes "component is_sep n" "d \<noteq> []"
  shows "last_index is_sep (joined_win32 d n) = Some (length d - (if is_sep (last d) then 1 else 0))"
proof (cases "is_sep (last d)")
  case True
  then have "joined_win32 d n = butlast d @ last d # n"
    using assms by (simp add: win.joined_component slashed_def)
  then show ?thesis using True assms by (simp add: last_index_append component_def)
next
  case False
  then have "joined_win32 d n = d @ CHR 0x5C # n"
    using assms by (simp add: win.joined_component slashed_def)
  then show ?thesis using False assms by (simp add: last_index_append component_def win.sep_char)
qed

lemma strip_seps_joined: "component is_sep n \<Longrightarrow> strip_seps (joined_win32 d n) = joined_win32 d n"
  using strip_seps_component [of n "slashed is_sep (CHR 0x5C) d"]
  by (simp add: win.joined_component component_def)

text \<open>
  The same on Windows, for both kinds of separators: the parent of a joined path is the directory
  again, except that the bare drive \<open>C:\<close> comes back as the root of the drive.
\<close>

theorem path_roundtrip_win32:
  assumes "component is_sep n" "d \<noteq> []" "\<not> is_sep (last d) \<or> length d = 1 \<or> (length d = 3 \<and> d ! 1 = CHR '':'')"
    "fs_join_path_win32 sz d n = Some p"
  shows "fs_extract_filename_win32 p = n \<and>
    fs_get_parent_directory_win32 p sz =
      Parent (if length d = 2 \<and> d ! 1 = CHR '':'' \<and> \<not> is_sep (last d) then d @ [CHR 0x5C] else d)"
proof -
  have p: "p = joined_win32 d n" "length (joined_win32 d n) < sz"
    using assms(4) by (auto simp: fs_join_path_win32_joined split: if_splits)
  have eq: "joined_win32 d n = slashed is_sep (CHR 0x5C) d @ n" "n \<noteq> []"
    using assms(1) by (simp_all add: win.joined_component component_def)
  have parent: "fs_get_parent_directory_win32 p sz =
      (let i = length d - (if is_sep (last d) then 1 else 0)
       in Parent (if i = 2 \<and> p ! 1 = CHR '':'' then take (i + 1) p
          else if i = 0 then take (i + 1) p else take i p))"
    using p eq strip_seps_joined [OF assms(1), of d] last_index_joined [OF assms(1,2)]
    by (simp add: fs_get_parent_directory_win32_def Let_def)
  have "p ! 1 = d ! 1" if "length d \<ge> 2"
    using that p eq by (auto simp: slashed_def nth_append)
  moreover have "length d = 1 \<or> length d = 3 \<and> d ! 1 = CHR '':''" if "is_sep (last d)"
    using that assms(3) by simp
  moreover have "p = (if is_sep (last d) then d @ n else d @ CHR 0x5C # n)"
    using p(1) eq assms(2) by (simp add: slashed_def)
  ultimately have "fs_get_parent_directory_win32 p sz =
      Parent (if length d = 2 \<and> d ! 1 = CHR '':'' \<and> \<not> is_sep (last d) then d @ [CHR 0x5C] else d)"
    unfolding parent using assms(2) by (cases "is_sep (last d)") (auto simp: Let_def)
  then show ?thesis using assms(1,2) p by (simp add: win.filename_joined)
qed


lemma path_roundtrip_win32_witness:
  "fs_extract_filename_win32 (''C:/srv'' @ CHR 0x5C # ''a.txt'') = ''a.txt'' \<and>
   fs_get_parent_directory_win32 (''C:/srv'' @ CHR 0x5C # ''a.txt'') PATH_MAX = Parent ''C:/srv''"
proof -
  have j: "fs_join_path_win32 PATH_MAX ''C:/srv'' ''a.txt'' = Some (''C:/srv'' @ CHR 0x5C # ''a.txt'')" by code_simp
  have "component is_sep ''a.txt''" by (simp add: component_def is_sep_def)
  from path_roundtrip_win32 [OF this _ _ j] show ?thesis by (simp add: is_sep_def)
qed

lemma strip_seps_prefix: "\<exists>t. path = strip_seps path @ t"
proof (induction path rule: strip_seps.induct)
  case (1 p)
  show ?case
  proof (cases "strip_seps p = p")
    case False
    then have "p \<noteq> []" "strip_seps p = strip_seps (butlast p)"
      by (auto simp: strip_seps.simps [of p] split: if_splits)
    moreover from False have "\<exists>t. butlast p = strip_seps (butlast p) @ t"
      using 1 by (auto simp: strip_seps.simps [of p] split: if_splits)
    ultimately show ?thesis by (metis append_assoc append_butlast_last_id)
  qed simp
qed

text \<open>
  The one write outside its buffer in the path functions. On Windows \<open>fs_get_parent_directory\<close>
  checks that the path fits into the buffer, and then appends a separator to a bare drive: with a
  buffer of 3 bytes the terminating NUL is the fourth. It is the only case.
\<close>

theorem parent_overrun_win32:
  "fs_get_parent_directory_win32 path parent_size = Overrun \<longleftrightarrow>
     parent_size = 3 \<and> length path = 2 \<and> path ! 1 = CHR '':'' \<and> \<not> is_sep (path ! 0)"
proof
  assume over: "fs_get_parent_directory_win32 path parent_size = Overrun"
  define q where "q = strip_seps path"
  from over have q: "length path < parent_size" "parent_size < 4" "length q = 2" "q ! 1 = CHR '':''" "last_index is_sep q = None"
    by (auto simp: fs_get_parent_directory_win32_def Let_def q_def split: if_splits option.splits)
  from strip_seps_prefix [of path] obtain t where t: "path = q @ t" unfolding q_def by blast
  then have "length path = length q + length t" by simp
  with q(1-3) have "length t = 0" "parent_size = 3" by linarith+
  then have "t = []" "parent_size = 3" by simp_all
  moreover have "q ! 0 \<in> set q" using q(3) by simp
  ultimately show "parent_size = 3 \<and> length path = 2 \<and> path ! 1 = CHR '':'' \<and> \<not> is_sep (path ! 0)"
    using t q by (auto simp: last_index_def split: if_splits)
next
  assume *: "parent_size = 3 \<and> length path = 2 \<and> path ! 1 = CHR '':'' \<and> \<not> is_sep (path ! 0)"
  then obtain a where "path = [a, CHR '':'']" "\<not> is_sep a"
    by (cases path; cases "tl path") auto
  then show "fs_get_parent_directory_win32 path parent_size = Overrun"
    using * by (simp add: fs_get_parent_directory_win32_def strip_seps_drive last_index_def is_sep_def)
qed

end
