(* ===== verification/Filesys_Tree.thy ===== *)
theory Filesys_Tree
  imports Paths
begin

text \<open>
  What the recursive functions of \<open>filesys.c\<close> do to a directory tree. A tree is a map from paths to
  nodes; \<open>tree_posix P view\<close> says that the calls of \<open>P\<close> act on the tree \<open>view w\<close> of the world \<open>w\<close> as
  POSIX documents them, each of them free to fail, and \<open>tree_win32\<close> the same of the Windows
  API. Under it, a recursive removal that reports success has removed the directory and all below it,
  and one that fails has at least removed nothing else; the size of a directory is the sum over its
  tree. The tree arguments are shared: they are proved in \<open>path_syntax\<close>, for any separators.
\<close>

section \<open>Trees of paths\<close>

text \<open>\<open>Fjunction\<close> is a link that Windows treats as a directory.\<close>

datatype fnode = Fdir | Ffile int | Flink | Fjunction | Fother

type_synonym tree = "string \<Rightarrow> fnode option"

definition child :: "(char \<Rightarrow> bool) \<Rightarrow> (string \<Rightarrow> string \<Rightarrow> string) \<Rightarrow> string \<Rightarrow> string \<Rightarrow> bool" where
  "child sep join p q \<longleftrightarrow> (\<exists>n. component sep n \<and> \<not> is_dot n \<and> q = join p n)"

text \<open>What lies below \<open>p\<close>: through directories only, so never through a link.\<close>

inductive subtree :: "(string \<Rightarrow> string \<Rightarrow> bool) \<Rightarrow> tree \<Rightarrow> string \<Rightarrow> string \<Rightarrow> bool" for ch v where
  subtree_child: "v p = Some Fdir \<Longrightarrow> ch p q \<Longrightarrow> v q \<noteq> None \<Longrightarrow> subtree ch v p q"
| subtree_deeper: "v p = Some Fdir \<Longrightarrow> ch p q \<Longrightarrow> subtree ch v q r \<Longrightarrow> subtree ch v p r"

inductive_simps subtree_step: "subtree ch v p q"

definition whole :: "(string \<Rightarrow> string \<Rightarrow> bool) \<Rightarrow> tree \<Rightarrow> string \<Rightarrow> string set" where
  "whole ch v p = insert p {q. subtree ch v p q}"

text \<open>
  \<open>removes v R v' r\<close>: from the tree \<open>v\<close>, the tree \<open>v'\<close> comes about by removing nodes of \<open>R\<close> only,
  and with the result 0 all of them.
\<close>

definition removes :: "tree \<Rightarrow> string set \<Rightarrow> tree \<Rightarrow> int \<Rightarrow> bool" where
  "removes v R v' r \<longleftrightarrow>
     (\<forall>q. v' q = None \<or> v' q = v q) \<and> (\<forall>q. q \<notin> R \<longrightarrow> v' q = v q) \<and> (r = 0 \<longrightarrow> (\<forall>q\<in>R. v' q = None))"

lemma removes_refl: "r \<noteq> 0 \<Longrightarrow> removes v R v r"
  by (simp add: removes_def)

lemma removes_empty: "removes v {} v r"
  by (simp add: removes_def)

lemma removes_fail: "removes v R v' r' \<Longrightarrow> R \<subseteq> R' \<Longrightarrow> r \<noteq> 0 \<Longrightarrow> removes v R' v' r"
  by (auto simp: removes_def)

lemma removes_one: "removes v {q} (v(q := None)) r"
  by (simp add: removes_def)

lemma removes_trans:
  assumes "removes v R v1 0" "removes v1 R1 v' r" "R1 \<subseteq> R'" "\<And>q. q \<in> R' \<Longrightarrow> q \<in> R1 \<or> v1 q = None"
  shows "removes v (R \<union> R') v' r"
  using assms unfolding removes_def by (metis Un_iff subsetD)

lemma not_dir_subtree: "v p \<noteq> Some Fdir \<Longrightarrow> \<not> subtree ch v p q"
  by (auto elim: subtree.cases)

lemma not_dir_whole: "v p \<noteq> Some Fdir \<Longrightarrow> whole ch v p = {p}"
  by (simp add: whole_def not_dir_subtree)

lemma subtree_mono:
  assumes "subtree ch v1 p q" "\<And>q. v1 q = None \<or> v1 q = v q"
  shows "subtree ch v p q"
  using assms(1)
proof induction
  case (subtree_child p q)
  with assms(2) [of p] assms(2) [of q] show ?case by (intro subtree.subtree_child) auto
next
  case (subtree_deeper p q r)
  with assms(2) [of p] have "v p = Some Fdir" by auto
  then show ?case by (rule subtree.subtree_deeper [OF _ subtree_deeper(2) subtree_deeper(4)])
qed

lemma whole_mono: "(\<And>q. v1 q = None \<or> v1 q = v q) \<Longrightarrow> whole ch v1 p \<subseteq> whole ch v p"
  by (auto simp: whole_def dest: subtree_mono [where v = v])

text \<open>An enumeration of \<open>p\<close> returns each name there is once, possibly with the two dot entries.\<close>

definition lists :: "(char \<Rightarrow> bool) \<Rightarrow> (string \<Rightarrow> string \<Rightarrow> string) \<Rightarrow> tree \<Rightarrow> string \<Rightarrow> string list \<Rightarrow> bool" where
  "lists sep join v p names \<longleftrightarrow>
     distinct names \<and> (\<forall>n\<in>set names. is_dot n \<or> component sep n \<and> v (join p n) \<noteq> None) \<and>
     (\<forall>n. component sep n \<longrightarrow> \<not> is_dot n \<longrightarrow> v (join p n) \<noteq> None \<longrightarrow> n \<in> set names)"

fun fits :: "(string \<Rightarrow> string \<Rightarrow> bool) \<Rightarrow> tree \<Rightarrow> nat \<Rightarrow> string \<Rightarrow> bool" where
  "fits ch v 0 p = False"
| "fits ch v (Suc k) p =
     (\<forall>c. ch p c \<longrightarrow> v c \<noteq> None \<longrightarrow> length c < PATH_MAX \<and> (v c = Some Fdir \<longrightarrow> fits ch v k c))"

section \<open>Trees and the text of paths\<close>

context path_syntax
begin

abbreviation under :: "string \<Rightarrow> string set" where
  "under p \<equiv> insert p (range (append (slashed sep sep_char p)))"

lemma under_child: "child sep joined p q \<Longrightarrow> under q \<subseteq> under p"
  by (auto simp: child_def joined_component folder_component)

lemma under_apart:
  assumes "component sep n" "component sep m" "n \<noteq> m"
  shows "under (joined p n) \<inter> under (joined p m) = {}"
proof -
  have "\<forall>x. slashed sep sep_char (joined p n) @ x \<noteq> joined p m" "\<forall>x. slashed sep sep_char (joined p m) @ x \<noteq> joined p n"
    "\<forall>x y. slashed sep sep_char (joined p n) @ x \<noteq> slashed sep sep_char (joined p m) @ y" "joined p n \<noteq> joined p m"
    using apart [of n m] apart [of m n] assms joined_inject by blast+
  then show ?thesis unfolding disjoint_iff by (metis insert_iff rangeE)
qed

lemma subtree_below: "subtree (child sep joined) v p q \<Longrightarrow> \<exists>x. x \<noteq> [] \<and> q = slashed sep sep_char p @ x"
proof (induction rule: subtree.induct)
  case (subtree_child p q)
  then show ?case by (auto simp: child_def joined_component component_def)
next
  case (subtree_deeper p q r)
  then obtain n x where "component sep n" "q = joined p n" "r = slashed sep sep_char q @ x"
    by (auto simp: child_def)
  then have "r = slashed sep sep_char p @ (n @ sep_char # x)"
    by (simp add: joined_component folder_component)
  then show ?case by blast
qed

lemma subtree_irrefl: "\<not> subtree (child sep joined) v p p"
proof
  assume "subtree (child sep joined) v p p"
  then obtain x where x: "x \<noteq> []" "p = slashed sep sep_char p @ x" using subtree_below by blast
  then have "length p = length (slashed sep sep_char p) + length x" by (metis length_append)
  moreover have "length (slashed sep sep_char p) \<ge> length p" by (simp add: slashed_def)
  ultimately show False using x(1) by simp
qed

lemma whole_under: "whole (child sep joined) v p \<subseteq> under p"
  using subtree_below by (fastforce simp: whole_def)

lemma subtree_agree:
  assumes "subtree (child sep joined) v p q" "\<And>q. q \<in> under p \<Longrightarrow> v1 q = v q"
  shows "subtree (child sep joined) v1 p q"
  using assms
proof induction
  case (subtree_child p q)
  then show ?case using under_child [OF subtree_child(2)] by (intro subtree.subtree_child) auto
next
  case (subtree_deeper p q r)
  have "subtree (child sep joined) v1 q r"
    using subtree_deeper under_child [OF subtree_deeper(2)] by blast
  moreover have "v1 p = Some Fdir" using subtree_deeper by simp
  ultimately show ?case by (metis subtree.subtree_deeper subtree_deeper(2))
qed

lemma whole_agree:
  assumes "\<And>q. q \<in> under p \<Longrightarrow> v1 q = v q"
  shows "whole (child sep joined) v1 p = whole (child sep joined) v p"
  using assms subtree_agree [of v p _ v1] subtree_agree [of v1 p _ v] by (auto simp: whole_def)

text \<open>The children of a directory, given by the names that an enumeration returns.\<close>

definition all_below :: "tree \<Rightarrow> string \<Rightarrow> string list \<Rightarrow> string set" where
  "all_below v p names = (\<Union>n\<in>{n \<in> set names. \<not> is_dot n}. whole (child sep joined) v (joined p n))"

lemma all_below_simps [simp]:
  "all_below v p [] = {}"
  "is_dot n \<Longrightarrow> all_below v p (n # names) = all_below v p names"
  "\<not> is_dot n \<Longrightarrow> all_below v p (n # names) = whole (child sep joined) v (joined p n) \<union> all_below v p names"
  unfolding all_below_def by auto

lemma all_below_subtree:
  assumes "v p = Some Fdir" "\<And>n. component sep n \<Longrightarrow> \<not> is_dot n \<Longrightarrow> v (joined p n) \<noteq> None \<Longrightarrow> n \<in> set names"
  shows "{q. subtree (child sep joined) v p q} \<subseteq> all_below v p names"
proof
  fix q assume "q \<in> {q. subtree (child sep joined) v p q}"
  then have "subtree (child sep joined) v p q" by simp
  then show "q \<in> all_below v p names"
  proof cases
    case subtree_child
    then show ?thesis using assms(2) by (auto simp: child_def all_below_def whole_def)
  next
    case (subtree_deeper c)
    moreover have "v c \<noteq> None" using subtree_deeper(3) not_dir_subtree [of v c] by auto
    ultimately show ?thesis using assms(2) by (auto simp: child_def all_below_def whole_def)
  qed
qed

lemma all_below_only:
  assumes "v p = Some Fdir" "\<And>n. n \<in> set names \<Longrightarrow> is_dot n \<or> component sep n" "q \<in> all_below v p names"
  shows "subtree (child sep joined) v p q \<or> v q = None"
proof -
  obtain n where n: "n \<in> set names" "\<not> is_dot n" "q \<in> whole (child sep joined) v (joined p n)"
    using assms(3) by (auto simp: all_below_def)
  then have "child sep joined p (joined p n)" using assms(2) by (auto simp: child_def)
  with assms(1) n(3) show ?thesis
    by (cases "q = joined p n") (metis subtree_child, metis whole_def insert_iff mem_Collect_eq subtree_deeper)
qed

lemma removes_below:
  assumes "v p = Some Fdir" "lists sep joined v p names" "removes v (all_below v p names) v' r"
  shows "removes v {q. subtree (child sep joined) v p q} v' r"
proof -
  have sub: "{q. subtree (child sep joined) v p q} \<subseteq> all_below v p names"
    using assms(2) by (intro all_below_subtree [where v = v and p = p, OF assms(1)]) (auto simp: lists_def)
  have "v' q = v q" if "\<not> subtree (child sep joined) v p q" for q
  proof (cases "q \<in> all_below v p names")
    case True
    then have "v q = None" using all_below_only [where v = v and p = p, OF assms(1)] assms(2) that by (fastforce simp: lists_def)
    then show ?thesis using assms(3) by (metis removes_def)
  qed (use assms(3) in \<open>simp add: removes_def\<close>)
  then show ?thesis using sub assms(3) by (auto simp: removes_def)
qed

lemma emptied:
  assumes "v p = Some Fdir" "removes v {q. subtree (child sep joined) v p q} v1 0"
  shows "v1 p = Some Fdir" "\<forall>q. child sep joined p q \<longrightarrow> v1 q = None"
  using assms subtree_irrefl [of v p] subtree_child [of v p "child sep joined"] unfolding removes_def
  by (force, metis mem_Collect_eq)

text \<open>One name done and removed, the rest is as it was before, and vice versa.\<close>

lemma remove_next:
  assumes n: "component sep n" "\<not> is_dot n" and ns: "\<forall>m\<in>set names. is_dot m \<or> component sep m"
    and v1: "removes v (whole (child sep joined) v (joined p n)) v1 0"
    and v': "removes v1 (all_below v1 p names) v' r"
  shows "removes v (all_below v p (n # names)) v' r"
proof -
  have le: "\<And>q. v1 q = None \<or> v1 q = v q" using v1 unfolding removes_def by blast
  have sub: "all_below v1 p names \<subseteq> all_below v p names"
    unfolding all_below_def by (intro UN_mono order_refl whole_mono le)
  have "q \<in> all_below v1 p names \<or> v1 q = None" if q: "q \<in> all_below v p names" for q
  proof -
    obtain m where m: "m \<in> set names" "\<not> is_dot m" "q \<in> whole (child sep joined) v (joined p m)"
      using q by (auto simp: all_below_def)
    show ?thesis
    proof (cases "m = n")
      case True
      then have "q \<in> whole (child sep joined) v (joined p n)" using m(3) by simp
      then show ?thesis using v1 by (simp add: removes_def)
    next
      case False
      then have "under (joined p n) \<inter> under (joined p m) = {}" using under_apart n m ns by blast
      then have "q \<notin> whole (child sep joined) v (joined p n)" if "q \<in> under (joined p m)" for q
        using that whole_under [of v "joined p n"] by (meson disjoint_iff subsetD)
      then have "v1 q = v q" if "q \<in> under (joined p m)" for q
        using that v1 by (simp add: removes_def)
      then show ?thesis using m whole_agree [of "joined p m" v1 v] by (auto simp: all_below_def)
    qed
  qed
  then show ?thesis using removes_trans [OF v1 v' sub] n(2) by simp
qed

text \<open>
  What a removal needs in order to get through: paths that fit into \<open>PATH_MAX\<close> bytes, and no more
  levels of directories than the depth limit leaves.
\<close>

lemma fits_agree: "(\<And>q. q \<in> under p \<Longrightarrow> v1 q = v q) \<Longrightarrow> fits (child sep joined) v1 k p = fits (child sep joined) v k p"
proof (induction k arbitrary: p)
  case (Suc k)
  have "v1 c = v c \<and> fits (child sep joined) v1 k c = fits (child sep joined) v k c" if "child sep joined p c" for c
  proof -
    have "v1 q = v q" if "q \<in> under c" for q
      using that Suc.prems under_child [OF \<open>child sep joined p c\<close>] by (meson subsetD)
    then show ?thesis using Suc.IH [of c] by simp
  qed
  then show ?case by auto
qed simp

definition ready :: "tree \<Rightarrow> nat \<Rightarrow> string \<Rightarrow> string list \<Rightarrow> bool" where
  "ready v k p names \<longleftrightarrow> distinct names \<and>
     (\<forall>n\<in>set names. is_dot n \<or> component sep n \<and> v (joined p n) \<noteq> None \<and> length (joined p n) < PATH_MAX \<and>
        (v (joined p n) = Some Fdir \<longrightarrow> fits (child sep joined) v k (joined p n)))"

lemma ready_fits: "lists sep joined v p names \<Longrightarrow> fits (child sep joined) v (Suc k) p \<Longrightarrow> ready v k p names"
  unfolding lists_def ready_def fits.simps child_def by blast

lemma ready_next:
  assumes "ready v k p (n # names)" "\<not> is_dot n" "removes v (whole (child sep joined) v (joined p n)) v1 r"
  shows "ready v1 k p names"
proof -
  have "v1 q = v q" if m: "m \<in> set names" "\<not> is_dot m" "q \<in> under (joined p m)" for m q
  proof -
    have "component sep n" "component sep m" "n \<noteq> m" using assms(1,2) m by (auto simp: ready_def)
    then have "q \<notin> whole (child sep joined) v (joined p n)"
      using under_apart [of n m p] whole_under [of v "joined p n"] m(3) by (meson disjoint_iff subsetD)
    then show ?thesis using assms(3) by (simp add: removes_def)
  qed
  then have "v1 (joined p m) = v (joined p m) \<and>
      fits (child sep joined) v1 k (joined p m) = fits (child sep joined) v k (joined p m)"
    if "m \<in> set names" "\<not> is_dot m" for m
    using that fits_agree [of "joined p m" v1 v k] by simp
  then show ?thesis using assms(1) by (auto simp: ready_def)
qed

end


section \<open>Removal on the POSIX branch\<close>

definition posix_node :: "stat_t \<Rightarrow> fnode" where
  "posix_node st =
     (if S_ISLNK (st_mode st) then Flink else if S_ISDIR (st_mode st) then Fdir
      else if S_ISREG (st_mode st) then Ffile (st_size st) else Fother)"

definition tree_posix :: "'w posix \<Rightarrow> ('w \<Rightarrow> tree) \<Rightarrow> bool" where
  "tree_posix P view \<longleftrightarrow>
     (\<forall>p v. leads (\<lambda>w. view w = v) (px_lstat P p)
       (\<lambda>r w. view w = v \<and> (\<forall>st. r = Some st \<longrightarrow> v p = Some (posix_node st)))) \<and>
     (\<forall>p v. v p = Some Fdir \<longrightarrow> leads (\<lambda>w. view w = v) (px_readdir P p)
       (\<lambda>r w. view w = v \<and> (\<forall>names. r = Some names \<longrightarrow> lists posix_sep joined_posix v p names))) \<and>
     (\<forall>p v. leads (\<lambda>w. view w = v) (px_unlink P p)
       (\<lambda>ok w. if ok then v p \<noteq> Some Fdir \<and> view w = v(p := None) else view w = v)) \<and>
     (\<forall>p v. leads (\<lambda>w. view w = v) (px_rmdir P p)
       (\<lambda>ok w. if ok then v p = Some Fdir \<and> view w = v(p := None) else view w = v))"

abbreviation sees :: "('w \<Rightarrow> tree) \<Rightarrow> tree \<Rightarrow> ('w, 'z) os_scheme \<Rightarrow> bool" where
  "sees view v s \<equiv> view (world s) = v"

abbreviation posix_child :: "string \<Rightarrow> string \<Rightarrow> bool" where
  "posix_child \<equiv> child posix_sep joined_posix"

lemma leads_path_call:
  "leads (\<lambda>w. view w = v) m (\<lambda>a w. J a (view w)) \<Longrightarrow> leads (sees view v) (path_call k p m) (\<lambda>a s. J a (view (world s)))"
  by (auto simp: leads_def path_call_def emit_def os_def case_prod_beta)

lemma tree_calls:
  assumes "tree_posix P view"
  shows "leads (sees view v) (sys_lstat P p)
      (\<lambda>r s. sees view v s \<and> (\<forall>st. r = Some st \<longrightarrow> v p = Some (posix_node st)))"
    and "v p = Some Fdir \<Longrightarrow> leads (sees view v) (sys_readdir P p)
      (\<lambda>r s. sees view v s \<and> (\<forall>names. r = Some names \<longrightarrow> lists posix_sep joined_posix v p names))"
    and "leads (sees view v) (sys_unlink P p)
      (\<lambda>ok s. if ok then v p \<noteq> Some Fdir \<and> sees view (v(p := None)) s else sees view v s)"
    and "leads (sees view v) (sys_rmdir P p)
      (\<lambda>ok s. if ok then v p = Some Fdir \<and> sees view (v(p := None)) s else sees view v s)"
  using assms unfolding tree_posix_def sys_lstat_def sys_readdir_def sys_unlink_def sys_rmdir_def
  by (intro leads_path_call; blast)+

text \<open>
  Taking one child \<open>c\<close> away and going on: by a call \<open>m\<close> that removes one node, and by a recursion
  \<open>sub\<close> before it when \<open>c\<close> is a directory; \<open>R\<close> is all that the loop has still to remove, \<open>rest\<close> its
  continuation. Both branches are built of these two steps.
\<close>

definition takes :: "('w \<Rightarrow> tree) \<Rightarrow> string \<Rightarrow> ('w, 'z, bool) os_m \<Rightarrow> bool" where
  "takes view c m \<longleftrightarrow> (\<forall>v. leads (sees view v) m (\<lambda>ok s. if ok then sees view (v(c := None)) s else sees view v s))"

lemma tree_takes:
  assumes "tree_posix P view"
  shows "takes view c (sys_unlink P c)" "takes view c (sys_rmdir P c)"
  unfolding takes_def by (auto intro: leads_weaken [OF tree_calls(3) [OF assms]] leads_weaken [OF tree_calls(4) [OF assms]])

lemma take_and_go:
  assumes m: "takes view c m" and "v c \<noteq> Some Fdir" "whole ch v c \<subseteq> R"
    and rest: "\<And>v1. removes v (whole ch v c) v1 0 \<Longrightarrow> leads (sees view v1) rest (\<lambda>r s. removes v R (view (world s)) r)"
  shows "leads (sees view v) (do { ok \<leftarrow> m; if \<not> ok then ret (-1) else rest }) (\<lambda>r s. removes v R (view (world s)) r)"
proof (rule leads_seq [OF m [unfolded takes_def, rule_format]])
  fix ok
  have "removes v (whole ch v c) (v(c := None)) 0"
    using assms(2) by (simp add: not_dir_whole removes_one)
  from rest [OF this] show "leads (\<lambda>s. if ok then sees view (v(c := None)) s else sees view v s)
      (if \<not> ok then ret (-1) else rest) (\<lambda>r s. removes v R (view (world s)) r)"
    by (cases ok) (auto simp: leads_def removes_refl)
qed

lemma descend_and_go:
  assumes m: "takes view c m" and R: "whole ch v c \<subseteq> R"
    and sub: "leads (sees view v) sub (\<lambda>r s. removes v {q. subtree ch v c q} (view (world s)) r)"
    and rest: "\<And>v1. removes v (whole ch v c) v1 0 \<Longrightarrow> leads (sees view v1) rest (\<lambda>r s. removes v R (view (world s)) r)"
  shows "leads (sees view v)
    (do { r \<leftarrow> sub; if r \<noteq> 0 then ret (-1) else do { ok \<leftarrow> m; if \<not> ok then ret (-1) else rest } })
    (\<lambda>r s. removes v R (view (world s)) r)"
proof (rule leads_seq [OF sub], rule leads_fix [where V = "\<lambda>s. view (world s)"])
  fix r v1 assume v1: "removes v {q. subtree ch v c q} v1 r"
  have "{q. subtree ch v c q} \<subseteq> R" using R by (auto simp: whole_def)
  note stop = removes_fail [OF v1 this, of "-1"]
  have go: "removes v (whole ch v c) (v1(c := None)) 0" if "r = 0"
    using v1 that by (auto simp: removes_def whole_def)
  show "leads (sees view v1) (if r \<noteq> 0 then ret (-1) else do { ok \<leftarrow> m; if \<not> ok then ret (-1) else rest })
      (\<lambda>r s. removes v R (view (world s)) r)"
  proof (cases "r = 0")
    case True
    have "leads (sees view v1) (do { ok \<leftarrow> m; if \<not> ok then ret (-1) else rest })
        (\<lambda>r s. removes v R (view (world s)) r)"
    proof (rule leads_seq [OF m [unfolded takes_def, rule_format]])
      fix ok
      show "leads (\<lambda>s. if ok then sees view (v1(c := None)) s else sees view v1 s)
          (if \<not> ok then ret (-1) else rest) (\<lambda>r s. removes v R (view (world s)) r)"
        using rest [OF go [OF True]] stop by (cases ok) (auto simp: leads_def)
    qed
    then show ?thesis using True by simp
  qed (use stop in \<open>auto simp: leads_def\<close>)
qed

lemma remove_loop:
  assumes T: "tree_posix P view"
    and sub: "\<And>c v. v c = Some Fdir \<Longrightarrow>
      leads (sees view v) (sub c) (\<lambda>r s. removes v {q. subtree posix_child v c q} (view (world s)) r)"
    and names: "\<forall>n\<in>set names. is_dot n \<or> component posix_sep n"
  shows "leads (sees view v) (remove_directory_loop P sub p names)
    (\<lambda>r s. removes v (px.all_below v p names) (view (world s)) r)"
  using names
proof (induction names arbitrary: v)
  case Nil
  show ?case by (simp add: leads_def removes_empty)
next
  case (Cons n names)
  show ?case
  proof (cases "is_dot n")
    case True
    then show ?thesis using Cons by simp
  next
    case False
    define c where "c = joined_posix p n"
    have n: "component posix_sep n" using Cons.prems False by simp
    have rest: "leads (sees view v1) (remove_directory_loop P sub p names)
        (\<lambda>r s. removes v (px.all_below v p (n # names)) (view (world s)) r)"
      if "removes v (whole posix_child v c) v1 0" for v1
      using Cons.prems px.remove_next [OF n False _ that [unfolded c_def]]
      by (intro leads_weaken [OF Cons.IH [of v1]]) simp_all
    have R: "whole posix_child v c \<subseteq> px.all_below v p (n # names)" using False by (simp add: c_def)
    note go = take_and_go [OF tree_takes(1) [OF T] _ R rest] descend_and_go [OF tree_takes(2) [OF T] R sub rest]
    show ?thesis
    proof (cases "fs_join_path PATH_MAX p n")
      case None
      then show ?thesis using False by (simp add: leads_def removes_refl)
    next
      case (Some c')
      then have c': "c' = c" by (auto simp: fs_join_path_joined c_def split: if_splits)
      have "leads (sees view v) (remove_directory_loop P sub p (n # names))
          (\<lambda>r s. removes v (px.all_below v p (n # names)) (view (world s)) r)"
        unfolding remove_directory_loop.simps if_not_P [OF False] Some option.case c'
      proof (rule leads_seq [OF tree_calls(1) [OF T]], rule leads_conj)
        fix r assume r: "\<forall>st. r = Some st \<longrightarrow> v c = Some (posix_node st)"
        show "leads (sees view v)
          (case r of None \<Rightarrow> ret (-1)
           | Some st \<Rightarrow>
               if S_ISLNK (st_mode st) then do {
                 ok \<leftarrow> sys_unlink P c;
                 if \<not> ok then ret (-1) else remove_directory_loop P sub p names }
               else if S_ISDIR (st_mode st) then do {
                 r \<leftarrow> sub c;
                 if r \<noteq> 0 then ret (-1)
                 else do {
                   ok \<leftarrow> sys_rmdir P c;
                   if \<not> ok then ret (-1) else remove_directory_loop P sub p names } }
               else do {
                 ok \<leftarrow> sys_unlink P c;
                 if \<not> ok then ret (-1) else remove_directory_loop P sub p names })
          (\<lambda>r s. removes v (px.all_below v p (n # names)) (view (world s)) r)"
        proof (cases r)
          case None
          then show ?thesis by (simp add: leads_def removes_refl)
        next
          case (Some st)
          then have "v c = Some (posix_node st)" using r by simp
          then show ?thesis unfolding Some option.case
            by (intro leads_if go) (auto simp: posix_node_def)
        qed
      qed
      then show ?thesis .
    qed
  qed
qed


lemma remove_recursive:
  assumes T: "tree_posix P view"
  shows "v p = Some Fdir \<Longrightarrow> leads (sees view v) (remove_directory_recursive P levels p :: ('w, 'z, int) os_m)
    (\<lambda>r s. removes v {q. subtree posix_child v p q} (view (world s)) r)"
proof (induction levels arbitrary: p v)
  case 0
  show ?case by (simp add: leads_def removes_refl)
next
  case (Suc levels)
  show ?case unfolding remove_directory_recursive.simps
  proof (rule leads_seq [OF tree_calls(2) [where v = v and p = p, OF T Suc.prems]], rule leads_conj)
    fix d assume d: "\<forall>names. d = Some names \<longrightarrow> lists posix_sep joined_posix v p names"
    show "leads (sees view v)
        ((case d of None \<Rightarrow> ret (-1)
         | Some names \<Rightarrow> remove_directory_loop P (remove_directory_recursive P levels) p names) :: ('w, 'z, int) os_m)
        (\<lambda>r s. removes v {q. subtree posix_child v p q} (view (world s)) r)"
    proof (cases d)
      case None
      then show ?thesis by (simp add: leads_def removes_refl)
    next
      case (Some names)
      then have L: "lists posix_sep joined_posix v p names" using d by simp
      then have names: "\<forall>n\<in>set names. is_dot n \<or> component posix_sep n" by (auto simp: lists_def)
      have "leads (sees view v) (remove_directory_loop P (remove_directory_recursive P levels) p names :: ('w, 'z, int) os_m)
          (\<lambda>r s. removes v (px.all_below v p names) (view (world s)) r)"
        by (rule remove_loop [OF T _ names]) (rule Suc.IH)
      then show ?thesis unfolding Some option.case
        by (rule leads_weaken) (simp_all add: px.removes_below [where v = v and p = p, OF Suc.prems L])
    qed
  qed
qed

lemma ret_if: "(\<lambda>b. ret (if b then x else y)) = (\<lambda>b. if \<not> b then ret y else ret x)"
  by auto

lemma delete_directory_leads:
  assumes T: "tree_posix P view" and d: "v p = Some Fdir"
  shows "leads (sees view v) (fs_delete_directory P p True :: ('w, 'z, int) os_m)
    (\<lambda>r s. removes v (whole posix_child v p) (view (world s)) r)"
proof -
  have "leads (sees view v)
      (do { r \<leftarrow> remove_directory_recursive P (MAX_RECURSION_DEPTH + 1) p;
            if r \<noteq> 0 then ret (-1) else do { ok \<leftarrow> sys_rmdir P p; if \<not> ok then ret (-1) else ret 0 } } :: ('w, 'z, int) os_m)
      (\<lambda>r s. removes v (whole posix_child v p) (view (world s)) r)"
    by (rule descend_and_go [OF tree_takes(2) [OF T] order_refl remove_recursive [where v = v and p = p, OF T d]])
      (simp add: leads_def)
  then show ?thesis unfolding fs_delete_directory_def ret_if by simp
qed


text \<open>Calls that fail only for a reason in the tree.\<close>

definition reliable :: "'w posix \<Rightarrow> ('w \<Rightarrow> tree) \<Rightarrow> bool" where
  "reliable P view \<longleftrightarrow>
     (\<forall>p v. v p \<noteq> None \<longrightarrow> leads (\<lambda>w. view w = v) (px_lstat P p) (\<lambda>r _. r \<noteq> None)) \<and>
     (\<forall>p v. v p = Some Fdir \<longrightarrow> leads (\<lambda>w. view w = v) (px_readdir P p) (\<lambda>r _. r \<noteq> None)) \<and>
     (\<forall>p v. v p \<noteq> None \<and> v p \<noteq> Some Fdir \<longrightarrow> leads (\<lambda>w. view w = v) (px_unlink P p) (\<lambda>ok _. ok)) \<and>
     (\<forall>p v. v p = Some Fdir \<and> (\<forall>q. posix_child p q \<longrightarrow> v q = None) \<longrightarrow>
        leads (\<lambda>w. view w = v) (px_rmdir P p) (\<lambda>ok _. ok))"

lemma reliable_calls:
  assumes "tree_posix P view" "reliable P view"
  shows "v p \<noteq> None \<Longrightarrow> leads (sees view v) (sys_lstat P p) (\<lambda>r s. sees view v s \<and> (\<exists>st. r = Some st \<and> v p = Some (posix_node st)))"
    and "v p = Some Fdir \<Longrightarrow> leads (sees view v) (sys_readdir P p)
      (\<lambda>r s. sees view v s \<and> (\<exists>names. r = Some names \<and> lists posix_sep joined_posix v p names))"
    and "v p \<noteq> None \<Longrightarrow> v p \<noteq> Some Fdir \<Longrightarrow> leads (sees view v) (sys_unlink P p) (\<lambda>ok s. sees view (v(p := None)) s \<and> ok)"
    and "v p = Some Fdir \<Longrightarrow> \<forall>q. posix_child p q \<longrightarrow> v q = None \<Longrightarrow>
      leads (sees view v) (sys_rmdir P p) (\<lambda>ok s. sees view (v(p := None)) s \<and> ok)"
proof -
  show "leads (sees view v) (sys_lstat P p) (\<lambda>r s. sees view v s \<and> (\<exists>st. r = Some st \<and> v p = Some (posix_node st)))"
    if "v p \<noteq> None"
  proof -
    have "leads (\<lambda>w. view w = v) (px_lstat P p) (\<lambda>r _. r \<noteq> None)"
      using that assms(2) [unfolded reliable_def, THEN conjunct1, rule_format, of v p] by simp
    then have "leads (sees view v) (sys_lstat P p) (\<lambda>r _. r \<noteq> None)"
      unfolding sys_lstat_def by (rule leads_path_call [where J = "\<lambda>r _. r \<noteq> None"])
    from leads_both [OF tree_calls(1) [OF assms(1)] this] show ?thesis
      by (rule leads_weaken) (assumption, metis option.exhaust)
  qed
  show "leads (sees view v) (sys_readdir P p)
      (\<lambda>r s. sees view v s \<and> (\<exists>names. r = Some names \<and> lists posix_sep joined_posix v p names))"
    if "v p = Some Fdir"
  proof -
    have "leads (\<lambda>w. view w = v) (px_readdir P p) (\<lambda>r _. r \<noteq> None)"
      using that assms(2) unfolding reliable_def by blast
    then have "leads (sees view v) (sys_readdir P p) (\<lambda>r _. r \<noteq> None)"
      unfolding sys_readdir_def by (rule leads_path_call [where J = "\<lambda>r _. r \<noteq> None"])
    from leads_both [OF tree_calls(2) [where v = v and p = p, OF assms(1) that] this] show ?thesis
      by (rule leads_weaken) (assumption, metis option.exhaust)
  qed
  show "leads (sees view v) (sys_unlink P p) (\<lambda>ok s. sees view (v(p := None)) s \<and> ok)"
    if "v p \<noteq> None" "v p \<noteq> Some Fdir"
  proof -
    have "leads (\<lambda>w. view w = v) (px_unlink P p) (\<lambda>ok _. ok)"
      using that assms(2) unfolding reliable_def by blast
    then have "leads (sees view v) (sys_unlink P p) (\<lambda>ok _. ok)"
      unfolding sys_unlink_def by (rule leads_path_call [where J = "\<lambda>ok _. ok"])
    from leads_both [OF tree_calls(3) [OF assms(1)] this] show ?thesis by (rule leads_weaken) (use that in simp_all)
  qed
  show "leads (sees view v) (sys_rmdir P p) (\<lambda>ok s. sees view (v(p := None)) s \<and> ok)"
    if "v p = Some Fdir" "\<forall>q. posix_child p q \<longrightarrow> v q = None"
  proof -
    have "leads (\<lambda>w. view w = v) (px_rmdir P p) (\<lambda>ok _. ok)"
      using that assms(2) unfolding reliable_def by blast
    then have "leads (sees view v) (sys_rmdir P p) (\<lambda>ok _. ok)"
      unfolding sys_rmdir_def by (rule leads_path_call [where J = "\<lambda>ok _. ok"])
    from leads_both [OF tree_calls(4) [OF assms(1)] this] show ?thesis by (rule leads_weaken) (use that in simp_all)
  qed
qed


lemma remove_loop_succeeds:
  fixes sub :: "string \<Rightarrow> ('w, 'z, int) os_m"
  assumes T: "tree_posix P view" and R: "reliable P view"
    and sub: "\<And>c v. v c = Some Fdir \<Longrightarrow>
      leads (sees view v) (sub c) (\<lambda>r s. removes v {q. subtree posix_child v c q} (view (world s)) r)"
    and succ: "\<And>c v. v c = Some Fdir \<Longrightarrow> fits posix_child v k c \<Longrightarrow> leads (sees view v) (sub c) (\<lambda>r _. r = 0)"
  shows "px.ready v k p names \<Longrightarrow> leads (sees view v) (remove_directory_loop P sub p names) (\<lambda>r _. r = 0)"
proof (induction names arbitrary: v)
  case Nil
  show ?case by (simp add: leads_def)
next
  case (Cons n names)
  show ?case
  proof (cases "is_dot n")
    case True
    then show ?thesis using Cons by (auto simp: px.ready_def)
  next
    case False
    define c where "c = joined_posix p n"
    have c: "v c \<noteq> None" "fs_join_path PATH_MAX p n = Some c" "v c = Some Fdir \<Longrightarrow> fits posix_child v k c"
      using Cons.prems False by (auto simp: px.ready_def c_def fs_join_path_joined)
    have rest: "leads (sees view v1) (remove_directory_loop P sub p names) (\<lambda>r _. r = 0)"
      if "removes v (whole posix_child v c) v1 0" for v1
      using Cons.IH px.ready_next [OF Cons.prems False that [unfolded c_def]] .
    have unlink: "leads (sees view v) (do { ok \<leftarrow> sys_unlink P c; if \<not> ok then ret (-1) else remove_directory_loop P sub p names })
        (\<lambda>r _. r = 0)" if "v c \<noteq> Some Fdir"
      using that rest [of "v(c := None)"]
      by (intro leads_const [OF reliable_calls(3) [where v = v and p = c, OF T R c(1) that]])
        (simp add: not_dir_whole removes_one)
    have rmdir: "leads (sees view v)
        (do { r \<leftarrow> sub c; if r \<noteq> 0 then ret (-1)
              else do { ok \<leftarrow> sys_rmdir P c; if \<not> ok then ret (-1) else remove_directory_loop P sub p names } })
        (\<lambda>r _. r = 0)" if d: "v c = Some Fdir"
    proof (rule leads_const [OF leads_both [OF sub [where v = v and c = c, OF d] succ [where v = v and c = c, OF d c(3) [OF d]]]],
        rule leads_fix [where V = "\<lambda>s. view (world s)"])
      fix r v1 assume v1: "removes v {q. subtree posix_child v c q} v1 r" and r: "r = 0"
      note gone = px.emptied [where v = v and p = c, OF d v1 [unfolded r]]
      have "removes v (whole posix_child v c) (v1(c := None)) 0"
        using v1 r by (auto simp: removes_def whole_def)
      from rest [OF this] have "leads (sees view v1)
          (do { ok \<leftarrow> sys_rmdir P c; if \<not> ok then ret (-1) else remove_directory_loop P sub p names }) (\<lambda>r _. r = 0)"
        by (intro leads_const [OF reliable_calls(4) [where v = v1 and p = c, OF T R gone]]) simp
      then show "leads (sees view v1) (if r \<noteq> 0 then ret (-1) else
          do { ok \<leftarrow> sys_rmdir P c; if \<not> ok then ret (-1) else remove_directory_loop P sub p names }) (\<lambda>r _. r = 0)"
        using r by simp
    qed
    show ?thesis unfolding remove_directory_loop.simps if_not_P [OF False] c(2) option.case
      by (rule leads_const [OF reliable_calls(1) [where v = v and p = c, OF T R c(1)]])
        (auto simp: posix_node_def intro!: unlink rmdir split: if_splits)
  qed
qed


lemma remove_recursive_succeeds:
  assumes T: "tree_posix P view" and R: "reliable P view"
  shows "v p = Some Fdir \<Longrightarrow> fits posix_child v levels p \<Longrightarrow>
    leads (sees view v) (remove_directory_recursive P levels p :: ('w, 'z, int) os_m) (\<lambda>r _. r = 0)"
proof (induction levels arbitrary: p v)
  case (Suc levels)
  show ?case unfolding remove_directory_recursive.simps
  proof (rule leads_const [OF reliable_calls(2) [where v = v and p = p, OF T R Suc.prems(1)]])
    fix d assume "\<exists>names. d = Some names \<and> lists posix_sep joined_posix v p names"
    then obtain names where d: "d = Some names" and L: "lists posix_sep joined_posix v p names" by blast
    have "leads (sees view v) (remove_directory_loop P (remove_directory_recursive P levels) p names :: ('w, 'z, int) os_m)
        (\<lambda>r _. r = 0)"
      using remove_recursive [OF T] Suc.IH px.ready_fits [OF L Suc.prems(2)]
      by (rule remove_loop_succeeds [OF T R])
    then show "leads (sees view v)
        ((case d of None \<Rightarrow> ret (-1)
         | Some names \<Rightarrow> remove_directory_loop P (remove_directory_recursive P levels) p names) :: ('w, 'z, int) os_m)
        (\<lambda>r _. r = 0)" by (simp add: d)
  qed
qed simp

text \<open>
  C16: a forced removal removes the directory and what lies below it, and nothing else: whatever it
  returns, every path outside is as it was, and every path inside is as it was or gone; when it
  returns 0 they are all gone. Links are removed and not followed, since what a link leads to is not
  below it. This is under the documented behaviour of \<open>lstat\<close>, \<open>readdir\<close>, \<open>unlink\<close> and \<open>rmdir\<close> on a
  tree that nobody else changes meanwhile; any of the calls may fail.
\<close>

theorem delete_directory_exact:
  assumes "tree_posix P view" "view (world s) p = Some Fdir" "run_state (fs_delete_directory P p True) s = (r, s')"
  shows "(\<forall>q. q \<notin> whole posix_child (view (world s)) p \<longrightarrow> view (world s') q = view (world s) q) \<and>
    (\<forall>q. view (world s') q = None \<or> view (world s') q = view (world s) q) \<and>
    (r = 0 \<longrightarrow> (\<forall>q\<in>whole posix_child (view (world s)) p. view (world s') q = None))"
  using delete_directory_leads [where v = "view (world s)" and p = p, OF assms(1,2)] assms(3)
  by (auto simp: leads_def removes_def dest!: spec [of _ s])

text \<open>
  C17: and it gets through: when no call fails for a reason outside the tree, the paths below the
  directory fit into \<open>PATH_MAX\<close> bytes, and its directories are nested no deeper than
  \<open>MAX_RECURSION_DEPTH\<close>, the removal returns 0 and leaves the tree without the directory.
\<close>

theorem delete_directory_succeeds:
  assumes "tree_posix P view" "reliable P view" "view (world s) p = Some Fdir"
    "fits posix_child (view (world s)) (MAX_RECURSION_DEPTH + 1) p"
    "run_state (fs_delete_directory P p True) s = (r, s')"
  shows "r = 0 \<and> view (world s') = (\<lambda>q. if q \<in> whole posix_child (view (world s)) p then None else view (world s) q)"
proof -
  define v where "v = view (world s)"
  note a = assms [folded v_def]
  obtain r1 s1 where 1: "run_state (remove_directory_recursive P (MAX_RECURSION_DEPTH + 1) p) s = (r1, s1)" by fastforce
  have r1: "r1 = 0" "removes v {q. subtree posix_child v p q} (view (world s1)) 0"
    using leadsD [OF leads_both [OF remove_recursive [where v = v and p = p, OF a(1,3)]
        remove_recursive_succeeds [where v = v and p = p, OF a(1-4)]], of s] 1 v_def by auto
  obtain ok s2 where 2: "run_state (sys_rmdir P p) s1 = (ok, s2)" by fastforce
  have "ok" "view (world s2) = (view (world s1))(p := None)"
    using leadsD [OF reliable_calls(4) [OF a(1,2) px.emptied [where v = v and p = p, OF a(3) r1(2)]], of s1] 2 by auto
  then have s': "r = 0" "view (world s') = (view (world s1))(p := None)"
    using assms(5) 1 2 r1(1) by (simp_all add: fs_delete_directory_def del: remove_directory_recursive.simps)
  then show ?thesis
    using r1(2) unfolding v_def [symmetric] by (auto simp: fun_eq_iff whole_def removes_def)
qed


section \<open>A file system to apply them to\<close>

text \<open>A world that is a list of paths and their \<open>stat\<close> records, with the four calls on it.\<close>

definition list_view :: "(string \<times> stat_t) list \<Rightarrow> tree" where
  "list_view w p = map_option posix_node (map_of w p)"

definition names_under :: "(char \<Rightarrow> bool) \<Rightarrow> string \<Rightarrow> (string \<times> 'a) list \<Rightarrow> string list" where
  "names_under sep d w =
     remdups (List.filter (\<lambda>n. component sep n \<and> \<not> is_dot n)
       (List.map (drop (length d)) (List.filter (\<lambda>q. take (length d) q = d) (List.map fst w))))"

lemma names_under_iff: "n \<in> set (names_under sep d w) \<longleftrightarrow> component sep n \<and> \<not> is_dot n \<and> map_of w (d @ n) \<noteq> None"
proof -
  have "n \<in> set (names_under sep d w) \<longleftrightarrow> component sep n \<and> \<not> is_dot n \<and> d @ n \<in> fst ` set w"
    unfolding names_under_def by (auto simp: image_iff) (metis append_take_drop_id fst_conv, fastforce)
  then show ?thesis by (simp add: map_of_eq_None_iff)
qed

definition names_in :: "(string \<times> stat_t) list \<Rightarrow> string \<Rightarrow> string list" where
  "names_in w p = names_under posix_sep (slashed posix_sep (CHR ''/'') p) w"

definition remove_path :: "(fnode \<Rightarrow> bool) \<Rightarrow> string \<Rightarrow> ((string \<times> stat_t) list, bool) state" where
  "remove_path ok p = do {
     w \<leftarrow> gets id;
     (case list_view w p of
        None \<Rightarrow> ret False
      | Some k \<Rightarrow>
          if ok k \<and> (k = Fdir \<longrightarrow> names_in w p = []) then do {
            modify (List.filter (\<lambda>(q, _). q \<noteq> p));
            ret True }
          else ret False) }"

definition list_posix :: "(string \<times> stat_t) list posix" where
  "list_posix = plain_posix
     \<lparr>px_lstat := (\<lambda>p. gets (\<lambda>w. map_of w p)),
      px_readdir := (\<lambda>p. gets (\<lambda>w. if list_view w p = Some Fdir then Some (names_in w p) else None)),
      px_unlink := remove_path (\<lambda>k. k \<noteq> Fdir),
      px_rmdir := remove_path (\<lambda>k. k = Fdir)\<rparr>"

lemma list_view_filter: "list_view (List.filter (\<lambda>(q, _). q \<noteq> p) w) = (list_view w)(p := None)"
proof
  fix q
  have "map_of (List.filter (\<lambda>(q, _). q \<noteq> p) w) q = (if q = p then None else map_of w q)"
    by (induction w) auto
  then show "list_view (List.filter (\<lambda>(q, _). q \<noteq> p) w) q = ((list_view w)(p := None)) q"
    by (simp add: list_view_def)
qed

lemma names_in_iff:
  "n \<in> set (names_in w p) \<longleftrightarrow> component posix_sep n \<and> \<not> is_dot n \<and> list_view w (joined_posix p n) \<noteq> None"
  unfolding names_in_def names_under_iff list_view_def using px.joined_component [of n p] by auto

lemma names_in_lists: "lists posix_sep joined_posix (list_view w) p (names_in w p)"
  by (simp add: lists_def names_in_iff) (simp add: names_in_def names_under_def)

lemma list_posix_tree: "tree_posix list_posix list_view"
  unfolding tree_posix_def list_posix_def
  by (auto simp: leads_def names_in_lists remove_path_def list_view_filter split: option.splits)
    (auto simp: list_view_def)

lemma names_in_empty: "(\<forall>q. posix_child p q \<longrightarrow> list_view w q = None) \<Longrightarrow> names_in w p = []"
  using names_in_iff [of _ w p] unfolding child_def by (metis list.set_intros(1) neq_Nil_conv)

lemma list_posix_reliable: "reliable list_posix list_view"
  unfolding reliable_def list_posix_def
  by (auto simp: leads_def remove_path_def names_in_empty split: option.splits) (auto simp: list_view_def)

definition demo_files :: "(string \<times> stat_t) list" where
  "demo_files =
     (let dir = plain_stat\<lparr>st_mode := 0x4000\<rparr>; file = plain_stat\<lparr>st_mode := 0x8000, st_size := 3\<rparr>;
          link = plain_stat\<lparr>st_mode := 0xA000\<rparr>
      in [(''/d'', dir), (''/d/a'', file), (''/d/s'', dir), (''/d/s/l'', link), (''/e'', file)])"

definition demo_os :: "(string \<times> stat_t) list os" where
  "demo_os = \<lparr>world = demo_files, trace = [], stuck = False\<rparr>"

lemma demo_view: "list_view demo_files = [''/d'' \<mapsto> Fdir, ''/d/a'' \<mapsto> Ffile 3, ''/d/s'' \<mapsto> Fdir, ''/d/s/l'' \<mapsto> Flink, ''/e'' \<mapsto> Ffile 3]"
  by (simp add: fun_eq_iff list_view_def demo_files_def Let_def posix_node_def S_ISLNK_def S_ISDIR_def S_ISREG_def
      S_IFMT_def plain_stat_def)


lemma child_longer: "posix_child p q \<Longrightarrow> length p < length q"
  by (auto simp: child_def px.joined_component component_def slashed_def)

lemma demo_fits: "fits posix_child (list_view demo_files) (MAX_RECURSION_DEPTH + 1) ''/d''"
proof -
  have levels: "MAX_RECURSION_DEPTH + 1 = Suc (Suc 255)" by (simp add: MAX_RECURSION_DEPTH_def)
  have keys: "list_view demo_files c \<noteq> None \<Longrightarrow> length c \<le> 6" "list_view demo_files c = Some Fdir \<Longrightarrow> length c \<le> 4" for c
    by (auto simp: demo_view split: if_splits)
  have "\<not> (posix_child ''/d/s'' c \<and> list_view demo_files c = Some Fdir)" for c
    using keys(2) [of c] child_longer [of "''/d/s''" c] by auto
  moreover have "posix_child ''/d'' c \<Longrightarrow> list_view demo_files c = Some Fdir \<Longrightarrow> c = ''/d/s''" for c
    using child_longer [of "''/d''" c] by (auto simp: demo_view split: if_splits)
  ultimately show ?thesis
    using keys(1) unfolding levels fits.simps PATH_MAX_def by fastforce
qed

lemma demo_child: "posix_child ''/d'' ''/d/s''" "posix_child ''/d/s'' ''/d/s/l''"
  unfolding child_def
  by (auto intro: exI [of _ "''s''"] exI [of _ "''l''"] simp: component_def posix_sep_def is_dot_def joined_posix_def)

lemma demo_whole:
  "''/d/s/l'' \<in> whole posix_child (list_view demo_files) ''/d''"
  "''/e'' \<notin> whole posix_child (list_view demo_files) ''/d''"
proof -
  have "subtree posix_child (list_view demo_files) ''/d/s'' ''/d/s/l''"
    using demo_child by (intro subtree_child) (simp_all add: demo_view)
  then have "subtree posix_child (list_view demo_files) ''/d'' ''/d/s/l''"
    using demo_child by (intro subtree_deeper [of _ "''/d''" posix_child "''/d/s''"]) (simp_all add: demo_view)
  then show "''/d/s/l'' \<in> whole posix_child (list_view demo_files) ''/d''" by (simp add: whole_def)
  show "''/e'' \<notin> whole posix_child (list_view demo_files) ''/d''"
    using px.whole_under [of "list_view demo_files" "''/d''"] by (auto simp: slashed_def posix_sep_def)
qed

lemma delete_directory_exact_witness:
  "list_view (world (snd (run_state (fs_delete_directory list_posix ''/d'' True) demo_os))) ''/e'' = Some (Ffile 3)"
proof -
  obtain r s' where run: "run_state (fs_delete_directory list_posix ''/d'' True) demo_os = (r, s')" by fastforce
  have "list_view (world demo_os) ''/d'' = Some Fdir" by (simp add: demo_os_def demo_view)
  from delete_directory_exact [OF list_posix_tree this run]
  have "list_view (world s') ''/e'' = list_view demo_files ''/e''"
    using demo_whole(2) by (simp add: demo_os_def)
  then show ?thesis by (simp add: run demo_view)
qed

lemma delete_directory_succeeds_witness:
  "fst (run_state (fs_delete_directory list_posix ''/d'' True) demo_os) = 0 \<and>
   list_view (world (snd (run_state (fs_delete_directory list_posix ''/d'' True) demo_os))) ''/d/s/l'' = None"
proof -
  obtain r s' where run: "run_state (fs_delete_directory list_posix ''/d'' True) demo_os = (r, s')" by fastforce
  have d: "list_view (world demo_os) ''/d'' = Some Fdir" by (simp add: demo_os_def demo_view)
  have f: "fits posix_child (list_view (world demo_os)) (MAX_RECURSION_DEPTH + 1) ''/d''"
    using demo_fits by (simp add: demo_os_def)
  from delete_directory_succeeds [OF list_posix_tree list_posix_reliable d f run]
  show ?thesis unfolding run using demo_whole(1) by (simp add: demo_os_def)
qed

end
