(* ===== verification/Filesys_Tree_Win32.thy ===== *)
theory Filesys_Tree_Win32
  imports Filesys_Tree
begin

text \<open>
  The Windows branch on a tree of files: the recursive removal of a directory, by the same steps as in
  \<open>Filesys_Tree\<close>. Here the code takes what an entry is from the enumeration and not from a call of
  its own, so the argument keeps what the enumeration said of the entries that are still to come.
\<close>

section \<open>The calls on a tree\<close>

definition win_node :: "find_data \<Rightarrow> fnode" where
  "win_node d =
     (if has_attr (dwFileAttributes d) FILE_ATTRIBUTE_REPARSE_POINT then
        (if has_attr (dwFileAttributes d) FILE_ATTRIBUTE_DIRECTORY then Fjunction else Flink)
      else if has_attr (dwFileAttributes d) FILE_ATTRIBUTE_DIRECTORY then Fdir
      else Ffile (sint (quad (nFileSizeHigh d) (nFileSizeLow d))))"

abbreviation win_child :: "string \<Rightarrow> string \<Rightarrow> bool" where
  "win_child \<equiv> child is_sep joined_win32"

text \<open>What is known of the entries that are left: their names differ, and each is what it was found to be.\<close>

definition held :: "tree \<Rightarrow> string \<Rightarrow> find_data list \<Rightarrow> bool" where
  "held v p ds \<longleftrightarrow> distinct (List.map cFileName ds) \<and>
     (\<forall>d\<in>set ds. is_dot (cFileName d) \<or>
        component is_sep (cFileName d) \<and> v (joined_win32 p (cFileName d)) = Some (win_node d))"

text \<open>
  A search with the pattern \<open>*\<close> returns the entries of the directory. \<open>DeleteFileA\<close> does not remove
  directories, \<open>RemoveDirectoryA\<close> removes those that are empty, and junctions.
\<close>

definition tree_win32 :: "'w win32 \<Rightarrow> ('w \<Rightarrow> tree) \<Rightarrow> bool" where
  "tree_win32 W view \<longleftrightarrow>
     (\<forall>p v. v p = Some Fdir \<longrightarrow> leads (\<lambda>w. view w = v) (w32_find W (joined_win32 p ''*''))
       (\<lambda>r w. view w = v \<and> (\<forall>d ds. r = Some (d, ds) \<longrightarrow>
          lists is_sep joined_win32 v p (List.map cFileName (d # ds)) \<and> held v p (d # ds)))) \<and>
     (\<forall>p v. leads (\<lambda>w. view w = v) (w32_delete_file W p)
       (\<lambda>ok w. if ok then v p \<notin> {None, Some Fdir, Some Fjunction} \<and> view w = v(p := None) else view w = v)) \<and>
     (\<forall>p v. leads (\<lambda>w. view w = v) (w32_remove_directory W p)
       (\<lambda>ok w. if ok then v p \<in> {Some Fdir, Some Fjunction} \<and> view w = v(p := None) else view w = v)) \<and>
     (\<forall>p v. leads (\<lambda>w. view w = v) (w32_attributes W p) (\<lambda>_ w. view w = v))"

lemma win_find_tree:
  assumes "tree_win32 W view" "v p = Some Fdir"
  shows "leads (sees view v) (win_find W (joined_win32 p ''*''))
      (\<lambda>r s. sees view v s \<and> (\<forall>d ds. r = Some (d, ds) \<longrightarrow>
          lists is_sep joined_win32 v p (List.map cFileName (d # ds)) \<and> held v p (d # ds)))"
  unfolding win_find_def using assms unfolding tree_win32_def by (intro leads_path_call) blast

lemma win_takes:
  assumes "tree_win32 W view"
  shows "takes view c (win_delete_file W c)" "takes view c (win_remove_directory W c)"
proof -
  have 1: "leads (\<lambda>w. view w = v) (w32_delete_file W c) (\<lambda>ok w. if ok then view w = v(c := None) else view w = v)"
    and 2: "leads (\<lambda>w. view w = v) (w32_remove_directory W c) (\<lambda>ok w. if ok then view w = v(c := None) else view w = v)" for v
    using assms unfolding tree_win32_def by (auto simp: leads_def)
  show "takes view c (win_delete_file W c)" "takes view c (win_remove_directory W c)"
    unfolding takes_def win_delete_file_def win_remove_directory_def
    by (intro allI leads_path_call [OF 1], intro allI leads_path_call [OF 2])
qed

lemma held_next:
  assumes "held v p (d # ds)" "\<not> is_dot (cFileName d)"
    "removes v (whole win_child v (joined_win32 p (cFileName d))) v1 r"
  shows "held v1 p ds"
proof -
  have "v1 (joined_win32 p (cFileName e)) = v (joined_win32 p (cFileName e))"
    if e: "e \<in> set ds" "\<not> is_dot (cFileName e)" for e
  proof -
    have "component is_sep (cFileName d)" "component is_sep (cFileName e)" "cFileName d \<noteq> cFileName e"
      using assms(1,2) e by (auto simp: held_def)
    then have "joined_win32 p (cFileName e) \<notin> whole win_child v (joined_win32 p (cFileName d))"
      using win.under_apart [of "cFileName d" "cFileName e" p] win.whole_under [of v "joined_win32 p (cFileName d)"]
      by blast
    then show ?thesis using assms(3) by (simp add: removes_def)
  qed
  then show ?thesis using assms(1) by (auto simp: held_def)
qed

section \<open>Removal\<close>

lemma remove_loop_win32:
  assumes T: "tree_win32 W view"
    and sub: "\<And>c v. v c = Some Fdir \<Longrightarrow>
      leads (sees view v) (sub c) (\<lambda>r s. removes v {q. subtree win_child v c q} (view (world s)) r)"
  shows "held v p ds \<Longrightarrow> leads (sees view v) (remove_directory_loop_win32 W sub p ds)
    (\<lambda>r s. removes v (win.all_below v p (List.map cFileName ds)) (view (world s)) r)"
proof (induction ds arbitrary: v)
  case Nil
  show ?case by (simp add: leads_def removes_empty)
next
  case (Cons d ds)
  define n where "n = cFileName d"
  show ?case
  proof (cases "is_dot n")
    case True
    then have "held v p ds" using Cons.prems by (auto simp: held_def)
    then show ?thesis using Cons.IH True by (simp add: n_def)
  next
    case False
    define c where "c = joined_win32 p n"
    define R where "R = win.all_below v p (List.map cFileName (d # ds))"
    have n: "component is_sep n" "v c = Some (win_node d)"
      using Cons.prems False by (auto simp: held_def n_def c_def)
    have names: "\<forall>m\<in>set (List.map cFileName ds). is_dot m \<or> component is_sep m"
      using Cons.prems by (auto simp: held_def)
    have rest: "leads (sees view v1) (remove_directory_loop_win32 W sub p ds) (\<lambda>r s. removes v R (view (world s)) r)"
      if v1: "removes v (whole win_child v c) v1 0" for v1
    proof -
      have "held v1 p ds" using held_next [OF Cons.prems] False v1 by (simp add: n_def c_def)
      from Cons.IH [OF this] show ?thesis
        by (rule leads_weaken)
          (use win.remove_next [OF n(1) False names v1 [unfolded c_def]] in \<open>simp_all add: R_def n_def\<close>)
    qed
    have R: "whole win_child v c \<subseteq> R" using False by (simp add: R_def c_def n_def)
    note go = take_and_go [OF win_takes(1) [OF T] _ R rest] take_and_go [OF win_takes(2) [OF T] _ R rest]
      descend_and_go [OF win_takes(2) [OF T] R sub rest]
    show ?thesis
    proof (cases "fs_join_path_win32 PATH_MAX p n")
      case None
      then show ?thesis using False by (simp add: n_def leads_def removes_refl)
    next
      case (Some c')
      then have c': "c' = c" by (auto simp: fs_join_path_win32_joined c_def split: if_splits)
      show ?thesis
        using n(2) unfolding remove_directory_loop_win32.simps n_def [symmetric] if_not_P [OF False] Some option.case c'
          R_def [symmetric, unfolded n_def]
        by (intro leads_if go) (auto simp: win_node_def)
    qed
  qed
qed

lemma remove_recursive_win32:
  assumes T: "tree_win32 W view"
  shows "v p = Some Fdir \<Longrightarrow> leads (sees view v) (remove_directory_recursive_win32 W levels p :: ('w, 'z, int) os_m)
    (\<lambda>r s. removes v {q. subtree win_child v p q} (view (world s)) r)"
proof (induction levels arbitrary: p v)
  case 0
  show ?case by (simp add: leads_def removes_refl)
next
  case (Suc levels)
  show ?case
  proof (cases "fs_join_path_win32 PATH_MAX p ''*''")
    case None
    then show ?thesis by (simp add: leads_def removes_refl)
  next
    case (Some q)
    then have q: "q = joined_win32 p ''*''" by (auto simp: fs_join_path_win32_joined split: if_splits)
    show ?thesis unfolding remove_directory_recursive_win32.simps Some option.case q
    proof (rule leads_seq [OF win_find_tree [where v = v and p = p, OF T Suc.prems]], rule leads_conj)
      fix r assume r: "\<forall>d ds. r = Some (d, ds) \<longrightarrow>
          lists is_sep joined_win32 v p (List.map cFileName (d # ds)) \<and> held v p (d # ds)"
      show "leads (sees view v)
          ((case r of None \<Rightarrow> ret (-1)
           | Some (d, ds) \<Rightarrow>
               remove_directory_loop_win32 W (remove_directory_recursive_win32 W levels) p (d # ds)) :: ('w, 'z, int) os_m)
          (\<lambda>r s. removes v {q. subtree win_child v p q} (view (world s)) r)"
      proof (cases r)
        case None
        then show ?thesis by (simp add: leads_def removes_refl)
      next
        case (Some x)
        then obtain d ds where x: "r = Some (d, ds)" by (cases x) auto
        then have L: "lists is_sep joined_win32 v p (List.map cFileName (d # ds))" "held v p (d # ds)" using r by auto
        have "leads (sees view v) (remove_directory_loop_win32 W (remove_directory_recursive_win32 W levels) p (d # ds) :: ('w, 'z, int) os_m)
            (\<lambda>r s. removes v (win.all_below v p (List.map cFileName (d # ds))) (view (world s)) r)"
          by (rule remove_loop_win32 [OF T _ L(2)]) (rule Suc.IH)
        then show ?thesis unfolding x option.case prod.case
          by (rule leads_weaken) (simp_all only: win.removes_below [where v = v and p = p, OF Suc.prems L(1)])
      qed
    qed
  qed
qed

lemma delete_directory_win32_leads:
  assumes T: "tree_win32 W view" and d: "v p = Some Fdir"
  shows "leads (sees view v) (fs_delete_directory_win32 W p True :: ('w, 'z, int) os_m)
    (\<lambda>r s. removes v (whole win_child v p) (view (world s)) r)"
proof -
  have "leads (sees view v)
      (do { r \<leftarrow> remove_directory_recursive_win32 W (MAX_RECURSION_DEPTH + 1) p;
            if r \<noteq> 0 then ret (-1)
            else do { ok \<leftarrow> win_remove_directory W p; if \<not> ok then ret (-1) else ret 0 } } :: ('w, 'z, int) os_m)
      (\<lambda>r s. removes v (whole win_child v p) (view (world s)) r)"
    by (rule descend_and_go [OF win_takes(2) [OF T] order_refl remove_recursive_win32 [where v = v and p = p, OF T d]])
      (simp add: leads_def)
  then show ?thesis unfolding fs_delete_directory_win32_def ret_if by simp
qed

text \<open>
  C22: the forced removal of the Windows branch removes the directory and what lies below it, and
  nothing else; of junctions and links it removes the link.
\<close>

theorem delete_directory_win32_exact:
  assumes "tree_win32 W view" "view (world s) p = Some Fdir" "run_state (fs_delete_directory_win32 W p True) s = (r, s')"
  shows "(\<forall>q. q \<notin> whole win_child (view (world s)) p \<longrightarrow> view (world s') q = view (world s) q) \<and>
    (\<forall>q. view (world s') q = None \<or> view (world s') q = view (world s) q) \<and>
    (r = 0 \<longrightarrow> (\<forall>q\<in>whole win_child (view (world s)) p. view (world s') q = None))"
  using delete_directory_win32_leads [where v = "view (world s)" and p = p, OF assms(1,2)] assms(3)
  by (auto simp: leads_def removes_def dest!: spec [of _ s])


section \<open>An example\<close>

text \<open>A world that is a list of paths and what a search finds of them.\<close>

definition win_view :: "(string \<times> find_data) list \<Rightarrow> tree" where
  "win_view w p = map_option win_node (map_of w p)"

definition win_entries :: "(string \<times> find_data) list \<Rightarrow> string \<Rightarrow> find_data list" where
  "win_entries w d = List.map (\<lambda>n. (the (map_of w (d @ n)))\<lparr>cFileName := n\<rparr>) (names_under is_sep d w)"

definition win_dir :: find_data where
  "win_dir = \<lparr>dwFileAttributes = FILE_ATTRIBUTE_DIRECTORY, nFileSizeHigh = 0, nFileSizeLow = 0,
     ftHigh = 0, ftLow = 0, cFileName = ''.''\<rparr>"

definition win_remove :: "bool \<Rightarrow> string \<Rightarrow> ((string \<times> find_data) list, bool) state" where
  "win_remove directories p = do {
     w \<leftarrow> gets id;
     (case win_view w p of
        None \<Rightarrow> ret False
      | Some k \<Rightarrow>
          if (k = Fdir \<or> k = Fjunction) = directories \<and>
             (k = Fdir \<longrightarrow> names_under is_sep (slashed is_sep (CHR 0x5C) p) w = []) then do {
            modify (List.filter (\<lambda>(q, _). q \<noteq> p));
            ret True }
          else ret False) }"

definition list_win32 :: "(string \<times> find_data) list win32" where
  "list_win32 = plain_win32
     \<lparr>w32_find := (\<lambda>p. gets (\<lambda>w. Some (win_dir, win_entries w (butlast p)))),
      w32_delete_file := win_remove False,
      w32_remove_directory := win_remove True\<rparr>"

lemma win_view_filter: "win_view (List.filter (\<lambda>(q, _). q \<noteq> p) w) = (win_view w)(p := None)"
proof
  fix q
  have "map_of (List.filter (\<lambda>(q, _). q \<noteq> p) w) q = (if q = p then None else map_of w q)"
    by (induction w) auto
  then show "win_view (List.filter (\<lambda>(q, _). q \<noteq> p) w) q = ((win_view w)(p := None)) q"
    by (simp add: win_view_def)
qed

lemma win_entries_lists:
  "lists is_sep joined_win32 (win_view w) p (List.map cFileName (win_dir # win_entries w (slashed is_sep (CHR 0x5C) p))) \<and>
   held (win_view w) p (win_dir # win_entries w (slashed is_sep (CHR 0x5C) p))"
proof -
  let ?ns = "names_under is_sep (slashed is_sep (CHR 0x5C) p) w"
  have names: "List.map cFileName (win_entries w (slashed is_sep (CHR 0x5C) p)) = ?ns"
    by (simp add: win_entries_def comp_def)
  have iff: "n \<in> set ?ns \<longleftrightarrow> component is_sep n \<and> \<not> is_dot n \<and> win_view w (joined_win32 p n) \<noteq> None" for n
    unfolding names_under_iff win_view_def using win.joined_component [of n p] by auto
  have dot: "is_dot ''.''" "''.'' \<notin> set ?ns" by (simp_all add: is_dot_def iff)
  have "distinct ?ns" by (simp add: names_under_def)
  then have L: "lists is_sep joined_win32 (win_view w) p (List.map cFileName (win_dir # win_entries w (slashed is_sep (CHR 0x5C) p)))"
    using dot iff by (simp add: lists_def names) (simp add: win_dir_def)
  moreover have "win_view w (joined_win32 p (cFileName d)) = Some (win_node d)"
    if d: "d \<in> set (win_entries w (slashed is_sep (CHR 0x5C) p))" for d
  proof -
    obtain n where n: "n \<in> set ?ns" "d = (the (map_of w (slashed is_sep (CHR 0x5C) p @ n)))\<lparr>cFileName := n\<rparr>"
      using d unfolding win_entries_def set_map by blast
    then have "win_view w (joined_win32 p n) \<noteq> None" using iff by simp
    then show ?thesis using n iff win.joined_component [of n p]
      by (auto simp: win_view_def win_node_def)
  qed
  ultimately show ?thesis using dot
    by (auto simp: held_def lists_def) (auto simp: win_dir_def)
qed

lemma list_win32_tree: "tree_win32 list_win32 win_view"
proof -
  have "butlast (joined_win32 p ''*'') = slashed is_sep (CHR 0x5C) p" for p
    using win.joined_component [of "''*''" p] by (simp add: component_def is_sep_def butlast_append)
  then show ?thesis
    unfolding tree_win32_def list_win32_def using win_entries_lists
    by (auto simp: leads_def win_remove_def win_view_filter plain_win32_def split: option.splits)
qed


definition win_files :: "(string \<times> find_data) list" where
  "win_files =
     (let file = win_dir\<lparr>dwFileAttributes := 0, nFileSizeLow := 3\<rparr>
      in [(''d'', win_dir), (''d'' @ CHR 0x5C # ''a'', file), (''e'', file)])"

definition win_os :: "(string \<times> find_data) list os" where
  "win_os = \<lparr>world = win_files, trace = [], stuck = False\<rparr>"

lemma win_files_view: "win_view win_files = [''d'' \<mapsto> Fdir, ''d'' @ CHR 0x5C # ''a'' \<mapsto> Ffile 3, ''e'' \<mapsto> Ffile 3]"
  by (simp add: fun_eq_iff win_view_def win_files_def Let_def win_node_def win_dir_def has_attr_def
      FILE_ATTRIBUTE_DIRECTORY_def FILE_ATTRIBUTE_REPARSE_POINT_def quad_def)

lemma delete_directory_win32_exact_witness:
  "win_view (world (snd (run_state (fs_delete_directory_win32 list_win32 ''d'' True) win_os))) ''e'' = Some (Ffile 3)"
proof -
  obtain r s' where run: "run_state (fs_delete_directory_win32 list_win32 ''d'' True) win_os = (r, s')" by fastforce
  have "win_view (world win_os) ''d'' = Some Fdir" by (simp add: win_os_def win_files_view)
  from delete_directory_win32_exact [OF list_win32_tree this run]
  have "''e'' \<notin> whole win_child (win_view win_files) ''d'' \<Longrightarrow> win_view (world s') ''e'' = win_view win_files ''e''"
    by (simp add: win_os_def)
  moreover have "''e'' \<notin> whole win_child (win_view win_files) ''d''"
    using win.whole_under [of "win_view win_files" "''d''"] by (auto simp: slashed_def is_sep_def)
  ultimately show ?thesis by (simp add: run win_files_view)
qed

end
