(* ===== verification/Directory_Size.thy ===== *)
theory Directory_Size
  imports Filesys_Tree_Win32
begin

text \<open>
  The size of a directory in both branches: when the computation succeeds, it is the sum of the sizes
  of the regular files below the directory, each counted once and none behind a link.
\<close>

definition size_at :: "tree \<Rightarrow> string \<Rightarrow> int" where
  "size_at v q = (case v q of Some (Ffile n) \<Rightarrow> n | _ \<Rightarrow> 0)"

definition tree_size :: "(string \<Rightarrow> string \<Rightarrow> bool) \<Rightarrow> tree \<Rightarrow> string \<Rightarrow> int" where
  "tree_size ch v p = (\<Sum>q | subtree ch v p q. size_at v q)"

text \<open>\<open>R\<close> is a set summed up to \<open>n\<close>; the result of a loop that adds it to \<open>tot\<close>, unless it fails.\<close>

definition total :: "tree \<Rightarrow> string set \<Rightarrow> int \<Rightarrow> bool" where
  "total v R n \<longleftrightarrow> finite R \<and> n = (\<Sum>q\<in>R. size_at v q)"

definition sums :: "tree \<Rightarrow> string set \<Rightarrow> int \<Rightarrow> int \<Rightarrow> bool" where
  "sums v R tot r \<longleftrightarrow> r < 0 \<or> total v R (r - tot)"

lemma sums_none: "sums v {} tot tot" "r < 0 \<Longrightarrow> sums v R tot r"
  by (simp_all add: sums_def total_def)

lemma sums_add: "total v R s \<Longrightarrow> sums v R' (tot + s) r \<Longrightarrow> R \<inter> R' = {} \<Longrightarrow> sums v (R \<union> R') tot r"
  by (auto simp: sums_def total_def sum.union_disjoint)

context path_syntax
begin

lemma whole_disjoint:
  assumes n: "component sep n" "n \<notin> set names" and ns: "\<forall>m\<in>set names. is_dot m \<or> component sep m"
  shows "whole (child sep joined) v (joined p n) \<inter> all_below v p names = {}"
proof -
  have "whole (child sep joined) v (joined p n) \<inter> whole (child sep joined) v (joined p m) = {}"
    if "m \<in> set names" "\<not> is_dot m" for m
  proof -
    have "component sep m" "n \<noteq> m" using that n(2) ns by auto
    then have "under (joined p n) \<inter> under (joined p m) = {}" by (rule under_apart [OF n(1)])
    then show ?thesis using whole_under [of v "joined p n"] whole_under [of v "joined p m"]
      by (meson disjoint_iff subsetD)
  qed
  then show ?thesis unfolding all_below_def by blast
qed

text \<open>A directory itself counts nothing, and what is not a directory has nothing below.\<close>

lemma total_whole:
  assumes "total v {q. subtree (child sep joined) v c q} s" "v c = Some Fdir"
  shows "total v (whole (child sep joined) v c) s"
  using assms subtree_irrefl [of v c] by (auto simp: total_def whole_def size_at_def)

lemma total_leaf: "v c \<noteq> Some Fdir \<Longrightarrow> total v (whole (child sep joined) v c) (size_at v c)"
  by (simp add: total_def not_dir_whole)

lemma sums_below:
  assumes "v p = Some Fdir" "lists sep joined v p names" "sums v (all_below v p names) tot r"
  shows "sums v {q. subtree (child sep joined) v p q} tot r"
proof -
  have "{q. subtree (child sep joined) v p q} = all_below v p names"
  proof
    show "{q. subtree (child sep joined) v p q} \<subseteq> all_below v p names"
      using assms(2) by (intro all_below_subtree [where v = v and p = p, OF assms(1)]) (auto simp: lists_def)
    show "all_below v p names \<subseteq> {q. subtree (child sep joined) v p q}"
    proof
      fix q assume "q \<in> all_below v p names"
      then obtain n where n: "n \<in> set names" "\<not> is_dot n" "q \<in> whole (child sep joined) v (joined p n)"
        by (auto simp: all_below_def)
      then have "child sep joined p (joined p n)" "v (joined p n) \<noteq> None"
        using assms(2) by (auto simp: child_def lists_def)
      then show "q \<in> {q. subtree (child sep joined) v p q}" using n(3) assms(1)
        by (metis insert_iff mem_Collect_eq subtree_child subtree_deeper whole_def)
    qed
  qed
  then show ?thesis using assms(3) by simp
qed

text \<open>One entry counted with size \<open>s\<close>, and the rest from there.\<close>

lemma sums_next:
  assumes "component sep n" "\<not> is_dot n" "n \<notin> set names" "\<forall>m\<in>set names. is_dot m \<or> component sep m"
    "total v (whole (child sep joined) v (joined p n)) s" "sums v (all_below v p names) (tot + s) r"
  shows "sums v (all_below v p (n # names)) tot r"
  using sums_add [OF assms(5,6) whole_disjoint [OF assms(1,3,4)]] assms(2) by simp

lemma descend_and_count:
  assumes d: "v c = Some Fdir"
    and sub: "leads (sees view v) sub (\<lambda>r s. sees view v s \<and> sums v {q. subtree (child sep joined) v c q} 0 r)"
    and rest: "\<And>k. total v (whole (child sep joined) v c) k \<Longrightarrow>
      leads (sees view v) (rest (tot + k)) (\<lambda>r s. sees view v s \<and> sums v R tot r)"
  shows "leads (sees view v) (do { k \<leftarrow> sub; if k < 0 then ret (-1) else rest (tot + k) })
    (\<lambda>r s. sees view v s \<and> sums v R tot r)"
proof (rule leads_const [OF sub])
  fix k assume k: "sums v {q. subtree (child sep joined) v c q} 0 k"
  show "leads (sees view v) (if k < 0 then ret (-1) else rest (tot + k)) (\<lambda>r s. sees view v s \<and> sums v R tot r)"
    using rest [of k] total_whole [of v c k, OF _ d] k by (cases "k < 0") (auto simp: sums_def leads_def)
qed

end

section \<open>The POSIX branch\<close>

lemma size_loop:
  assumes T: "tree_posix P view"
    and sub: "\<And>c v. v c = Some Fdir \<Longrightarrow>
      leads (sees view v) (sub c) (\<lambda>r s. sees view v s \<and> sums v {q. subtree posix_child v c q} 0 r)"
  shows "distinct names \<Longrightarrow> \<forall>n\<in>set names. is_dot n \<or> component posix_sep n \<Longrightarrow>
    leads (sees view v) (dir_size_loop P sub p names tot)
      (\<lambda>r s. sees view v s \<and> sums v (px.all_below v p names) tot r)"
proof (induction names arbitrary: tot)
  case Nil
  show ?case by (simp add: leads_def sums_none)
next
  case (Cons n names)
  show ?case
  proof (cases "is_dot n")
    case True
    then show ?thesis using Cons by simp
  next
    case False
    define c where "c = joined_posix p n"
    have n: "component posix_sep n" "n \<notin> set names" "\<forall>m\<in>set names. is_dot m \<or> component posix_sep m"
      using Cons.prems False by simp_all
    have rest: "leads (sees view v) (dir_size_loop P sub p names (tot + k))
        (\<lambda>r s. sees view v s \<and> sums v (px.all_below v p (n # names)) tot r)"
      if "total v (whole posix_child v c) k" for k
      using Cons.prems px.sums_next [OF n(1) False n(2,3) that [unfolded c_def]]
      by (intro leads_weaken [OF Cons.IH]) simp_all
    have leaf: "leads (sees view v) (dir_size_loop P sub p names (tot + size_at v c))
        (\<lambda>r s. sees view v s \<and> sums v (px.all_below v p (n # names)) tot r)" if "v c \<noteq> Some Fdir"
      using that by (intro rest px.total_leaf)
    have dir: "leads (sees view v) (do { s \<leftarrow> sub c; if s < 0 then ret (-1) else dir_size_loop P sub p names (tot + s) })
        (\<lambda>r s. sees view v s \<and> sums v (px.all_below v p (n # names)) tot r)" if d: "v c = Some Fdir"
      by (rule px.descend_and_count [where rest = "dir_size_loop P sub p names", OF d sub [where v = v and c = c, OF d]])
        (rule rest)
    show ?thesis
    proof (cases "fs_join_path PATH_MAX p n")
      case None
      then show ?thesis using False by (simp add: leads_def sums_none)
    next
      case (Some c')
      then have c': "c' = c" by (auto simp: fs_join_path_joined c_def split: if_splits)
      show ?thesis
        unfolding dir_size_loop.simps if_not_P [OF False] Some option.case c'
      proof (rule leads_seq [OF tree_calls(1) [OF T]], rule leads_conj)
        fix r assume r: "\<forall>st. r = Some st \<longrightarrow> v c = Some (posix_node st)"
        show "leads (sees view v)
          (case r of None \<Rightarrow> ret (-1)
           | Some st \<Rightarrow>
               if S_ISLNK (st_mode st) then dir_size_loop P sub p names tot
               else if S_ISDIR (st_mode st) then do {
                 s \<leftarrow> sub c;
                 if s < 0 then ret (-1) else dir_size_loop P sub p names (tot + s) }
               else if S_ISREG (st_mode st) then dir_size_loop P sub p names (tot + st_size st)
               else dir_size_loop P sub p names tot)
          (\<lambda>r s. sees view v s \<and> sums v (px.all_below v p (n # names)) tot r)"
        proof (cases r)
          case None
          then show ?thesis by (simp add: leads_def sums_none)
        next
          case (Some st)
          then have node: "v c = Some (posix_node st)" using r by simp
          then show ?thesis unfolding Some option.case
            using leaf by (intro leads_if dir) (auto simp: posix_node_def size_at_def)
        qed
      qed
    qed
  qed
qed


lemma size_recursive:
  assumes T: "tree_posix P view"
  shows "v p = Some Fdir \<Longrightarrow> leads (sees view v) (dir_size_recursive P levels p :: ('w, 'z, int) os_m)
    (\<lambda>r s. sees view v s \<and> sums v {q. subtree posix_child v p q} 0 r)"
proof (induction levels arbitrary: p v)
  case 0
  show ?case by (simp add: leads_def sums_none)
next
  case (Suc levels)
  show ?case unfolding dir_size_recursive.simps
  proof (rule leads_seq [OF tree_calls(2) [where v = v and p = p, OF T Suc.prems]], rule leads_conj)
    fix d assume d: "\<forall>names. d = Some names \<longrightarrow> lists posix_sep joined_posix v p names"
    show "leads (sees view v)
        ((case d of None \<Rightarrow> ret (-1)
         | Some names \<Rightarrow> dir_size_loop P (dir_size_recursive P levels) p names 0) :: ('w, 'z, int) os_m)
        (\<lambda>r s. sees view v s \<and> sums v {q. subtree posix_child v p q} 0 r)"
    proof (cases d)
      case None
      then show ?thesis by (simp add: leads_def sums_none)
    next
      case (Some names)
      then have L: "lists posix_sep joined_posix v p names" using d by simp
      then have names: "distinct names" "\<forall>n\<in>set names. is_dot n \<or> component posix_sep n" by (auto simp: lists_def)
      have "leads (sees view v) (dir_size_loop P (dir_size_recursive P levels) p names 0 :: ('w, 'z, int) os_m)
          (\<lambda>r s. sees view v s \<and> sums v (px.all_below v p names) 0 r)"
        by (rule size_loop [OF T _ names]) (rule Suc.IH)
      then show ?thesis unfolding Some option.case
        by (rule leads_weaken) (simp_all add: px.sums_below [where v = v and p = p, OF Suc.prems L])
    qed
  qed
qed




section \<open>The Windows branch\<close>

lemma size_loop_win32:
  assumes sub: "\<And>c v. v c = Some Fdir \<Longrightarrow>
      leads (sees view v) (sub c) (\<lambda>r s. sees view v s \<and> sums v {q. subtree win_child v c q} 0 r)"
  shows "held v p ds \<Longrightarrow> leads (sees view v) (dir_size_loop_win32 W sub p ds tot)
      (\<lambda>r s. sees view v s \<and> sums v (win.all_below v p (List.map cFileName ds)) tot r)"
proof (induction ds arbitrary: tot)
  case Nil
  show ?case by (simp add: leads_def sums_none)
next
  case (Cons d ds)
  define n where "n = cFileName d"
  have held: "held v p ds" using Cons.prems by (auto simp: held_def)
  show ?case
  proof (cases "is_dot n")
    case True
    then show ?thesis using Cons.IH [OF held] by (simp add: n_def)
  next
    case False
    define c where "c = joined_win32 p n"
    define R where "R = win.all_below v p (List.map cFileName (d # ds))"
    have n: "component is_sep n" "n \<notin> set (List.map cFileName ds)" "v c = Some (win_node d)"
      "\<forall>m\<in>set (List.map cFileName ds). is_dot m \<or> component is_sep m"
      using Cons.prems False by (auto simp: held_def n_def c_def)
    have rest: "leads (sees view v) (dir_size_loop_win32 W sub p ds (tot + k)) (\<lambda>r s. sees view v s \<and> sums v R tot r)"
      if "total v (whole win_child v c) k" for k
      by (rule leads_weaken [OF Cons.IH [OF held]])
        (use win.sums_next [OF n(1) False n(2,4) that [unfolded c_def]] in \<open>simp_all add: R_def n_def\<close>)
    have leaf: "leads (sees view v) (dir_size_loop_win32 W sub p ds (tot + size_at v c)) (\<lambda>r s. sees view v s \<and> sums v R tot r)"
      if "v c \<noteq> Some Fdir"
      using that by (intro rest win.total_leaf)
    have dir: "leads (sees view v) (do { s \<leftarrow> sub c; if s < 0 then ret (-1) else dir_size_loop_win32 W sub p ds (tot + s) })
        (\<lambda>r s. sees view v s \<and> sums v R tot r)" if d: "v c = Some Fdir"
      by (rule win.descend_and_count [where rest = "dir_size_loop_win32 W sub p ds", OF d sub [where v = v and c = c, OF d]])
        (rule rest)
    show ?thesis
    proof (cases "fs_join_path_win32 PATH_MAX p n")
      case None
      then show ?thesis using False by (simp add: n_def leads_def sums_none)
    next
      case (Some c')
      then have c': "c' = c" by (auto simp: fs_join_path_win32_joined c_def split: if_splits)
      show ?thesis
        using leaf n(3) unfolding dir_size_loop_win32.simps n_def [symmetric] if_not_P [OF False] Some option.case c'
          R_def [symmetric, unfolded n_def]
        by (intro leads_if dir) (auto simp: win_node_def size_at_def split: if_splits)
    qed
  qed
qed

lemma size_recursive_win32:
  assumes T: "tree_win32 W view"
  shows "v p = Some Fdir \<Longrightarrow> leads (sees view v) (dir_size_recursive_win32 W levels p :: ('w, 'z, int) os_m)
    (\<lambda>r s. sees view v s \<and> sums v {q. subtree win_child v p q} 0 r)"
proof (induction levels arbitrary: p v)
  case 0
  show ?case by (simp add: leads_def sums_none)
next
  case (Suc levels)
  show ?case
  proof (cases "fs_join_path_win32 PATH_MAX p ''*''")
    case None
    then show ?thesis by (simp add: leads_def sums_none)
  next
    case (Some q)
    then have q: "q = joined_win32 p ''*''" by (auto simp: fs_join_path_win32_joined split: if_splits)
    show ?thesis unfolding dir_size_recursive_win32.simps Some option.case q
    proof (rule leads_seq [OF win_find_tree [where v = v and p = p, OF T Suc.prems]], rule leads_conj)
      fix r assume r: "\<forall>d ds. r = Some (d, ds) \<longrightarrow>
          lists is_sep joined_win32 v p (List.map cFileName (d # ds)) \<and> held v p (d # ds)"
      show "leads (sees view v)
          ((case r of None \<Rightarrow> ret (-1)
           | Some (d, ds) \<Rightarrow>
               dir_size_loop_win32 W (dir_size_recursive_win32 W levels) p (d # ds) 0) :: ('w, 'z, int) os_m)
          (\<lambda>r s. sees view v s \<and> sums v {q. subtree win_child v p q} 0 r)"
      proof (cases r)
        case None
        then show ?thesis by (simp add: leads_def sums_none)
      next
        case (Some x)
        then obtain d ds where x: "r = Some (d, ds)" by (cases x) auto
        then have L: "lists is_sep joined_win32 v p (List.map cFileName (d # ds))" "held v p (d # ds)" using r by auto
        have "leads (sees view v) (dir_size_loop_win32 W (dir_size_recursive_win32 W levels) p (d # ds) 0 :: ('w, 'z, int) os_m)
            (\<lambda>r s. sees view v s \<and> sums v (win.all_below v p (List.map cFileName (d # ds))) 0 r)"
          by (rule size_loop_win32 [OF _ L(2)]) (rule Suc.IH)
        then show ?thesis unfolding x option.case prod.case
          by (rule leads_weaken) (use win.sums_below [where v = v and p = p, OF Suc.prems L(1)] in blast)+
      qed
    qed
  qed
qed

text \<open>
  The Windows branch computes the same sum, for a path that is a directory and not a link to one:
  it asks for the attributes of the path only, and a junction has those of a directory.
\<close>

theorem directory_size_win32_is_sum:
  assumes "tree_win32 W view" "view (world s) p = Some Fdir"
    "run_state (fs_get_directory_size_win32 W p) s = (r, s')" "0 \<le> r"
  shows "view (world s') = view (world s) \<and>
    r = (\<Sum>q | subtree win_child (view (world s)) p q. size_at (view (world s)) q)"
proof -
  define v where "v = view (world s)"
  obtain a s1 where 1: "run_state (win_attributes W p) s = (a, s1)" by fastforce
  have "leads (\<lambda>w. view w = v) (w32_attributes W p) (\<lambda>_ w. view w = v)"
    by (rule assms(1) [unfolded tree_win32_def, THEN conjunct2, THEN conjunct2, THEN conjunct2, rule_format])
  then have a: "leads (sees view v) (win_attributes W p) (\<lambda>_. sees view v)"
    unfolding win_attributes_def by (rule leads_path_call)
  have s1: "view (world s1) = v" using leadsD [OF a, of s] 1 v_def by simp
  have run: "run_state (dir_size_recursive_win32 W (MAX_RECURSION_DEPTH + 1) p) s1 = (r, s')"
    using assms(3,4) 1
    by (auto simp: fs_get_directory_size_win32_def simp del: dir_size_recursive_win32.simps split: if_splits)
  have "view (world s') = v \<and> sums v {q. subtree win_child v p q} 0 r"
    using leadsD [OF size_recursive_win32 [where v = v and p = p and levels = "MAX_RECURSION_DEPTH + 1",
        OF assms(1) assms(2) [folded v_def]], of s1] s1 run
    by (simp del: dir_size_recursive_win32.simps)
  then show ?thesis using assms(4) by (simp add: v_def [symmetric] sums_def total_def)
qed

lemma directory_size_win32_is_sum_witness:
  "fst (run_state (fs_get_directory_size_win32 list_win32 ''d'') win_os) = 3 \<and>
   (\<Sum>q | subtree win_child (win_view win_files) ''d'' q. size_at (win_view win_files) q) = 3"
proof -
  obtain r s' where run: "run_state (fs_get_directory_size_win32 list_win32 ''d'') win_os = (r, s')" by fastforce
  have attrs: "has_attr (dwFileAttributes win_dir) FILE_ATTRIBUTE_DIRECTORY" "\<not> has_attr (dwFileAttributes win_dir) FILE_ATTRIBUTE_REPARSE_POINT"
    "\<not> has_attr 0 a" for a
    by (simp_all add: win_dir_def has_attr_def FILE_ATTRIBUTE_DIRECTORY_def FILE_ATTRIBUTE_REPARSE_POINT_def)
  have names: "win_entries win_files (''d'' @ [CHR 0x5C]) = [win_dir\<lparr>dwFileAttributes := 0, nFileSizeLow := 3, cFileName := ''a''\<rparr>]"
    by (simp add: win_entries_def win_files_def names_under_def component_def is_sep_def is_dot_def Let_def)
  have join: "fs_join_path_win32 PATH_MAX ''d'' ''*'' = Some (''d'' @ CHR 0x5C # ''*'')"
    "fs_join_path_win32 PATH_MAX ''d'' ''a'' = Some (''d'' @ CHR 0x5C # ''a'')"
    by (simp_all add: fs_join_path_win32_def joined_win32_def PATH_MAX_def)
  have size: "quad 0 3 = 3" by (simp add: quad_def)
  have loop: "dir_size_loop_win32 W sub ''d'' (win_dir # win_entries win_files (''d'' @ [CHR 0x5C])) 0 = ret 3"
    for W :: "(string \<times> find_data) list win32" and sub :: "string \<Rightarrow> ((string \<times> find_data) list, unit, int) os_m"
    using attrs size unfolding names by (simp add: join) (simp add: win_dir_def is_dot_def)
  have "fst (run_state (fs_get_directory_size_win32 list_win32 ''d'') win_os) = 3"
    using loop unfolding fs_get_directory_size_win32_def
    by (simp add: join win_find_def win_attributes_def path_call_def emit_def os_def
        list_win32_def plain_win32_def win_os_def INVALID_FILE_ATTRIBUTES_def FILE_ATTRIBUTE_DIRECTORY_def has_attr_def
        del: dir_size_loop_win32.simps)
  then have "r = 3" by (simp add: run)
  moreover have "win_view (world win_os) ''d'' = Some Fdir" by (simp add: win_os_def win_files_view)
  ultimately show ?thesis
    unfolding run using directory_size_win32_is_sum [OF list_win32_tree _ run] by (simp add: win_os_def)
qed

end
