(* ===== verification/File_Contents.thy ===== *)
theory File_Contents
  imports Filesys_Win32
begin

text \<open>
  What the functions of \<open>filesys.c\<close> that read and write files do to the contents of files.
  A \<open>store\<close> maps paths to contents and open descriptors to a path and a position;
  \<open>files_posix P view\<close> says that the calls of \<open>P\<close> act on the store \<open>view w\<close> of the world \<open>w\<close> as
  documented: \<open>read\<close> and \<open>write\<close> may transfer less than asked for, may be interrupted, may fail.
  \<open>files_win32\<close> says the same of the Windows API. The functions then implement their contract on the
  store, and leave no descriptor open, on any path through them.
\<close>

section \<open>The store\<close>

record store =
  files :: "string \<Rightarrow> string option"
  handles :: "int \<Rightarrow> (string \<times> nat) option"

text \<open>Writing at a position beyond the end fills the gap with NUL bytes.\<close>

definition overwrite :: "nat \<Rightarrow> string \<Rightarrow> string \<Rightarrow> string" where
  "overwrite pos bs c =
     (if bs = [] then c else take pos c @ replicate (pos - length c) NUL @ bs @ drop (pos + length bs) c)"

lemma overwrite_Nil [simp]: "overwrite pos [] c = c"
  by (simp add: overwrite_def)

lemma overwrite_all: "overwrite 0 bs [] = bs"
  by (simp add: overwrite_def)

lemma overwrite_append: "overwrite (pos + length a) b (overwrite pos a c) = overwrite pos (a @ b) c"
proof (cases "a = [] \<or> b = []")
  case False
  define t where "t = take pos c @ replicate (pos - length c) NUL"
  have t: "length t = pos" by (simp add: t_def)
  have 1: "overwrite pos a c = (t @ a) @ drop (pos + length a) c"
    using False by (simp add: overwrite_def t_def)
  have "take (pos + length a) (overwrite pos a c) = t @ a" unfolding 1 by (simp add: t)
  moreover have "drop (pos + length a + length b) (overwrite pos a c) = drop (pos + length a + length b) c"
    unfolding 1 using t by (simp add: add.commute)
  moreover have "pos + length a - length (overwrite pos a c) = 0" unfolding 1 by (simp add: t)
  ultimately show ?thesis
    using False by (simp add: overwrite_def t_def add.assoc)
qed auto

lemma read_overwritten: "take (length bs) (drop pos (overwrite pos bs c)) = bs"
  by (simp add: overwrite_def min_def)

definition move :: "int \<Rightarrow> string \<Rightarrow> nat \<Rightarrow> store \<Rightarrow> store" where
  "move fd p pos v = v\<lparr>handles := (handles v)(fd \<mapsto> (p, pos))\<rparr>"

definition put :: "string \<Rightarrow> string \<Rightarrow> store \<Rightarrow> store" where
  "put p c v = v\<lparr>files := (files v)(p \<mapsto> c)\<rparr>"

definition shut :: "int \<Rightarrow> store \<Rightarrow> store" where
  "shut fd v = v\<lparr>handles := (handles v)(fd := None)\<rparr>"

lemma store_simps [simp]:
  "files (move fd p pos v) = files v" "handles (move fd p pos v) = (handles v)(fd \<mapsto> (p, pos))"
  "files (put p c v) = (files v)(p \<mapsto> c)" "handles (put p c v) = handles v"
  "files (shut fd v) = files v" "handles (shut fd v) = (handles v)(fd := None)"
  "move fd p i (move fd p j v) = move fd p i v" "put p c (put p d v) = put p c v"
  "put p c (move fd q i v) = move fd q i (put p c v)" "shut fd (move fd p i v) = shut fd v"
  "shut fd (put p c v) = put p c (shut fd v)"
  by (simp_all add: move_def put_def shut_def)

lemma put_same: "files v p = Some c \<Longrightarrow> put p c v = v"
  by (cases v) (simp add: put_def fun_upd_idem)

lemma move_same: "handles v fd = Some (p, pos) \<Longrightarrow> move fd p pos v = v"
  by (cases v) (simp add: move_def fun_upd_idem)

lemma shut_fresh: "handles v fd = None \<Longrightarrow> shut fd v = v"
  by (cases v) (simp add: shut_def fun_upd_idem)

abbreviation shows_store :: "('w \<Rightarrow> store) \<Rightarrow> store \<Rightarrow> ('w, 'z) os_scheme \<Rightarrow> bool" where
  "shows_store view v s \<equiv> view (world s) = v"

section \<open>What single calls do to the store\<close>

text \<open>
  The contracts of the calls of both branches: what a call transfers, if its result says that it
  transferred anything. \<open>out\<close> reads the result.
\<close>

definition reads_from :: "('w \<Rightarrow> store) \<Rightarrow> int \<Rightarrow> nat \<Rightarrow> ('r \<Rightarrow> string option) \<Rightarrow> ('w, 'z, 'r) os_m \<Rightarrow> bool" where
  "reads_from view fd n out m \<longleftrightarrow> (\<forall>v p pos c. handles v fd = Some (p, pos) \<longrightarrow> files v p = Some c \<longrightarrow>
     leads (shows_store view v) m (\<lambda>r s. case out r of None \<Rightarrow> shows_store view v s
       | Some bs \<Rightarrow> length bs \<le> n \<and> bs = take (length bs) (drop pos c) \<and> (bs = [] \<longrightarrow> length c \<le> pos) \<and>
           shows_store view (move fd p (pos + length bs) v) s))"

definition writes_to :: "('w \<Rightarrow> store) \<Rightarrow> int \<Rightarrow> string \<Rightarrow> ('r \<Rightarrow> nat option) \<Rightarrow> ('w, 'z, 'r) os_m \<Rightarrow> bool" where
  "writes_to view fd bs out m \<longleftrightarrow> (\<forall>v p pos c. handles v fd = Some (p, pos) \<longrightarrow> files v p = Some c \<longrightarrow>
     leads (shows_store view v) m (\<lambda>r s. case out r of None \<Rightarrow> shows_store view v s
       | Some n \<Rightarrow> n \<le> length bs \<and>
           shows_store view (move fd p (pos + n) (put p (overwrite pos (take n bs) c) v)) s))"

text \<open>\<open>start\<close> is what a file holds after it has been opened: \<open>None\<close> where there is none to open.\<close>

definition opens :: "('w \<Rightarrow> store) \<Rightarrow> string \<Rightarrow> (string option \<Rightarrow> string option) \<Rightarrow> (int \<Rightarrow> bool) \<Rightarrow> ('w, 'z, int) os_m \<Rightarrow> bool" where
  "opens view path start good m \<longleftrightarrow> (\<forall>v. leads (shows_store view v) m (\<lambda>fd s.
     if \<not> good fd then shows_store view v s
     else handles v fd = None \<and> (\<exists>c. start (files v path) = Some c \<and> shows_store view (move fd path 0 (put path c v)) s)))"

definition seeks :: "('w \<Rightarrow> store) \<Rightarrow> int \<Rightarrow> nat \<Rightarrow> ('w, 'z, bool) os_m \<Rightarrow> bool" where
  "seeks view fd off m \<longleftrightarrow> (\<forall>v p pos. handles v fd = Some (p, pos) \<longrightarrow>
     leads (shows_store view v) m (\<lambda>ok s. if ok then shows_store view (move fd p off v) s else shows_store view v s))"

definition closes :: "('w \<Rightarrow> store) \<Rightarrow> int \<Rightarrow> ('w, 'z, unit) os_m \<Rightarrow> bool" where
  "closes view fd m \<longleftrightarrow> (\<forall>v. leads (shows_store view v) m (\<lambda>_. shows_store view (shut fd v)))"

definition observes :: "('w \<Rightarrow> store) \<Rightarrow> ('w, 'z, 'r) os_m \<Rightarrow> bool" where
  "observes view m \<longleftrightarrow> (\<forall>v. leads (shows_store view v) m (\<lambda>_. shows_store view v))"

section \<open>The loops\<close>

definition posix_bytes :: "errno + 'a \<Rightarrow> 'a option" where
  "posix_bytes r = (case r of Inl _ \<Rightarrow> None | Inr a \<Rightarrow> Some a)"

text \<open>Where the reading loops end, and what they have read by then.\<close>

definition has_read :: "('w \<Rightarrow> store) \<Rightarrow> store \<Rightarrow> int \<Rightarrow> string \<Rightarrow> string \<Rightarrow> string option \<Rightarrow> ('w, 'z) os_scheme \<Rightarrow> bool" where
  "has_read view v fd p data r s \<longleftrightarrow>
     (\<exists>pos. shows_store view (move fd p pos v) s) \<and> (\<forall>bs. r = Some bs \<longrightarrow> bs = data)"

lemma read_split: "length bs \<le> want \<Longrightarrow> bs = take (length bs) (drop pos c) \<Longrightarrow>
    take want (drop pos c) = bs @ take (want - length bs) (drop (pos + length bs) c)"
  by (metis add.commute drop_drop le_add_diff_inverse take_add)

lemma has_read_move [simp]: "has_read view (move fd p pos v) fd p data = has_read view v fd p data"
  by (simp add: has_read_def fun_eq_iff)

lemma read_loop_contents:
  assumes call: "\<And>n. 0 < n \<Longrightarrow> reads_from view fd n posix_bytes (sys_read P fd n :: ('w, 'z, errno + string) os_m)"
  shows "handles v fd = Some (p, pos) \<Longrightarrow> files v p = Some c \<Longrightarrow>
    leads (shows_store view v) (read_loop P fd k want out :: ('w, 'z, string option) os_m)
      (has_read view v fd p (out @ take want (drop pos c)))"
  using call
proof (induction P fd k want out arbitrary: v pos rule: read_loop.induct)
  case (1 P fd k want out)
  note IH = 1(1,2) and fd = 1(3) and cont = 1(4) and call = 1(5)
  show ?case
  proof (cases "want = 0")
    case True
    then show ?thesis using move_same [OF fd]
      by (subst read_loop.simps) (auto simp: leads_def has_read_def intro!: exI [of _ pos])
  next
    case False
    show ?thesis unfolding read_loop.simps [of P fd k want out] if_not_P [OF False]
    proof (rule leads_seq [OF call [unfolded reads_from_def, rule_format, of want, OF _ fd cont]])
      show "0 < want" using False by simp
      fix r :: "errno + string"
      let ?rest = "case r of
          Inl err \<Rightarrow> if err = EINTR then if k = 0 then do { give_up; ret None } else read_loop P fd (k - 1) want out else ret None
        | Inr bs \<Rightarrow> if length bs = 0 then ret (Some out) else read_loop P fd k (want - length bs) (out @ bs)"
      show "leads (\<lambda>s. case posix_bytes r of None \<Rightarrow> shows_store view v s
          | Some bs \<Rightarrow> length bs \<le> want \<and> bs = take (length bs) (drop pos c) \<and> (bs = [] \<longrightarrow> length c \<le> pos) \<and>
              shows_store view (move fd p (pos + length bs) v) s)
          (?rest :: ('w, 'z, string option) os_m) (has_read view v fd p (out @ take want (drop pos c)))"
      proof (cases r)
        case (Inl err)
        have stay: "leads (shows_store view v) (do { give_up; ret None } :: ('w, 'z, string option) os_m) (has_read view v fd p x)"
          "leads (shows_store view v) (ret None :: ('w, 'z, string option) os_m) (has_read view v fd p x)" for x
          using move_same [OF fd] by (auto simp: leads_def has_read_def give_up_def intro!: exI [of _ pos])
        show ?thesis
          using IH(1) [OF False Inl, OF _ _ fd cont call] stay by (simp add: Inl posix_bytes_def)
      next
        case (Inr bs)
        have new: "handles (move fd p (pos + length bs) v) fd = Some (p, pos + length bs)"
          "files (move fd p (pos + length bs) v) p = Some c" using cont by simp_all
        have "leads (shows_store view (move fd p (pos + length bs) v)) (?rest :: ('w, 'z, string option) os_m)
            (has_read view v fd p (out @ take want (drop pos c)))"
          if bs: "length bs \<le> want" "bs = take (length bs) (drop pos c)" "bs = [] \<longrightarrow> length c \<le> pos"
        proof (cases "bs = []")
          case True
          then show ?thesis using bs by (auto simp: Inr leads_def has_read_def)
        next
          case False
          have "take want (drop pos c) = bs @ take (want - length bs) (drop (pos + length bs) c)"
            using read_split [OF bs(1,2)] .
          then show ?thesis
            using IH(2) [OF \<open>want \<noteq> 0\<close> Inr _ new call] False
            by (simp add: Inr has_read_move)
        qed
        then show ?thesis by (auto simp: Inr posix_bytes_def leads_def)
      qed
    qed
  qed
qed


text \<open>The first \<open>m\<close> bytes of \<open>todo\<close> are in the file, all of them when the loop reports success.\<close>

definition has_written :: "('w \<Rightarrow> store) \<Rightarrow> store \<Rightarrow> int \<Rightarrow> string \<Rightarrow> nat \<Rightarrow> string \<Rightarrow> string \<Rightarrow> bool \<Rightarrow> ('w, 'z) os_scheme \<Rightarrow> bool" where
  "has_written view v fd p pos c todo ok s \<longleftrightarrow>
     (\<exists>m \<le> length todo. shows_store view (move fd p (pos + m) (put p (overwrite pos (take m todo) c) v)) s \<and>
        (ok \<longrightarrow> m = length todo))"

lemma has_written_none:
  assumes "handles v fd = Some (p, pos)" "files v p = Some c" "shows_store view v s" "ok \<Longrightarrow> todo = []"
  shows "has_written view v fd p pos c todo ok s"
  using assms unfolding has_written_def by (intro exI [of _ 0]) (auto simp: put_same move_same)

lemma has_written_more:
  assumes "n \<le> length todo"
    "has_written view (move fd p (pos + n) (put p (overwrite pos (take n todo) c) v)) fd p (pos + n)
       (overwrite pos (take n todo) c) (drop n todo) ok s"
  shows "has_written view v fd p pos c todo ok s"
proof -
  from assms(2) obtain m where m: "m \<le> length todo - n" "ok \<longrightarrow> m = length todo - n"
    "shows_store view (move fd p (pos + n + m)
        (put p (overwrite (pos + n) (take m (drop n todo)) (overwrite pos (take n todo) c)) v)) s"
    by (auto simp: has_written_def)
  have "take n todo @ take m (drop n todo) = take (n + m) todo" by (simp add: take_add)
  then have "overwrite (pos + n) (take m (drop n todo)) (overwrite pos (take n todo) c) = overwrite pos (take (n + m) todo) c"
    using overwrite_append [of pos "take n todo" "take m (drop n todo)" c] assms(1) by (simp add: min.absorb2)
  then show ?thesis using m assms(1) unfolding has_written_def by (intro exI [of _ "n + m"]) (auto simp: add.assoc)
qed

lemma write_loop_contents:
  assumes call: "\<And>bs. writes_to view fd bs posix_bytes (sys_write P fd bs :: ('w, 'z, errno + nat) os_m)"
  shows "handles v fd = Some (p, pos) \<Longrightarrow> files v p = Some c \<Longrightarrow>
    leads (shows_store view v) (write_loop P fd k todo :: ('w, 'z, bool) os_m) (has_written view v fd p pos c todo)"
  using call
proof (induction P fd k todo arbitrary: v pos c rule: write_loop.induct)
  case (1 P fd k todo)
  note IH = 1(1,2,3) and fd = 1(4) and cont = 1(5) and call = 1(6)
  show ?case
  proof (cases "todo = []")
    case True
    then show ?thesis using has_written_none [OF fd cont]
      by (subst write_loop.simps) (auto simp: leads_def)
  next
    case False
    show ?thesis unfolding write_loop.simps [of P fd k todo] if_not_P [OF False]
    proof (rule leads_seq [OF call [unfolded writes_to_def, rule_format, OF fd cont]])
      fix r :: "errno + nat"
      let ?rest = "case r of
          Inl err \<Rightarrow> if err = EINTR then if k = 0 then do { give_up; ret False } else write_loop P fd (k - 1) todo else ret False
        | Inr n \<Rightarrow> if n = 0 then if k = 0 then do { give_up; ret False } else write_loop P fd (k - 1) todo
            else write_loop P fd k (drop n todo)"
      have stop: "leads (shows_store view v) (do { give_up; ret False } :: ('w, 'z, bool) os_m) (has_written view v fd p pos c todo)"
        "leads (shows_store view v) (ret False :: ('w, 'z, bool) os_m) (has_written view v fd p pos c todo)"
        unfolding leads_def by (intro allI impI has_written_none [OF fd cont]; simp add: give_up_def)+
      show "leads (\<lambda>s. case posix_bytes r of None \<Rightarrow> shows_store view v s
          | Some n \<Rightarrow> n \<le> length todo \<and>
              shows_store view (move fd p (pos + n) (put p (overwrite pos (take n todo) c) v)) s)
          (?rest :: ('w, 'z, bool) os_m) (has_written view v fd p pos c todo)"
      proof (cases r)
        case (Inl err)
        show ?thesis using IH(1) [OF False Inl, OF _ _ fd cont call] stop by (simp add: Inl posix_bytes_def)
      next
        case (Inr n)
        show ?thesis
        proof (cases "n = 0")
          case True
          then show ?thesis using IH(2) [OF False Inr, OF _ _ fd cont call] stop
            by (simp add: Inr posix_bytes_def put_same [OF cont] move_same [OF fd])
        next
          case n: False
          define v' where "v' = move fd p (pos + n) (put p (overwrite pos (take n todo) c) v)"
          have new: "handles v' fd = Some (p, pos + n)" "files v' p = Some (overwrite pos (take n todo) c)"
            by (simp_all add: v'_def)
          have "leads (shows_store view v') (write_loop P fd k (drop n todo) :: ('w, 'z, bool) os_m)
              (has_written view v fd p pos c todo)" if "n \<le> length todo"
            using IH(3) [OF False Inr n new call]
            by (rule leads_weaken) (use has_written_more [OF that] in \<open>simp_all add: v'_def\<close>)
          then show ?thesis using n by (auto simp: Inr posix_bytes_def leads_def v'_def)
        qed
      qed
    qed
  qed
qed


section \<open>Opening and closing\<close>

lemma open_then:
  assumes m: "opens view path start good m" and fail: "\<And>s. shows_store view v s \<Longrightarrow> J x s"
    and body: "\<And>fd c. good fd \<Longrightarrow> handles v fd = None \<Longrightarrow> start (files v path) = Some c \<Longrightarrow>
      leads (shows_store view (move fd path 0 (put path c v))) (body fd) J"
  shows "leads (shows_store view v) (do { fd \<leftarrow> m; if \<not> good fd then ret x else body fd }) J"
proof (rule leads_seq [OF m [unfolded opens_def, rule_format]])
  fix fd
  show "leads (\<lambda>s. if \<not> good fd then shows_store view v s
      else handles v fd = None \<and> (\<exists>c. start (files v path) = Some c \<and> shows_store view (move fd path 0 (put path c v)) s))
      (if \<not> good fd then ret x else body fd) J"
    using fail body unfolding leads_def by (cases "good fd") auto
qed

lemma seek_then:
  assumes m: "seeks view fd off m" and h: "handles v fd = Some (p, pos)"
    and fail: "leads (shows_store view v) e J" and body: "leads (shows_store view (move fd p off v)) b J"
  shows "leads (shows_store view v) (do { ok \<leftarrow> m; if \<not> ok then e else b }) J"
proof (rule leads_seq [OF m [unfolded seeks_def, rule_format, OF h]])
  fix ok
  show "leads (\<lambda>s. if ok then shows_store view (move fd p off v) s else shows_store view v s) (if \<not> ok then e else b) J"
    using fail body by (cases ok) simp_all
qed

text \<open>Closing gives the descriptors of the beginning back, where the one in hand was a new one.\<close>

lemma close_then:
  assumes m: "closes view fd m" and fresh: "handles v fd = None"
    and J: "\<And>s. shows_store view v s \<Longrightarrow> J r s"
  shows "leads (shows_store view (move fd p pos v)) (do { m; ret r }) J"
proof (rule leads_seq [OF m [unfolded closes_def, rule_format]])
  fix u :: unit
  show "leads (shows_store view (shut fd (move fd p pos v))) (ret r) J"
    using J by (simp add: leads_def shut_fresh [OF fresh])
qed

lemma observe_then:
  assumes m: "observes view m" and rest: "\<And>a. leads (shows_store view v) (f a) J"
  shows "leads (shows_store view v) (State_Monad.bind m f) J"
  by (rule leads_seq [OF m [unfolded observes_def, rule_format] rest])

text \<open>
  The contracts of the functions: reading leaves the store as it is, writing changes one file only,
  to \<open>want\<close> when it succeeds.
\<close>

definition has_contents :: "('w \<Rightarrow> store) \<Rightarrow> store \<Rightarrow> string \<Rightarrow> nat \<Rightarrow> nat \<Rightarrow> string option \<Rightarrow> ('w, 'z) os_scheme \<Rightarrow> bool" where
  "has_contents view v path off len r s \<longleftrightarrow> shows_store view v s \<and>
     (\<forall>data. r = Some data \<longrightarrow> (\<exists>c. files v path = Some c \<and> data = take len (drop off c)))"

definition has_stored :: "('w \<Rightarrow> store) \<Rightarrow> store \<Rightarrow> string \<Rightarrow> string \<Rightarrow> int \<Rightarrow> int \<Rightarrow> ('w, 'z) os_scheme \<Rightarrow> bool" where
  "has_stored view v path want n r s \<longleftrightarrow>
     (r = n \<and> shows_store view (put path want v) s \<or>
      r = -1 \<and> (shows_store view v s \<or> (\<exists>c. shows_store view (put path c v) s)))"

definition old_contents :: "string option \<Rightarrow> string" where
  "old_contents x = (case x of None \<Rightarrow> [] | Some c \<Rightarrow> c)"

text \<open>After the loops: what is read is returned, what is written stays.\<close>

lemma read_then_close:
  assumes m: "closes view fd m" and fresh: "handles v fd = None" and c: "files v path = Some c"
    and data: "data = take len (drop off c)"
  shows "leads (has_read view (move fd path pos v) fd path data r) (do { m; ret r }) (has_contents view v path off len)"
proof -
  have "leads (shows_store view (move fd path pos v)) (do { m; ret r }) (has_contents view v path off len)"
    if "\<forall>bs. r = Some bs \<longrightarrow> bs = data" for pos
    using that c data by (intro close_then [OF m fresh]) (auto simp: has_contents_def)
  then show ?thesis by (auto simp: leads_def has_read_def)
qed

lemma write_then_close:
  assumes m: "closes view fd m" and f: "observes view f" and fresh: "handles v fd = None"
    and n: "n = int (length todo)"
  shows "leads (has_written view (move fd path off (put path c v)) fd path off c todo ok)
    (do { f; m; ret (if ok then n else -1) }) (has_stored view v path (overwrite off todo c) n)"
proof -
  have "leads (shows_store view (move fd path pos (put path (overwrite off (take k todo) c) v)))
      (do { f; m; ret (if ok then n else -1) }) (has_stored view v path (overwrite off todo c) n)"
    if "ok \<longrightarrow> k = length todo" for k pos
    using that fresh n by (intro observe_then [OF f] close_then [OF m]) (auto simp: has_stored_def)
  then show ?thesis by (auto simp: leads_def has_written_def)
qed


section \<open>The POSIX branch\<close>

definition opened :: "open_mode \<Rightarrow> string option \<Rightarrow> string option" where
  "opened k x = (case k of O_read \<Rightarrow> x | O_write_create \<Rightarrow> Some (old_contents x) | O_write_create_trunc \<Rightarrow> Some [])"

definition files_posix :: "'w posix \<Rightarrow> ('w \<Rightarrow> store) \<Rightarrow> bool" where
  "files_posix P view \<longleftrightarrow>
     (\<forall>path k v. leads (\<lambda>w. view w = v) (px_open P path k) (\<lambda>fd w.
        if fd < 0 then view w = v
        else handles v fd = None \<and> (\<exists>c. opened k (files v path) = Some c \<and> view w = move fd path 0 (put path c v)))) \<and>
     (\<forall>fd n v p pos c. 0 < n \<longrightarrow> handles v fd = Some (p, pos) \<longrightarrow> files v p = Some c \<longrightarrow>
        leads (\<lambda>w. view w = v) (px_read P fd n) (\<lambda>r w. case r of Inl _ \<Rightarrow> view w = v
          | Inr bs \<Rightarrow> length bs \<le> n \<and> bs = take (length bs) (drop pos c) \<and> (bs = [] \<longrightarrow> length c \<le> pos) \<and>
              view w = move fd p (pos + length bs) v)) \<and>
     (\<forall>fd bs v p pos c. handles v fd = Some (p, pos) \<longrightarrow> files v p = Some c \<longrightarrow>
        leads (\<lambda>w. view w = v) (px_write P fd bs) (\<lambda>r w. case r of Inl _ \<Rightarrow> view w = v
          | Inr n \<Rightarrow> n \<le> length bs \<and> view w = move fd p (pos + n) (put p (overwrite pos (take n bs) c) v))) \<and>
     (\<forall>fd off v p pos. 0 \<le> off \<longrightarrow> handles v fd = Some (p, pos) \<longrightarrow>
        leads (\<lambda>w. view w = v) (px_lseek P fd off) (\<lambda>ok w. if ok then view w = move fd p (nat off) v else view w = v)) \<and>
     (\<forall>fd v p pos c. handles v fd = Some (p, pos) \<longrightarrow> files v p = Some c \<longrightarrow>
        leads (\<lambda>w. view w = v) (px_fstat P fd) (\<lambda>r w. view w = v \<and> (\<forall>st. r = Some st \<longrightarrow> st_size st = int (length c)))) \<and>
     (\<forall>fd v. leads (\<lambda>w. view w = v) (px_fsync P fd) (\<lambda>_ w. view w = v)) \<and>
     (\<forall>fd v. leads (\<lambda>w. view w = v) (px_close P fd) (\<lambda>_ w. view w = shut fd v))"

lemma store_os: "leads (\<lambda>w. view w = v) m (\<lambda>a w. J a (view w)) \<Longrightarrow> leads (shows_store view v) (os m) (\<lambda>a s. J a (view (world s)))"
  by (auto simp: leads_def os_def case_prod_beta)

lemma store_emit: "leads (shows_store view v) m J \<Longrightarrow> leads (shows_store view v) (do { emit e; m }) J"
  by (simp add: leads_def emit_def)

lemma posix_opens: "files_posix P view \<Longrightarrow> opens view path (opened k) (\<lambda>fd. \<not> fd < 0) (sys_open P path k)"
  unfolding files_posix_def opens_def sys_open_def path_call_def by (intro allI store_emit store_os) simp

lemma posix_reads:
  assumes "files_posix P view" "0 < n"
  shows "reads_from view fd n posix_bytes (sys_read P fd n)"
  unfolding reads_from_def
proof (intro allI impI)
  fix v :: store and p pos c
  assume h: "handles v fd = Some (p, pos)" "files v p = Some c"
  have "leads (\<lambda>w. view w = v) (px_read P fd n) (\<lambda>r w. case r of Inl _ \<Rightarrow> view w = v
      | Inr bs \<Rightarrow> length bs \<le> n \<and> bs = take (length bs) (drop pos c) \<and> (bs = [] \<longrightarrow> length c \<le> pos) \<and>
          view w = move fd p (pos + length bs) v)"
    by (rule assms(1) [unfolded files_posix_def, THEN conjunct2, THEN conjunct1, rule_format, OF assms(2) h])
  then show "leads (shows_store view v) (sys_read P fd n) (\<lambda>r s. case posix_bytes r of None \<Rightarrow> shows_store view v s
      | Some bs \<Rightarrow> length bs \<le> n \<and> bs = take (length bs) (drop pos c) \<and> (bs = [] \<longrightarrow> length c \<le> pos) \<and>
          shows_store view (move fd p (pos + length bs) v) s)"
    unfolding sys_read_def
    by (intro leads_seq [OF store_os [where J = "\<lambda>r x. case r of Inl _ \<Rightarrow> x = v
      | Inr bs \<Rightarrow> length bs \<le> n \<and> bs = take (length bs) (drop pos c) \<and> (bs = [] \<longrightarrow> length c \<le> pos) \<and>
          x = move fd p (pos + length bs) v"]])
      (auto simp: leads_def posix_bytes_def emit_def split: sum.splits)
qed

lemma posix_writes:
  assumes "files_posix P view"
  shows "writes_to view fd bs posix_bytes (sys_write P fd bs)"
  unfolding writes_to_def
proof (intro allI impI)
  fix v :: store and p pos c
  assume h: "handles v fd = Some (p, pos)" "files v p = Some c"
  have "leads (\<lambda>w. view w = v) (px_write P fd bs) (\<lambda>r w. case r of Inl _ \<Rightarrow> view w = v
      | Inr n \<Rightarrow> n \<le> length bs \<and> view w = move fd p (pos + n) (put p (overwrite pos (take n bs) c) v))"
    by (rule assms [unfolded files_posix_def, THEN conjunct2, THEN conjunct2, THEN conjunct1, rule_format, OF h])
  then show "leads (shows_store view v) (sys_write P fd bs) (\<lambda>r s. case posix_bytes r of None \<Rightarrow> shows_store view v s
      | Some n \<Rightarrow> n \<le> length bs \<and> shows_store view (move fd p (pos + n) (put p (overwrite pos (take n bs) c) v)) s)"
    unfolding sys_write_def
    by (intro leads_seq [OF store_os [where J = "\<lambda>r x. case r of Inl _ \<Rightarrow> x = v
      | Inr n \<Rightarrow> n \<le> length bs \<and> x = move fd p (pos + n) (put p (overwrite pos (take n bs) c) v)"]])
      (auto simp: leads_def posix_bytes_def emit_def split: sum.splits)
qed

lemma posix_others:
  assumes "files_posix P view"
  shows "0 \<le> off \<Longrightarrow> seeks view fd (nat off) (sys_lseek P fd off)" "closes view fd (sys_close P fd)"
    "observes view (os (px_fsync P fd))"
  using assms unfolding files_posix_def seeks_def closes_def observes_def sys_lseek_def sys_close_def
  by (intro allI impI store_emit store_os; blast)+

text \<open>The loops on an open file, and the closing after them.\<close>

lemma posix_read_loop:
  assumes F: "files_posix P view" and c: "files v path = Some c"
  shows "leads (shows_store view (move fd path pos v)) (read_loop P fd k want [])
    (has_read view v fd path (take want (drop pos c)))"
  using read_loop_contents [OF posix_reads [OF F], where v = "move fd path pos v" and fd = fd and p = path
      and pos = pos and c = c and want = want and out = "[]"] c by simp

lemma posix_read_close:
  assumes F: "files_posix P view" and fresh: "handles v fd = None" and c: "files v path = Some c"
  shows "leads (shows_store view (move fd path pos v)) (do { r \<leftarrow> read_loop P fd k want []; sys_close P fd; ret r })
    (has_contents view v path pos want)"
  by (rule leads_seq [OF posix_read_loop [OF F c]])
    (rule read_then_close [OF posix_others(2) [OF F] fresh c refl, where pos = 0, unfolded has_read_move])

lemma posix_write_close:
  assumes F: "files_posix P view" and fresh: "handles v fd = None"
  shows "leads (shows_store view (move fd path pos (put path c v)))
    (do { ok \<leftarrow> write_loop P fd k todo; os (px_fsync P fd); sys_close P fd;
          ret (if ok then int (length todo) else -1) })
    (has_stored view v path (overwrite pos todo c) (int (length todo)))"
proof (rule leads_seq)
  show "leads (shows_store view (move fd path pos (put path c v))) (write_loop P fd k todo)
      (has_written view (move fd path pos (put path c v)) fd path pos c todo)"
    by (rule write_loop_contents [OF posix_writes [OF F]]) simp_all
  fix ok
  show "leads (has_written view (move fd path pos (put path c v)) fd path pos c todo ok)
      (do { os (px_fsync P fd); sys_close P fd; ret (if ok then int (length todo) else -1) })
      (has_stored view v path (overwrite pos todo c) (int (length todo)))"
    by (rule write_then_close [OF posix_others(2,3) [OF F] fresh refl])
qed

lemma read_chunk_contents:
  assumes F: "files_posix P view"
  shows "leads (shows_store view v) (fs_read_file_chunk P path offset len) (has_contents view v path (nat offset) len)"
proof (cases "offset < 0 \<or> len = 0")
  case False
  have body: "leads (shows_store view (move fd path 0 (put path c v)))
      (do { ok \<leftarrow> sys_lseek P fd offset;
            if \<not> ok then do { sys_close P fd; ret None }
            else do { r \<leftarrow> read_loop P fd (px_patience P) len []; sys_close P fd; ret r } })
      (has_contents view v path (nat offset) len)"
    if fresh: "handles v fd = None" and c: "opened O_read (files v path) = Some c" for fd c
  proof (rule seek_then [OF posix_others(1) [OF F]])
    have v: "put path c v = v" "files v path = Some c" using c put_same by (simp_all add: opened_def)
    show "handles (move fd path 0 (put path c v)) fd = Some (path, 0)" by simp
    show "leads (shows_store view (move fd path 0 (put path c v))) (do { sys_close P fd; ret None })
        (has_contents view v path (nat offset) len)"
      unfolding v by (rule close_then [OF posix_others(2) [OF F] fresh]) (simp add: has_contents_def)
    show "leads (shows_store view (move fd path (nat offset) (move fd path 0 (put path c v))))
        (do { r \<leftarrow> read_loop P fd (px_patience P) len []; sys_close P fd; ret r })
        (has_contents view v path (nat offset) len)"
      unfolding v store_simps by (rule posix_read_close [OF F fresh v(2)])
  qed (use False in simp)
  have "leads (shows_store view v)
      (do { fd \<leftarrow> sys_open P path O_read;
            if \<not> \<not> fd < 0 then ret None
            else do { ok \<leftarrow> sys_lseek P fd offset;
              if \<not> ok then do { sys_close P fd; ret None }
              else do { r \<leftarrow> read_loop P fd (px_patience P) len []; sys_close P fd; ret r } } })
      (has_contents view v path (nat offset) len)"
    by (rule open_then [OF posix_opens [OF F]]) (simp add: has_contents_def, rule body)
  then show ?thesis using False by (simp add: fs_read_file_chunk_def)
qed (simp add: fs_read_file_chunk_def leads_def has_contents_def)


lemma write_chunk_contents:
  assumes F: "files_posix P view"
  shows "leads (shows_store view v) (fs_write_file_chunk P path buffer offset)
    (has_stored view v path (overwrite (nat offset) buffer (old_contents (files v path))) (int (length buffer)))"
    (is "leads _ _ ?J")
proof (cases "offset < 0")
  case False
  have body: "leads (shows_store view (move fd path 0 (put path c v)))
      (do { ok \<leftarrow> sys_lseek P fd offset;
            if \<not> ok then do { sys_close P fd; ret (-1) }
            else do { ok \<leftarrow> write_loop P fd (px_patience P) buffer; os (px_fsync P fd); sys_close P fd;
                      ret (if ok then int (length buffer) else -1) } }) ?J"
    if fresh: "handles v fd = None" and "opened O_write_create (files v path) = Some c" for fd c
  proof (rule seek_then [OF posix_others(1) [OF F]])
    have c: "c = old_contents (files v path)" using that(2) by (simp add: opened_def)
    show "handles (move fd path 0 (put path c v)) fd = Some (path, 0)" by simp
    show "leads (shows_store view (move fd path 0 (put path c v))) (do { sys_close P fd; ret (-1) }) ?J"
      using fresh by (intro close_then [OF posix_others(2) [OF F]]) (auto simp: has_stored_def)
    show "leads (shows_store view (move fd path (nat offset) (move fd path 0 (put path c v))))
        (do { ok \<leftarrow> write_loop P fd (px_patience P) buffer; os (px_fsync P fd); sys_close P fd;
              ret (if ok then int (length buffer) else -1) }) ?J"
      unfolding store_simps c by (rule posix_write_close [OF F fresh])
  qed (use False in simp)
  have "leads (shows_store view v)
      (do { fd \<leftarrow> sys_open P path O_write_create;
            if \<not> \<not> fd < 0 then ret (-1)
            else do { ok \<leftarrow> sys_lseek P fd offset;
              if \<not> ok then do { sys_close P fd; ret (-1) }
              else do { ok \<leftarrow> write_loop P fd (px_patience P) buffer; os (px_fsync P fd); sys_close P fd;
                        ret (if ok then int (length buffer) else -1) } } }) ?J"
    by (rule open_then [OF posix_opens [OF F]]) (simp add: has_stored_def, rule body)
  then show ?thesis using False by (simp add: fs_write_file_chunk_def)
qed (simp add: fs_write_file_chunk_def leads_def has_stored_def)

lemma write_all_contents:
  assumes F: "files_posix P view"
  shows "leads (shows_store view v) (fs_write_file_all P path buffer)
    (has_stored view v path buffer (int (length buffer)))" (is "leads _ _ ?J")
proof -
  have "leads (shows_store view v)
      (do { fd \<leftarrow> sys_open P path O_write_create_trunc;
            if \<not> \<not> fd < 0 then ret (-1)
            else do { ok \<leftarrow> write_loop P fd (px_patience P) buffer; os (px_fsync P fd); sys_close P fd;
                      ret (if ok then int (length buffer) else -1) } }) ?J"
  proof (rule open_then [OF posix_opens [OF F]])
    fix fd c assume fresh: "handles v fd = None" and "opened O_write_create_trunc (files v path) = Some c"
    then have "c = []" by (simp add: opened_def)
    then show "leads (shows_store view (move fd path 0 (put path c v)))
        (do { ok \<leftarrow> write_loop P fd (px_patience P) buffer; os (px_fsync P fd); sys_close P fd;
              ret (if ok then int (length buffer) else -1) }) ?J"
      using posix_write_close [OF F fresh, where c = "[]" and pos = 0 and todo = buffer] by (simp add: overwrite_all)
  qed (simp add: has_stored_def)
  then show ?thesis by (simp add: fs_write_file_all_def)
qed

lemma posix_fstat:
  assumes "files_posix P view" "handles v fd = Some (p, pos)" "files v p = Some c"
  shows "leads (shows_store view v) (os (px_fstat P fd))
    (\<lambda>r s. shows_store view v s \<and> (\<forall>st. r = Some st \<longrightarrow> st_size st = int (length c)))"
  by (rule store_os [where J = "\<lambda>r x. x = v \<and> (\<forall>st. r = Some st \<longrightarrow> st_size st = int (length c))"],
      rule assms(1) [unfolded files_posix_def, THEN conjunct2, THEN conjunct2, THEN conjunct2, THEN conjunct2,
        THEN conjunct1, rule_format, OF assms(2,3)])

lemma read_all_contents:
  assumes F: "files_posix P view"
  shows "leads (shows_store view v) (fs_read_file_all P path buffer_size) (has_contents view v path 0 buffer_size)"
    (is "leads _ _ ?J")
proof (cases "buffer_size = 0")
  case False
  have body: "leads (shows_store view (move fd path 0 (put path c v)))
      (do { st \<leftarrow> os (px_fstat P fd);
            case st of None \<Rightarrow> do { sys_close P fd; ret None }
            | Some st \<Rightarrow> do { r \<leftarrow> read_loop P fd (px_patience P) (nat (min (st_size st) (int buffer_size))) [];
                sys_close P fd; ret r } }) ?J"
    if fresh: "handles v fd = None" and c: "opened O_read (files v path) = Some c" for fd c
  proof -
    have v: "put path c v = v" "files v path = Some c" using c put_same by (simp_all add: opened_def)
    have h: "handles (move fd path 0 v) fd = Some (path, 0)" "files (move fd path 0 v) path = Some c" using v by simp_all
    show ?thesis unfolding v
    proof (rule leads_seq [OF posix_fstat [OF F h]])
      fix r :: "stat_t option"
      have close: "leads (shows_store view (move fd path 0 v)) (do { sys_close P fd; ret None }) ?J"
        by (rule close_then [OF posix_others(2) [OF F] fresh]) (simp add: has_contents_def)
      have "take (nat (min (int (length c)) (int buffer_size))) (drop 0 c) = take buffer_size (drop 0 c)"
        by (simp add: min_def)
      then have "has_contents view v path 0 (nat (min (int (length c)) (int buffer_size))) = ?J"
        using v(2) unfolding has_contents_def by simp
      then have read: "leads (shows_store view (move fd path 0 v))
          (do { r \<leftarrow> read_loop P fd (px_patience P) (nat (min (int (length c)) (int buffer_size))) []; sys_close P fd; ret r }) ?J"
        using posix_read_close [OF F fresh v(2)] by metis
      show "leads (\<lambda>s. shows_store view (move fd path 0 v) s \<and> (\<forall>st. r = Some st \<longrightarrow> st_size st = int (length c)))
          (case r of None \<Rightarrow> do { sys_close P fd; ret None }
            | Some st \<Rightarrow> do { r \<leftarrow> read_loop P fd (px_patience P) (nat (min (st_size st) (int buffer_size))) [];
                sys_close P fd; ret r }) ?J"
        by (rule leads_conj) (cases r; use close read in simp)
    qed
  qed
  have "leads (shows_store view v)
      (do { fd \<leftarrow> sys_open P path O_read;
            if \<not> \<not> fd < 0 then ret None
            else do { st \<leftarrow> os (px_fstat P fd);
              case st of None \<Rightarrow> do { sys_close P fd; ret None }
              | Some st \<Rightarrow> do { r \<leftarrow> read_loop P fd (px_patience P) (nat (min (st_size st) (int buffer_size))) [];
                  sys_close P fd; ret r } } }) ?J"
    by (rule open_then [OF posix_opens [OF F]]) (simp add: has_contents_def, rule body)
  then show ?thesis using False by (simp add: fs_read_file_all_def)
qed (simp add: fs_read_file_all_def leads_def has_contents_def)

end
