(* ===== verification/File_Contents_Win32.thy ===== *)
theory File_Contents_Win32
  imports File_Contents
begin

text \<open>
  Reading and writing files on the Windows branch, against the contracts of \<open>File_Contents\<close>, and the
  properties of both branches: the functions implement reads and writes on contents of files.
\<close>

section \<open>The calls\<close>

definition created :: "create_mode \<Rightarrow> string option \<Rightarrow> string option" where
  "created k x = (case k of Open_query \<Rightarrow> x | Open_existing \<Rightarrow> x | Create_always \<Rightarrow> Some []
     | Open_always \<Rightarrow> Some (old_contents x))"

definition files_win32 :: "'w win32 \<Rightarrow> ('w \<Rightarrow> store) \<Rightarrow> bool" where
  "files_win32 W view \<longleftrightarrow>
     (\<forall>path k v. leads (\<lambda>w. view w = v) (w32_create_file W path k) (\<lambda>fd w.
        if fd = INVALID_HANDLE_VALUE then view w = v
        else handles v fd = None \<and> (\<exists>c. created k (files v path) = Some c \<and> view w = move fd path 0 (put path c v)))) \<and>
     (\<forall>fd n v p pos c. 0 < n \<longrightarrow> handles v fd = Some (p, pos) \<longrightarrow> files v p = Some c \<longrightarrow>
        leads (\<lambda>w. view w = v) (w32_read_file W fd n) (\<lambda>r w. case r of None \<Rightarrow> view w = v
          | Some bs \<Rightarrow> length bs \<le> n \<and> bs = take (length bs) (drop pos c) \<and> (bs = [] \<longrightarrow> length c \<le> pos) \<and>
              view w = move fd p (pos + length bs) v)) \<and>
     (\<forall>fd bs v p pos c. handles v fd = Some (p, pos) \<longrightarrow> files v p = Some c \<longrightarrow>
        leads (\<lambda>w. view w = v) (w32_write_file W fd bs) (\<lambda>r w. case r of None \<Rightarrow> view w = v
          | Some n \<Rightarrow> n \<le> length bs \<and> view w = move fd p (pos + n) (put p (overwrite pos (take n bs) c) v))) \<and>
     (\<forall>fd off v p pos. 0 \<le> off \<longrightarrow> handles v fd = Some (p, pos) \<longrightarrow>
        leads (\<lambda>w. view w = v) (w32_set_pointer W fd off) (\<lambda>ok w. if ok then view w = move fd p (nat off) v else view w = v)) \<and>
     (\<forall>fd v p pos c. handles v fd = Some (p, pos) \<longrightarrow> files v p = Some c \<longrightarrow>
        leads (\<lambda>w. view w = v) (w32_file_size W fd) (\<lambda>r w. view w = v \<and> (\<forall>n. r = Some n \<longrightarrow> n = int (length c)))) \<and>
     (\<forall>fd v. leads (\<lambda>w. view w = v) (w32_flush W fd) (\<lambda>_ w. view w = v)) \<and>
     (\<forall>fd v. leads (\<lambda>w. view w = v) (w32_close_handle W fd) (\<lambda>_ w. view w = shut fd v))"

lemma win_opens: "files_win32 W view \<Longrightarrow> opens view path (created k) (\<lambda>fd. fd \<noteq> INVALID_HANDLE_VALUE) (win_create_file W path k)"
  unfolding files_win32_def opens_def win_create_file_def path_call_def by (intro allI store_emit store_os) simp

lemma win_reads:
  assumes "files_win32 W view" "0 < n"
  shows "reads_from view fd n id (win_read_file W fd n)"
  unfolding reads_from_def
proof (intro allI impI)
  fix v :: store and p pos c
  assume h: "handles v fd = Some (p, pos)" "files v p = Some c"
  let ?J = "\<lambda>r x. case r of None \<Rightarrow> x = v
      | Some bs \<Rightarrow> length bs \<le> n \<and> bs = take (length bs) (drop pos c) \<and> (bs = [] \<longrightarrow> length c \<le> pos) \<and>
          x = move fd p (pos + length bs) v"
  have "leads (\<lambda>w. view w = v) (w32_read_file W fd n) (\<lambda>r w. ?J r (view w))"
    by (rule assms(1) [unfolded files_win32_def, THEN conjunct2, THEN conjunct1, rule_format, OF assms(2) h])
  then show "leads (shows_store view v) (win_read_file W fd n) (\<lambda>r s. case id r of None \<Rightarrow> shows_store view v s
      | Some bs \<Rightarrow> length bs \<le> n \<and> bs = take (length bs) (drop pos c) \<and> (bs = [] \<longrightarrow> length c \<le> pos) \<and>
          shows_store view (move fd p (pos + length bs) v) s)"
    unfolding win_read_file_def
    by (intro leads_seq [OF store_os [where J = ?J]]) (auto simp: leads_def emit_def split: option.splits)
qed

lemma win_writes:
  assumes "files_win32 W view"
  shows "writes_to view fd bs id (win_write_file W fd bs)"
  unfolding writes_to_def
proof (intro allI impI)
  fix v :: store and p pos c
  assume h: "handles v fd = Some (p, pos)" "files v p = Some c"
  let ?J = "\<lambda>r x. case r of None \<Rightarrow> x = v
      | Some n \<Rightarrow> n \<le> length bs \<and> x = move fd p (pos + n) (put p (overwrite pos (take n bs) c) v)"
  have "leads (\<lambda>w. view w = v) (w32_write_file W fd bs) (\<lambda>r w. ?J r (view w))"
    by (rule assms [unfolded files_win32_def, THEN conjunct2, THEN conjunct2, THEN conjunct1, rule_format, OF h])
  then show "leads (shows_store view v) (win_write_file W fd bs) (\<lambda>r s. case id r of None \<Rightarrow> shows_store view v s
      | Some n \<Rightarrow> n \<le> length bs \<and> shows_store view (move fd p (pos + n) (put p (overwrite pos (take n bs) c) v)) s)"
    unfolding win_write_file_def
    by (intro leads_seq [OF store_os [where J = ?J]]) (auto simp: leads_def emit_def split: option.splits)
qed

lemma win_others:
  assumes "files_win32 W view"
  shows "0 \<le> off \<Longrightarrow> seeks view fd (nat off) (win_set_pointer W fd off)" "closes view fd (win_close_handle W fd)"
    "observes view (os (w32_flush W fd))"
  using assms unfolding files_win32_def seeks_def closes_def observes_def win_set_pointer_def win_close_handle_def
  by (intro allI impI store_emit store_os; blast)+

lemma win_file_size:
  assumes "files_win32 W view" "handles v fd = Some (p, pos)" "files v p = Some c"
  shows "leads (shows_store view v) (os (w32_file_size W fd))
    (\<lambda>r s. shows_store view v s \<and> (\<forall>n. r = Some n \<longrightarrow> n = int (length c)))"
  by (rule store_os [where J = "\<lambda>r x. x = v \<and> (\<forall>n. r = Some n \<longrightarrow> n = int (length c))"],
      rule assms(1) [unfolded files_win32_def, THEN conjunct2, THEN conjunct2, THEN conjunct2, THEN conjunct2,
        THEN conjunct1, rule_format, OF assms(2,3)])

section \<open>The loops\<close>

lemma read_loop_win32_contents:
  assumes call: "\<And>n. 0 < n \<Longrightarrow> reads_from view fd n id (win_read_file W fd n :: ('w, 'z, string option) os_m)"
  shows "handles v fd = Some (p, pos) \<Longrightarrow> files v p = Some c \<Longrightarrow>
    leads (shows_store view v) (read_loop_win32 W fd want out :: ('w, 'z, string option) os_m)
      (has_read view v fd p (out @ take want (drop pos c)))"
  using call
proof (induction W fd want out arbitrary: v pos rule: read_loop_win32.induct)
  case (1 W fd want out)
  note IH = 1(1) and fd = 1(2) and cont = 1(3) and call = 1(4)
  define n where "n = (if want > MAXDWORD then MAXDWORD else want)"
  have stay: "leads (shows_store view v) (ret r :: ('w, 'z, string option) os_m) (has_read view v fd p x)"
    if "\<forall>bs. r = Some bs \<longrightarrow> bs = x" for r x
    using that move_same [OF fd] by (auto simp: leads_def has_read_def intro!: exI [of _ pos])
  show ?case
  proof (cases "want = 0")
    case True
    then show ?thesis by (subst read_loop_win32.simps) (auto intro!: stay)
  next
    case False
    have n: "0 < n" "n \<le> want" using False by (auto simp: n_def MAXDWORD_def)
    show ?thesis unfolding read_loop_win32.simps [of W fd want out] if_not_P [OF False] n_def [symmetric]
    proof (rule leads_seq [OF call [unfolded reads_from_def, rule_format, OF n(1) fd cont]])
      fix r :: "string option"
      let ?rest = "case r of None \<Rightarrow> ret None
        | Some bs \<Rightarrow> if length bs = 0 then ret (Some out) else read_loop_win32 W fd (want - length bs) (out @ bs)"
      show "leads (\<lambda>s. case id r of None \<Rightarrow> shows_store view v s
          | Some bs \<Rightarrow> length bs \<le> n \<and> bs = take (length bs) (drop pos c) \<and> (bs = [] \<longrightarrow> length c \<le> pos) \<and>
              shows_store view (move fd p (pos + length bs) v) s)
          (?rest :: ('w, 'z, string option) os_m) (has_read view v fd p (out @ take want (drop pos c)))"
      proof (cases r)
        case None
        then show ?thesis using stay by simp
      next
        case (Some bs)
        have new: "handles (move fd p (pos + length bs) v) fd = Some (p, pos + length bs)"
          "files (move fd p (pos + length bs) v) p = Some c" using cont by simp_all
        have "leads (shows_store view (move fd p (pos + length bs) v)) (?rest :: ('w, 'z, string option) os_m)
            (has_read view v fd p (out @ take want (drop pos c)))"
          if bs: "length bs \<le> n" "bs = take (length bs) (drop pos c)" "bs = [] \<longrightarrow> length c \<le> pos"
        proof (cases "bs = []")
          case True
          then show ?thesis using bs by (auto simp: Some leads_def has_read_def)
        next
          case False
          have "take want (drop pos c) = bs @ take (want - length bs) (drop (pos + length bs) c)"
            using read_split [OF _ bs(2)] bs(1) n(2) by simp
          then show ?thesis
            using IH [OF \<open>want \<noteq> 0\<close> Some _ new call] False by (simp add: Some)
        qed
        then show ?thesis by (auto simp: Some leads_def)
      qed
    qed
  qed
qed


lemma write_loop_win32_contents:
  assumes call: "\<And>bs. writes_to view fd bs id (win_write_file W fd bs :: ('w, 'z, nat option) os_m)"
  shows "handles v fd = Some (p, pos) \<Longrightarrow> files v p = Some c \<Longrightarrow>
    leads (shows_store view v) (write_loop_win32 W fd k todo :: ('w, 'z, bool) os_m) (has_written view v fd p pos c todo)"
  using call
proof (induction W fd k todo arbitrary: v pos c rule: write_loop_win32.induct)
  case (1 W fd k todo)
  note IH = 1(1,2) and fd = 1(3) and cont = 1(4) and call = 1(5)
  show ?case
  proof (cases "todo = []")
    case True
    then show ?thesis using has_written_none [OF fd cont]
      by (subst write_loop_win32.simps) (auto simp: leads_def)
  next
    case False
    show ?thesis unfolding write_loop_win32.simps [of W fd k todo] if_not_P [OF False]
    proof (rule leads_seq [OF call [unfolded writes_to_def, rule_format, OF fd cont]])
      fix r :: "nat option"
      let ?rest = "case r of None \<Rightarrow> ret False
        | Some n \<Rightarrow> if n = 0 then if k = 0 then do { give_up; ret False } else write_loop_win32 W fd (k - 1) todo
            else write_loop_win32 W fd k (drop n todo)"
      have stop: "leads (shows_store view v) (do { give_up; ret False } :: ('w, 'z, bool) os_m) (has_written view v fd p pos c todo)"
        "leads (shows_store view v) (ret False :: ('w, 'z, bool) os_m) (has_written view v fd p pos c todo)"
        unfolding leads_def by (intro allI impI has_written_none [OF fd cont]; simp add: give_up_def)+
      show "leads (\<lambda>s. case id r of None \<Rightarrow> shows_store view v s
          | Some n \<Rightarrow> n \<le> length (take MAXDWORD todo) \<and>
              shows_store view (move fd p (pos + n) (put p (overwrite pos (take n (take MAXDWORD todo)) c) v)) s)
          (?rest :: ('w, 'z, bool) os_m) (has_written view v fd p pos c todo)"
      proof (cases r)
        case None
        then show ?thesis using stop by simp
      next
        case (Some n)
        show ?thesis
        proof (cases "n = 0")
          case True
          then show ?thesis using IH(1) [OF False Some, OF _ _ fd cont call] stop
            by (simp add: Some put_same [OF cont] move_same [OF fd])
        next
          case n: False
          define v' where "v' = move fd p (pos + n) (put p (overwrite pos (take n todo) c) v)"
          have new: "handles v' fd = Some (p, pos + n)" "files v' p = Some (overwrite pos (take n todo) c)"
            by (simp_all add: v'_def)
          have "leads (shows_store view v') (write_loop_win32 W fd k (drop n todo) :: ('w, 'z, bool) os_m)
              (has_written view v fd p pos c todo)" if "n \<le> length todo"
            using IH(2) [OF False Some n new call]
            by (rule leads_weaken) (use has_written_more [OF that] in \<open>simp_all add: v'_def\<close>)
          then show ?thesis using n by (auto simp: Some leads_def v'_def min_def split: if_splits)
        qed
      qed
    qed
  qed
qed

section \<open>The functions\<close>

lemma win_read_close:
  assumes F: "files_win32 W view" and fresh: "handles v fd = None" and c: "files v path = Some c"
  shows "leads (shows_store view (move fd path pos v)) (do { r \<leftarrow> read_loop_win32 W fd want []; win_close_handle W fd; ret r })
    (has_contents view v path pos want)"
proof (rule leads_seq)
  show "leads (shows_store view (move fd path pos v)) (read_loop_win32 W fd want [])
      (has_read view v fd path (take want (drop pos c)))"
    using read_loop_win32_contents [OF win_reads [OF F], where v = "move fd path pos v" and fd = fd and p = path
        and pos = pos and c = c and want = want and out = "[]"] c by simp
  fix r
  show "leads (has_read view v fd path (take want (drop pos c)) r) (do { win_close_handle W fd; ret r })
      (has_contents view v path pos want)"
    by (rule read_then_close [OF win_others(2) [OF F] fresh c refl, where pos = 0, unfolded has_read_move])
qed

lemma win_write_close:
  assumes F: "files_win32 W view" and fresh: "handles v fd = None"
  shows "leads (shows_store view (move fd path pos (put path c v)))
    (do { ok \<leftarrow> write_loop_win32 W fd k todo;
          if \<not> ok then do { win_close_handle W fd; ret (-1) }
          else do { os (w32_flush W fd); win_close_handle W fd; ret (int (length todo)) } })
    (has_stored view v path (overwrite pos todo c) (int (length todo)))" (is "leads _ _ ?J")
proof (rule leads_seq)
  show "leads (shows_store view (move fd path pos (put path c v))) (write_loop_win32 W fd k todo)
      (has_written view (move fd path pos (put path c v)) fd path pos c todo)"
    by (rule write_loop_win32_contents [OF win_writes [OF F]]) simp_all
  fix ok
  have fail: "leads (shows_store view (move fd path i (put path d v))) (do { win_close_handle W fd; ret (-1) }) ?J" for i d
    using fresh by (intro close_then [OF win_others(2) [OF F]]) (auto simp: has_stored_def)
  show "leads (has_written view (move fd path pos (put path c v)) fd path pos c todo ok)
      (if \<not> ok then do { win_close_handle W fd; ret (-1) }
       else do { os (w32_flush W fd); win_close_handle W fd; ret (int (length todo)) }) ?J"
  proof (cases ok)
    case True
    then show ?thesis using write_then_close [OF win_others(2,3) [OF F] fresh refl, where ok = True] by simp
  next
    case False
    then show ?thesis using fail unfolding leads_def has_written_def by auto
  qed
qed

lemma read_chunk_win32_contents:
  assumes F: "files_win32 W view"
  shows "leads (shows_store view v) (fs_read_file_chunk_win32 W path offset len) (has_contents view v path (nat offset) len)"
    (is "leads _ _ ?J")
proof (cases "offset < 0 \<or> len = 0")
  case False
  have body: "leads (shows_store view (move fd path 0 (put path c v)))
      (do { ok \<leftarrow> win_set_pointer W fd offset;
            if \<not> ok then do { win_close_handle W fd; ret None }
            else do { r \<leftarrow> read_loop_win32 W fd len []; win_close_handle W fd; ret r } }) ?J"
    if fresh: "handles v fd = None" and c: "created Open_existing (files v path) = Some c" for fd c
  proof (rule seek_then [OF win_others(1) [OF F]])
    have v: "put path c v = v" "files v path = Some c" using c put_same by (simp_all add: created_def)
    show "handles (move fd path 0 (put path c v)) fd = Some (path, 0)" by simp
    show "leads (shows_store view (move fd path 0 (put path c v))) (do { win_close_handle W fd; ret None }) ?J"
      unfolding v by (rule close_then [OF win_others(2) [OF F] fresh]) (simp add: has_contents_def)
    show "leads (shows_store view (move fd path (nat offset) (move fd path 0 (put path c v))))
        (do { r \<leftarrow> read_loop_win32 W fd len []; win_close_handle W fd; ret r }) ?J"
      unfolding v store_simps by (rule win_read_close [OF F fresh v(2)])
  qed (use False in simp)
  have "leads (shows_store view v)
      (do { fd \<leftarrow> win_create_file W path Open_existing;
            if \<not> fd \<noteq> INVALID_HANDLE_VALUE then ret None
            else do { ok \<leftarrow> win_set_pointer W fd offset;
              if \<not> ok then do { win_close_handle W fd; ret None }
              else do { r \<leftarrow> read_loop_win32 W fd len []; win_close_handle W fd; ret r } } }) ?J"
    by (rule open_then [OF win_opens [OF F]]) (simp add: has_contents_def, rule body)
  then show ?thesis using False by (simp add: fs_read_file_chunk_win32_def)
qed (simp add: fs_read_file_chunk_win32_def leads_def has_contents_def)

lemma write_chunk_win32_contents:
  assumes F: "files_win32 W view"
  shows "leads (shows_store view v) (fs_write_file_chunk_win32 W path buffer offset)
    (has_stored view v path (overwrite (nat offset) buffer (old_contents (files v path))) (int (length buffer)))"
    (is "leads _ _ ?J")
proof (cases "offset < 0")
  case False
  let ?body = "\<lambda>fd. do { ok \<leftarrow> write_loop_win32 W fd (w32_patience W) buffer;
      if \<not> ok then do { win_close_handle W fd; ret (-1) }
      else do { os (w32_flush W fd); win_close_handle W fd; ret (int (length buffer)) } }"
  have body: "leads (shows_store view (move fd path 0 (put path c v)))
      (do { ok \<leftarrow> win_set_pointer W fd offset;
            if \<not> ok then do { win_close_handle W fd; ret (-1) } else ?body fd }) ?J"
    if fresh: "handles v fd = None" and "created Open_always (files v path) = Some c" for fd c
  proof (rule seek_then [OF win_others(1) [OF F]])
    have c: "c = old_contents (files v path)" using that(2) by (simp add: created_def)
    show "handles (move fd path 0 (put path c v)) fd = Some (path, 0)" by simp
    show "leads (shows_store view (move fd path 0 (put path c v))) (do { win_close_handle W fd; ret (-1) }) ?J"
      using fresh by (intro close_then [OF win_others(2) [OF F]]) (auto simp: has_stored_def)
    show "leads (shows_store view (move fd path (nat offset) (move fd path 0 (put path c v)))) (?body fd) ?J"
      unfolding store_simps c by (rule win_write_close [OF F fresh])
  qed (use False in simp)
  have "leads (shows_store view v)
      (do { fd \<leftarrow> win_create_file W path Open_always;
            if \<not> fd \<noteq> INVALID_HANDLE_VALUE then ret (-1)
            else do { ok \<leftarrow> win_set_pointer W fd offset;
              if \<not> ok then do { win_close_handle W fd; ret (-1) } else ?body fd } }) ?J"
    by (rule open_then [OF win_opens [OF F]]) (simp add: has_stored_def, rule body)
  then show ?thesis using False by (simp add: fs_write_file_chunk_win32_def)
qed (simp add: fs_write_file_chunk_win32_def leads_def has_stored_def)


lemma write_all_win32_contents:
  assumes F: "files_win32 W view"
  shows "leads (shows_store view v) (fs_write_file_all_win32 W path buffer)
    (has_stored view v path buffer (int (length buffer)))" (is "leads _ _ ?J")
proof -
  let ?body = "\<lambda>fd. do { ok \<leftarrow> write_loop_win32 W fd (w32_patience W) buffer;
      if \<not> ok then do { win_close_handle W fd; ret (-1) }
      else do { os (w32_flush W fd); win_close_handle W fd; ret (int (length buffer)) } }"
  have "leads (shows_store view v)
      (do { fd \<leftarrow> win_create_file W path Create_always;
            if \<not> fd \<noteq> INVALID_HANDLE_VALUE then ret (-1) else ?body fd }) ?J"
  proof (rule open_then [OF win_opens [OF F]])
    fix fd c assume fresh: "handles v fd = None" and "created Create_always (files v path) = Some c"
    then have "c = []" by (simp add: created_def)
    then show "leads (shows_store view (move fd path 0 (put path c v))) (?body fd) ?J"
      using win_write_close [OF F fresh, where c = "[]" and pos = 0 and todo = buffer] by (simp add: overwrite_all)
  qed (simp add: has_stored_def)
  then show ?thesis by (simp add: fs_write_file_all_win32_def)
qed

lemma read_all_win32_contents:
  assumes F: "files_win32 W view"
  shows "leads (shows_store view v) (fs_read_file_all_win32 W path buffer_size) (has_contents view v path 0 buffer_size)"
    (is "leads _ _ ?J")
proof (cases "buffer_size = 0")
  case False
  have body: "leads (shows_store view (move fd path 0 (put path c v)))
      (do { n \<leftarrow> os (w32_file_size W fd);
            case n of None \<Rightarrow> do { win_close_handle W fd; ret None }
            | Some n \<Rightarrow> do { r \<leftarrow> read_loop_win32 W fd (nat (min n (int buffer_size))) []; win_close_handle W fd; ret r } }) ?J"
    if fresh: "handles v fd = None" and c: "created Open_existing (files v path) = Some c" for fd c
  proof -
    have v: "put path c v = v" "files v path = Some c" using c put_same by (simp_all add: created_def)
    have h: "handles (move fd path 0 v) fd = Some (path, 0)" "files (move fd path 0 v) path = Some c" using v by simp_all
    show ?thesis unfolding v
    proof (rule leads_seq [OF win_file_size [OF F h]])
      fix r :: "int option"
      have close: "leads (shows_store view (move fd path 0 v)) (do { win_close_handle W fd; ret None }) ?J"
        by (rule close_then [OF win_others(2) [OF F] fresh]) (simp add: has_contents_def)
      have "take (nat (min (int (length c)) (int buffer_size))) (drop 0 c) = take buffer_size (drop 0 c)"
        by (simp add: min_def)
      then have "has_contents view v path 0 (nat (min (int (length c)) (int buffer_size))) = ?J"
        using v(2) unfolding has_contents_def by simp
      then have read: "leads (shows_store view (move fd path 0 v))
          (do { r \<leftarrow> read_loop_win32 W fd (nat (min (int (length c)) (int buffer_size))) []; win_close_handle W fd; ret r }) ?J"
        using win_read_close [OF F fresh v(2)] by metis
      show "leads (\<lambda>s. shows_store view (move fd path 0 v) s \<and> (\<forall>n. r = Some n \<longrightarrow> n = int (length c)))
          (case r of None \<Rightarrow> do { win_close_handle W fd; ret None }
            | Some n \<Rightarrow> do { r \<leftarrow> read_loop_win32 W fd (nat (min n (int buffer_size))) []; win_close_handle W fd; ret r }) ?J"
        by (rule leads_conj) (cases r; use close read in simp)
    qed
  qed
  have "leads (shows_store view v)
      (do { fd \<leftarrow> win_create_file W path Open_existing;
            if \<not> fd \<noteq> INVALID_HANDLE_VALUE then ret None
            else do { n \<leftarrow> os (w32_file_size W fd);
              case n of None \<Rightarrow> do { win_close_handle W fd; ret None }
              | Some n \<Rightarrow> do { r \<leftarrow> read_loop_win32 W fd (nat (min n (int buffer_size))) [];
                  win_close_handle W fd; ret r } } }) ?J"
    by (rule open_then [OF win_opens [OF F]]) (simp add: has_contents_def, rule body)
  then show ?thesis using False by (simp add: fs_read_file_all_win32_def)
qed (simp add: fs_read_file_all_win32_def leads_def has_contents_def)

section \<open>Properties\<close>

text \<open>
  C21: reading files (POSIX). However often \<open>read\<close> returns less than asked for or is interrupted, what
  \<open>fs_read_file_chunk\<close> returns is the file's contents from the offset on, up to the length asked for or
  the end; \<open>fs_read_file_all\<close> the same from the start. Whatever they return, the files are unchanged and
  no descriptor stays open.
\<close>

theorem file_reads_refine:
  assumes "files_posix P view"
  shows "(\<forall>r s'. run_state (fs_read_file_chunk P path offset len) s = (r, s') \<longrightarrow> view (world s') = view (world s) \<and>
      (\<forall>data. r = Some data \<longrightarrow> (\<exists>c. files (view (world s)) path = Some c \<and> data = take len (drop (nat offset) c)))) \<and>
    (\<forall>r s'. run_state (fs_read_file_all P path len) s = (r, s') \<longrightarrow> view (world s') = view (world s) \<and>
      (\<forall>data. r = Some data \<longrightarrow> (\<exists>c. files (view (world s)) path = Some c \<and> data = take len c)))"
  using leadsD [OF read_chunk_contents [OF assms, of "view (world s)" path offset len], of s]
    leadsD [OF read_all_contents [OF assms, of "view (world s)" path len], of s]
  by (auto simp: has_contents_def)


text \<open>
  What has been written is read back. After a write that reports success, a read of the same
  range that succeeds returns exactly the bytes written.
\<close>

theorem written_read_back:
  assumes "files_posix P view" "run_state (fs_write_file_chunk P path buffer offset) s = (r, s1)" "0 \<le> r"
    "run_state (fs_read_file_chunk P path offset (length buffer)) s1 = (Some data, s2)"
  shows "data = buffer"
  using leadsD [OF write_chunk_contents [OF assms(1), of "view (world s)" path buffer offset], of s]
    leadsD [OF read_chunk_contents [OF assms(1), of "view (world s1)" path offset "length buffer"], of s1] assms(2-4)
  by (auto simp: has_stored_def has_contents_def read_overwritten)

text \<open>The Windows branch implements the same four contracts, by calls of at most \<open>MAXDWORD\<close> bytes.\<close>

theorem file_functions_win32_refine:
  assumes "files_win32 W view"
  shows "(\<forall>r s'. run_state (fs_read_file_chunk_win32 W path offset len) s = (r, s') \<longrightarrow>
      has_contents view (view (world s)) path (nat offset) len r s') \<and>
    (\<forall>r s'. run_state (fs_read_file_all_win32 W path len) s = (r, s') \<longrightarrow>
      has_contents view (view (world s)) path 0 len r s') \<and>
    (\<forall>r s'. run_state (fs_write_file_chunk_win32 W path buffer offset) s = (r, s') \<longrightarrow>
      has_stored view (view (world s)) path (overwrite (nat offset) buffer (old_contents (files (view (world s)) path)))
        (int (length buffer)) r s') \<and>
    (\<forall>r s'. run_state (fs_write_file_all_win32 W path buffer) s = (r, s') \<longrightarrow>
      has_stored view (view (world s)) path buffer (int (length buffer)) r s')"
  using leadsD [OF read_chunk_win32_contents [OF assms, of "view (world s)" path offset len], of s]
    leadsD [OF read_all_win32_contents [OF assms, of "view (world s)" path len], of s]
    leadsD [OF write_chunk_win32_contents [OF assms, of "view (world s)" path buffer offset], of s]
    leadsD [OF write_all_win32_contents [OF assms, of "view (world s)" path buffer], of s]
  by auto


section \<open>A store to apply them to\<close>

text \<open>
  The world is the store itself; it has one descriptor, and transfers at most two bytes at a time.
\<close>

definition one_open :: "(string option \<Rightarrow> string option) \<Rightarrow> string \<Rightarrow> (store, int) state" where
  "one_open start path = do {
     v \<leftarrow> gets id;
     (case (handles v 3, start (files v path)) of
        (None, Some c) \<Rightarrow> do { modify (\<lambda>v. move 3 path 0 (put path c v)); ret 3 }
      | _ \<Rightarrow> ret (-1)) }"

definition slow_read :: "int \<Rightarrow> nat \<Rightarrow> (store, string option) state" where
  "slow_read fd n = do {
     v \<leftarrow> gets id;
     (case handles v fd of
        None \<Rightarrow> ret None
      | Some (p, pos) \<Rightarrow>
          (case files v p of
             None \<Rightarrow> ret None
           | Some c \<Rightarrow>
               (let bs = take (min 2 n) (drop pos c)
                in do { modify (move fd p (pos + length bs)); ret (Some bs) }))) }"

definition slow_write :: "int \<Rightarrow> string \<Rightarrow> (store, nat option) state" where
  "slow_write fd bs = do {
     v \<leftarrow> gets id;
     (case handles v fd of
        None \<Rightarrow> ret None
      | Some (p, pos) \<Rightarrow>
          (case files v p of
             None \<Rightarrow> ret None
           | Some c \<Rightarrow>
               (let n = min 2 (length bs)
                in do { modify (\<lambda>v. move fd p (pos + n) (put p (overwrite pos (take n bs) c) v)); ret (Some n) }))) }"

definition set_position :: "int \<Rightarrow> int \<Rightarrow> (store, bool) state" where
  "set_position fd off = do {
     v \<leftarrow> gets id;
     (case handles v fd of
        None \<Rightarrow> ret False
      | Some (p, pos) \<Rightarrow> do { modify (move fd p (nat off)); ret True }) }"

definition length_of :: "int \<Rightarrow> (store, int option) state" where
  "length_of fd = gets (\<lambda>v. case handles v fd of None \<Rightarrow> None
     | Some (p, _) \<Rightarrow> map_option (\<lambda>c. int (length c)) (files v p))"

definition as_errno :: "'a option \<Rightarrow> errno + 'a" where
  "as_errno x = (case x of None \<Rightarrow> Inl EOTHER | Some a \<Rightarrow> Inr a)"

definition store_posix :: "store posix" where
  "store_posix = plain_posix
     \<lparr>px_open := (\<lambda>path k. one_open (opened k) path),
      px_read := (\<lambda>fd n. do { r \<leftarrow> slow_read fd n; ret (as_errno r) }),
      px_write := (\<lambda>fd bs. do { r \<leftarrow> slow_write fd bs; ret (as_errno r) }),
      px_lseek := set_position,
      px_fstat := (\<lambda>fd. do { r \<leftarrow> length_of fd; ret (map_option (\<lambda>n. plain_stat\<lparr>st_size := n\<rparr>) r) }),
      px_close := (\<lambda>fd. modify (shut fd))\<rparr>"

definition store_win32 :: "store win32" where
  "store_win32 = plain_win32
     \<lparr>w32_create_file := (\<lambda>path k. one_open (created k) path), w32_read_file := slow_read,
      w32_write_file := slow_write, w32_set_pointer := set_position, w32_file_size := length_of,
      w32_close_handle := (\<lambda>fd. modify (shut fd))\<rparr>"

lemma slow_calls:
  "leads (\<lambda>w. w = v) (one_open start path) (\<lambda>fd w. if fd = -1 then w = v
     else fd = 3 \<and> handles v fd = None \<and> (\<exists>c. start (files v path) = Some c \<and> w = move fd path 0 (put path c v)))"
  "handles v fd = Some (p, pos) \<Longrightarrow> files v p = Some c \<Longrightarrow> 0 < n \<Longrightarrow> leads (\<lambda>w. w = v) (slow_read fd n)
     (\<lambda>r w. \<exists>bs. r = Some bs \<and> length bs \<le> n \<and> bs = take (length bs) (drop pos c) \<and> (bs = [] \<longrightarrow> length c \<le> pos) \<and>
        w = move fd p (pos + length bs) v)"
  "handles v fd = Some (p, pos) \<Longrightarrow> files v p = Some c \<Longrightarrow> leads (\<lambda>w. w = v) (slow_write fd bs)
     (\<lambda>r w. \<exists>n. r = Some n \<and> n \<le> length bs \<and> w = move fd p (pos + n) (put p (overwrite pos (take n bs) c) v))"
  "handles v fd = Some (p, pos) \<Longrightarrow> leads (\<lambda>w. w = v) (set_position fd off) (\<lambda>ok w. ok \<and> w = move fd p (nat off) v)"
  "handles v fd = Some (p, pos) \<Longrightarrow> files v p = Some c \<Longrightarrow> leads (\<lambda>w. w = v) (length_of fd) (\<lambda>r w. w = v \<and> r = Some (int (length c)))"
  by (auto simp: leads_def one_open_def slow_read_def slow_write_def set_position_def length_of_def Let_def
      min_def split: option.splits)

lemma store_win32_files: "files_win32 store_win32 id"
  unfolding files_win32_def store_win32_def INVALID_HANDLE_VALUE_def
  by (intro conjI allI impI; simp add: plain_win32_def;
      (rule leads_weaken [OF slow_calls(1)] leads_weaken [OF slow_calls(2)] leads_weaken [OF slow_calls(3)]
        leads_weaken [OF slow_calls(4)] leads_weaken [OF slow_calls(5)])?) (auto simp: leads_def)

lemma store_posix_files: "files_posix store_posix id"
  unfolding files_posix_def store_posix_def
  by (intro conjI allI impI; simp add: plain_posix_def;
      (rule leads_weaken [OF slow_calls(1)] leads_seq [OF slow_calls(2)] leads_seq [OF slow_calls(3)]
        leads_weaken [OF slow_calls(4)] leads_seq [OF slow_calls(5)])?)
    (auto simp: leads_def as_errno_def split: if_splits)

definition store_os :: "store os" where
  "store_os = \<lparr>world = \<lparr>files = [''/a'' \<mapsto> ''hello''], handles = Map.empty\<rparr>, trace = [], stuck = False\<rparr>"

lemma file_reads_refine_witness:
  "world (snd (run_state (fs_read_file_chunk store_posix ''/a'' 1 3) store_os)) = world store_os"
  using file_reads_refine [OF store_posix_files, of "''/a''" 1 3 store_os]
  by (cases "run_state (fs_read_file_chunk store_posix ''/a'' 1 3) store_os") simp


lemma file_functions_win32_refine_witness:
  "has_stored id (world store_os) ''/a'' ''hexyz'' 3
     (fst (run_state (fs_write_file_chunk_win32 store_win32 ''/a'' ''xyz'' 2) store_os))
     (snd (run_state (fs_write_file_chunk_win32 store_win32 ''/a'' ''xyz'' 2) store_os))"
  using file_functions_win32_refine [OF store_win32_files, of "''/a''" 2 0 store_os "''xyz''"]
  by (cases "run_state (fs_write_file_chunk_win32 store_win32 ''/a'' ''xyz'' 2) store_os")
    (simp add: store_os_def overwrite_def old_contents_def)

lemma written_read_back_witness:
  "let (r, s1) = run_state (fs_write_file_chunk store_posix ''/a'' ''xyz'' 2) store_os
   in r = 3 \<and> fst (run_state (fs_read_file_chunk store_posix ''/a'' 2 3) s1) = Some ''xyz''"
proof -
  obtain r s1 where w: "run_state (fs_write_file_chunk store_posix ''/a'' ''xyz'' 2) store_os = (r, s1)" by fastforce
  have e: "fst (run_state (fs_write_file_chunk store_posix ''/a'' ''xyz'' 2) store_os) = 3 \<and>
     fst (run_state (fs_read_file_chunk store_posix ''/a'' 2 3)
       (snd (run_state (fs_write_file_chunk store_posix ''/a'' ''xyz'' 2) store_os))) \<noteq> None"
    by code_simp
  then obtain data s2 where r: "r = 3" "run_state (fs_read_file_chunk store_posix ''/a'' 2 3) s1 = (Some data, s2)"
    using w by (cases "run_state (fs_read_file_chunk store_posix ''/a'' 2 3) s1") auto
  have "data = ''xyz''"
    using written_read_back [OF store_posix_files w, of data s2] r by (simp add: numeral_3_eq_3)
  then show ?thesis using w r by simp
qed

end
