(* ===== verification/Network.thy ===== *)
theory Network
  imports Posix
begin

text \<open>
  \<open>server/src/network.c\<close>, its POSIX branch, for the operations the server uses. A socket is an
  \<open>int\<close>, \<open>INVALID_SOCKET_T\<close> is -1; a port is a 16-bit word. Where the code leaves an error number
  in \<open>errno\<close> for its caller, the result carries it. A receive returns the bytes instead of
  filling a buffer: \<open>Inl\<close> for a negative result, the empty list for 0, the end of the stream.
\<close>

definition INVALID_SOCKET_T :: int where "INVALID_SOCKET_T = -1"

section \<open>Opening sockets\<close>

fun listen_addresses :: "'w posix \<Rightarrow> addrinfo list \<Rightarrow> ('w, 'z, int) os_m" where
  "listen_addresses P [] = ret INVALID_SOCKET_T"
| "listen_addresses P (p # ps) = do {
     sock \<leftarrow> os (px_socket P p);
     if sock = INVALID_SOCKET_T then listen_addresses P ps
     else do {
       ok \<leftarrow> os (px_setsockopt P sock SO_reuseaddr 1);
       if \<not> ok then do { sys_close P sock; listen_addresses P ps }
       else do {
         (if ai_inet6 p then do { os (px_setsockopt P sock SO_ipv6_only 1); ret () } else ret ());
         ok \<leftarrow> os (px_bind P sock p);
         if \<not> ok then do { sys_close P sock; listen_addresses P ps }
         else ret sock } } }"

definition net_create_listening_socket ::
  "'w posix \<Rightarrow> net_addr_family_t \<Rightarrow> string \<Rightarrow> u16 \<Rightarrow> int \<Rightarrow> ('w, 'z, int) os_m" where
  "net_create_listening_socket P family bind_address port backlog = do {
     res \<leftarrow> os (px_getaddrinfo P family bind_address (snprintf_buf 6 (dec (unat port))) True);
     (case res of
        None \<Rightarrow> ret INVALID_SOCKET_T
      | Some ps \<Rightarrow> do {
          sock \<leftarrow> listen_addresses P ps;
          if sock = INVALID_SOCKET_T then ret INVALID_SOCKET_T
          else do {
            ok \<leftarrow> os (px_listen P sock backlog);
            if \<not> ok then do { sys_close P sock; ret INVALID_SOCKET_T } else ret sock } }) }"

text \<open>
  The loop over the ports of a range: \<open>i\<close> is the C counter, a \<open>uint16_t\<close> like \<open>range_size\<close>, so the
  port is computed in \<open>int\<close> and stored back in 16 bits. A range of all 65536 ports has a
  \<open>range_size\<close> of 0, and the division by it is \<open>None\<close>, as is any division by zero in C.
\<close>

function listen_range :: "'w posix \<Rightarrow> net_addr_family_t \<Rightarrow> string \<Rightarrow> u16 \<Rightarrow> int \<Rightarrow> u16 \<Rightarrow> u16 \<Rightarrow> nat \<Rightarrow>
    ('w, 'z, int \<times> u16) os_m" where
  "listen_range P family bind_address port_min backlog start_offset range_size i =
     (if \<not> i < unat range_size then ret (INVALID_SOCKET_T, 0)
      else
        (let port = of_nat (unat port_min + (unat start_offset + i) mod unat range_size)
         in do {
           sock \<leftarrow> net_create_listening_socket P family bind_address port backlog;
           if sock \<noteq> INVALID_SOCKET_T then ret (sock, port)
           else listen_range P family bind_address port_min backlog start_offset range_size (i + 1) }))"
  by pat_completeness auto
termination
  by (relation "measure (\<lambda>(P, family, b, pm, bl, so, rs, i). unat rs - i)") auto

declare listen_range.simps [simp del]

definition net_create_listening_socket_range ::
  "'w posix \<Rightarrow> net_addr_family_t \<Rightarrow> string \<Rightarrow> u16 \<Rightarrow> u16 \<Rightarrow> int \<Rightarrow> ('w, 'z, (int \<times> u16) option) os_m" where
  "net_create_listening_socket_range P family bind_address port_min port_max backlog =
     (if port_min > port_max then ret (Some (INVALID_SOCKET_T, 0))
      else
        (let range_size = port_max - port_min + 1
         in do {
           now \<leftarrow> os (px_time P);
           if range_size = 0 then ret None
           else do {
             r \<leftarrow> listen_range P family bind_address port_min backlog
                    (of_int ((now + int (px_stack P)) mod int (unat range_size))) range_size 0;
             ret (Some r) } }))"

definition net_accept :: "'w posix \<Rightarrow> int \<Rightarrow> ('w, 'z, errno + int \<times> string \<times> u16) os_m" where
  "net_accept P listening_socket = do {
     r \<leftarrow> os (px_accept P listening_socket);
     (case r of
        Inl err \<Rightarrow> ret (Inl err)
      | Inr (sock, ip, port) \<Rightarrow> ret (Inr (sock, ip, port))) }"

fun connect_addresses :: "'w posix \<Rightarrow> addrinfo list \<Rightarrow> ('w, 'z, int) os_m" where
  "connect_addresses P [] = ret INVALID_SOCKET_T"
| "connect_addresses P (p # ps) = do {
     sock \<leftarrow> os (px_socket P p);
     if sock = INVALID_SOCKET_T then connect_addresses P ps
     else do {
       ok \<leftarrow> os (px_connect P sock p);
       if \<not> ok then do { sys_close P sock; connect_addresses P ps }
       else ret sock } }"

definition net_connect :: "'w posix \<Rightarrow> string \<Rightarrow> u16 \<Rightarrow> ('w, 'z, int) os_m" where
  "net_connect P host port = do {
     res \<leftarrow> os (px_getaddrinfo P NET_AF_UNSPEC host (snprintf_buf 6 (dec (unat port))) False);
     (case res of None \<Rightarrow> ret INVALID_SOCKET_T | Some ps \<Rightarrow> connect_addresses P ps) }"

definition net_get_socket_info :: "'w posix \<Rightarrow> int \<Rightarrow> nat \<Rightarrow> ('w, 'z, (string \<times> u16) option) os_m" where
  "net_get_socket_info P sock buffer_size = do {
     r \<leftarrow> os (px_getsockname P sock);
     ret (case r of None \<Rightarrow> None | Some (ip, port) \<Rightarrow> Some (strncpy_buf buffer_size ip, port)) }"

section \<open>Transferring bytes\<close>

definition net_receive :: "'w posix \<Rightarrow> int \<Rightarrow> nat \<Rightarrow> ('w, 'z, errno + string) os_m" where
  "net_receive P sock buffer_size = sys_recv P sock buffer_size"

function net_receive_all :: "'w posix \<Rightarrow> int \<Rightarrow> nat \<Rightarrow> string \<Rightarrow> ('w, 'z, string option) os_m" where
  "net_receive_all P sock len received =
     (if len = 0 then ret (Some received)
      else do {
        r \<leftarrow> net_receive P sock len;
        (case r of
           Inl err \<Rightarrow> ret None
         | Inr bs \<Rightarrow> if bs = [] then ret None else net_receive_all P sock (len - length bs) (received @ bs)) })"
  by pat_completeness auto
termination by (relation "measure (\<lambda>(P, sock, len, received). len)") auto

definition net_send :: "'w posix \<Rightarrow> int \<Rightarrow> string \<Rightarrow> ('w, 'z, errno + nat) os_m" where
  "net_send P sock data = sys_send P sock data"

function net_send_all :: "'w posix \<Rightarrow> int \<Rightarrow> string \<Rightarrow> ('w, 'z, int) os_m" where
  "net_send_all P sock data =
     (if data = [] then ret 0
      else do {
        r \<leftarrow> net_send P sock data;
        (case r of
           Inl err \<Rightarrow> ret (-1)
         | Inr n \<Rightarrow> if n = 0 then ret (-1) else net_send_all P sock (drop n data)) })"
  by pat_completeness auto
termination by (relation "measure (\<lambda>(P, sock, data). length data)") auto

declare net_receive_all.simps [simp del] net_send_all.simps [simp del]

section \<open>Options, waiting and closing\<close>

definition net_close_socket :: "'w posix \<Rightarrow> int \<Rightarrow> ('w, 'z, unit) os_m" where
  "net_close_socket P sock = sys_close P sock"

definition status :: "bool \<Rightarrow> int" where
  "status ok = (if ok then 0 else -1)"

definition net_shutdown_send :: "'w posix \<Rightarrow> int \<Rightarrow> ('w, 'z, int) os_m" where
  "net_shutdown_send P sock = do { ok \<leftarrow> os (px_shutdown P sock Shut_wr); ret (status ok) }"

definition net_shutdown_recv :: "'w posix \<Rightarrow> int \<Rightarrow> ('w, 'z, int) os_m" where
  "net_shutdown_recv P sock = do { ok \<leftarrow> os (px_shutdown P sock Shut_rd); ret (status ok) }"

definition net_shutdown_both :: "'w posix \<Rightarrow> int \<Rightarrow> ('w, 'z, int) os_m" where
  "net_shutdown_both P sock = do { ok \<leftarrow> os (px_shutdown P sock Shut_rdwr); ret (status ok) }"

definition O_NONBLOCK :: u32 where "O_NONBLOCK = 0x800"

definition net_set_nonblocking :: "'w posix \<Rightarrow> int \<Rightarrow> bool \<Rightarrow> ('w, 'z, int) os_m" where
  "net_set_nonblocking P sock enable = do {
     flags \<leftarrow> os (px_getfl P sock);
     (case flags of
        None \<Rightarrow> ret (-1)
      | Some flags \<Rightarrow> do {
          ok \<leftarrow> os (px_setfl P sock (if enable then flags OR O_NONBLOCK else flags AND NOT O_NONBLOCK));
          ret (status ok) }) }"

definition net_set_recv_timeout :: "'w posix \<Rightarrow> int \<Rightarrow> int \<Rightarrow> ('w, 'z, int) os_m" where
  "net_set_recv_timeout P sock timeout_ms = do {
     ok \<leftarrow> os (px_setsockopt P sock SO_rcvtimeo timeout_ms); ret (status ok) }"

definition net_set_send_timeout :: "'w posix \<Rightarrow> int \<Rightarrow> int \<Rightarrow> ('w, 'z, int) os_m" where
  "net_set_send_timeout P sock timeout_ms = do {
     ok \<leftarrow> os (px_setsockopt P sock SO_sndtimeo timeout_ms); ret (status ok) }"

definition net_set_tcp_nodelay :: "'w posix \<Rightarrow> int \<Rightarrow> bool \<Rightarrow> ('w, 'z, int) os_m" where
  "net_set_tcp_nodelay P sock enable = do {
     ok \<leftarrow> os (px_setsockopt P sock SO_tcp_nodelay (if enable then 1 else 0)); ret (status ok) }"

definition net_set_keepalive :: "'w posix \<Rightarrow> int \<Rightarrow> bool \<Rightarrow> ('w, 'z, int) os_m" where
  "net_set_keepalive P sock enable = do {
     ok \<leftarrow> os (px_setsockopt P sock SO_keepalive (if enable then 1 else 0)); ret (status ok) }"

definition net_set_oob_inline :: "'w posix \<Rightarrow> int \<Rightarrow> bool \<Rightarrow> ('w, 'z, int) os_m" where
  "net_set_oob_inline P sock enable = do {
     ok \<leftarrow> os (px_setsockopt P sock SO_oobinline (if enable then 1 else 0)); ret (status ok) }"

definition net_wait_readable :: "'w posix \<Rightarrow> int \<Rightarrow> int \<Rightarrow> ('w, 'z, int) os_m" where
  "net_wait_readable P sock timeout_ms = do {
     result \<leftarrow> os (px_select P sock Read_set timeout_ms);
     ret (if result < 0 then -1 else if result = 0 then 0 else 1) }"

definition net_wait_writable :: "'w posix \<Rightarrow> int \<Rightarrow> int \<Rightarrow> ('w, 'z, int) os_m" where
  "net_wait_writable P sock timeout_ms = do {
     result \<leftarrow> os (px_select P sock Write_set timeout_ms);
     ret (if result < 0 then -1 else if result = 0 then 0 else 1) }"

definition net_is_would_block :: "errno \<Rightarrow> bool" where
  "net_is_would_block err \<longleftrightarrow> err = EAGAIN"

definition net_has_urgent_data :: "'w posix \<Rightarrow> int \<Rightarrow> ('w, 'z, int) os_m" where
  "net_has_urgent_data P sock = do {
     atmark \<leftarrow> os (px_sockatmark P sock);
     if atmark < 0 then ret (-1)
     else do {
       result \<leftarrow> os (px_select P sock Except_set 0);
       if result < 0 then ret (-1)
       else ret (if atmark > 0 \<or> result > 0 then 1 else 0) } }"

definition net_receive_urgent :: "'w posix \<Rightarrow> int \<Rightarrow> nat \<Rightarrow> ('w, 'z, errno + string) os_m" where
  "net_receive_urgent P sock buffer_size =
     (if buffer_size = 0 then ret (Inl EOTHER) else os (px_recv_oob P sock buffer_size))"

section \<open>Receiving a line\<close>

text \<open>
  The result is the C result together with the line, the empty string when the result is not
  positive. \<open>room\<close> is \<open>buffer_size - 1 - pos\<close>, \<open>buffer\<close> the bytes so far.
\<close>

primrec receive_line_loop :: "'w posix \<Rightarrow> int \<Rightarrow> int \<Rightarrow> nat \<Rightarrow> string \<Rightarrow> ('w, 'z, int \<times> string) os_m" where
  "receive_line_loop P sock timeout_ms 0 buffer = ret (-1, [])"
| "receive_line_loop P sock timeout_ms (Suc room) buffer = do {
     ready \<leftarrow> (if timeout_ms \<ge> 0 then net_wait_readable P sock timeout_ms else ret 1);
     if ready \<le> 0 then ret (ready, [])
     else do {
       r \<leftarrow> net_receive P sock 1;
       (case r of
          Inl err \<Rightarrow> ret (-1, [])
        | Inr [] \<Rightarrow> ret (0, [])
        | Inr (c # _) \<Rightarrow>
            (let buffer' = buffer @ [c]
             in if length buffer' \<ge> 2 \<and> buffer' ! (length buffer' - 2) = CR \<and> buffer' ! (length buffer' - 1) = LF
                then ret (int (length buffer'), buffer')
                else receive_line_loop P sock timeout_ms room buffer')) } }"

definition net_receive_line :: "'w posix \<Rightarrow> int \<Rightarrow> nat \<Rightarrow> int \<Rightarrow> ('w, 'z, int \<times> string) os_m" where
  "net_receive_line P sock buffer_size timeout_ms =
     (if buffer_size < 3 then ret (-1, [])
      else receive_line_loop P sock timeout_ms (buffer_size - 1) [])"


section \<open>Effects\<close>

lemma does_net [doing]:
  "range (Ev_recv sock) \<subseteq> A \<Longrightarrow> does A (net_receive P sock n)"
  "range (Ev_send sock) \<subseteq> A \<Longrightarrow> does A (net_send P sock data)"
  "Ev_close sock \<in> A \<Longrightarrow> does A (net_close_socket P sock)"
  "does A (net_shutdown_both P sock)"
  "does A (net_set_nonblocking P sock enable)"
  "does A (net_set_oob_inline P sock enable)"
  "does A (net_wait_readable P sock timeout_ms)"
  "does A (net_has_urgent_data P sock)"
  "does A (net_get_socket_info P sock sz)"
  "does A (net_accept P sock)"
  unfolding net_receive_def net_send_def net_close_socket_def net_shutdown_both_def net_set_nonblocking_def
    net_set_oob_inline_def net_wait_readable_def net_has_urgent_data_def net_get_socket_info_def net_accept_def
  by (intro doing; assumption?)+

lemma does_listen_addresses [doing]: "range Ev_close \<subseteq> A \<Longrightarrow> does A (listen_addresses P ps)"
  by (induction ps) (auto intro!: doing)

lemma does_connect_addresses [doing]: "range Ev_close \<subseteq> A \<Longrightarrow> does A (connect_addresses P ps)"
  by (induction ps) (auto intro!: doing)

lemma does_net_connect [doing]: "range Ev_close \<subseteq> A \<Longrightarrow> does A (net_connect P host port)"
  unfolding net_connect_def by (intro doing)

lemma does_net_create [doing]: "range Ev_close \<subseteq> A \<Longrightarrow> does A (net_create_listening_socket P family addr port backlog)"
  unfolding net_create_listening_socket_def by (intro doing) auto

lemma does_listen_range [doing]:
  "range Ev_close \<subseteq> A \<Longrightarrow> does A (listen_range P family addr port_min backlog start rs i)"
proof (induction P family addr port_min backlog start rs i rule: listen_range.induct)
  case (1 P family addr port_min backlog start rs i)
  show ?case by (subst listen_range.simps, unfold Let_def) (intro doing 1; simp)
qed

lemma does_net_range [doing]:
  "range Ev_close \<subseteq> A \<Longrightarrow> does A (net_create_listening_socket_range P family addr pmin pmax backlog)"
  unfolding net_create_listening_socket_range_def Let_def by (intro doing)

lemma does_net_send_all [doing]: "range (Ev_send sock) \<subseteq> A \<Longrightarrow> does A (net_send_all P sock data)"
proof (induction P sock data rule: net_send_all.induct)
  case (1 P sock data)
  show ?case by (subst net_send_all.simps) (intro doing 1; simp)
qed

section \<open>Sending everything\<close>

text \<open>The bytes that went out on a socket.\<close>

definition sent :: "int \<Rightarrow> os_event list \<Rightarrow> string" where
  "sent sock tr = concat (map (\<lambda>e. case e of Ev_send f bs \<Rightarrow> if f = sock then bs else [] | _ \<Rightarrow> []) tr)"

lemma sent_simps [simp]:
  "sent sock [] = []"
  "sent sock (tr @ tr') = sent sock tr @ sent sock tr'"
  by (simp_all add: sent_def)

lemma sent_Cons [simp]:
  "sent sock (e # tr) = (case e of Ev_send f bs \<Rightarrow> if f = sock then bs else [] | _ \<Rightarrow> []) @ sent sock tr"
  by (simp add: sent_def)

lemma run_send:
  obtains e where "run_state (net_send P sock data) s = (Inl e, s\<lparr>world := snd (run_state (px_send P sock data) (world s))\<rparr>)"
  | n where "n \<le> length data" "run_state (net_send P sock data) s =
      (Inr n, s\<lparr>world := snd (run_state (px_send P sock data) (world s)), trace := trace s @ [Ev_send sock (take n data)]\<rparr>)"
proof (cases "fst (run_state (px_send P sock data) (world s))")
  case (Inl e)
  then show ?thesis
    by (intro that(1) [of e]) (auto simp: net_send_def sys_send_def os_def split: prod.splits)
next
  case (Inr n)
  then show ?thesis
    by (intro that(2) [of "min n (length data)"])
      (auto simp: net_send_def sys_send_def os_def emit_def min_def split: prod.splits)
qed

lemma net_send_all_run:
  "\<exists>r n tr. fst (run_state (net_send_all P sock data) s) = r \<and>
     trace (snd (run_state (net_send_all P sock data) s)) = trace s @ tr \<and>
     set tr \<subseteq> range (Ev_send sock) \<and> sent sock tr = take n data \<and>
     (r = 0 \<and> n = length data \<or> r = -1 \<and> n < length data)"
proof (induction P sock data arbitrary: s rule: net_send_all.induct)
  case (1 P sock data)
  show ?case
  proof (cases "data = []")
    case True
    then show ?thesis by (subst (1 2) net_send_all.simps) simp
  next
    case False
    show ?thesis
    proof (cases rule: run_send [of P sock data s])
      case (1 e)
      with False show ?thesis
        by (subst (1 2) net_send_all.simps) (auto intro!: exI [of _ "0::nat"])
    next
      case (2 n)
      show ?thesis
      proof (cases "n = 0")
        case True
        with False 2 show ?thesis
          by (subst (1 2) net_send_all.simps)
            (auto intro!: exI [of _ "0::nat"] exI [of _ "[Ev_send sock []]"])
      next
        case n: False
        let ?s = "s\<lparr>world := snd (run_state (px_send P sock data) (world s)), trace := trace s @ [Ev_send sock (take n data)]\<rparr>"
        obtain r m tr where IH: "fst (run_state (net_send_all P sock (drop n data)) ?s) = r"
          "trace (snd (run_state (net_send_all P sock (drop n data)) ?s)) = trace ?s @ tr"
          "set tr \<subseteq> range (Ev_send sock)" "sent sock tr = take m (drop n data)"
          "r = 0 \<and> m = length (drop n data) \<or> r = -1 \<and> m < length (drop n data)"
          using 1(1) [OF False n, of ?s] by blast
        have "take n data @ take m (drop n data) = take (n + m) data" by (simp add: take_add)
        moreover have "run_state (net_send_all P sock data) s = run_state (net_send_all P sock (drop n data)) ?s"
          using False n 2 by (subst net_send_all.simps) simp
        ultimately show ?thesis
          using IH 2(1) by (intro exI [of _ r] exI [of _ "n + m"] exI [of _ "Ev_send sock (take n data) # tr"]) auto
      qed
    qed
  qed
qed

text \<open>
  C30: \<open>net_send_all\<close> returns 0 exactly when every byte of the data has been handed to the socket, in
  order and with nothing else; otherwise it returns -1 and a proper prefix has been handed over.
\<close>

theorem net_send_all_correct:
  "\<exists>n tr. trace (snd (run_state (net_send_all P sock data) s)) = trace s @ tr \<and>
     set tr \<subseteq> range (Ev_send sock) \<and> sent sock tr = take n data \<and>
     (if fst (run_state (net_send_all P sock data) s) = 0 then n = length data
      else fst (run_state (net_send_all P sock data) s) = -1 \<and> n < length data)"
  using net_send_all_run [of P sock data s] by force


section \<open>Lines and ports\<close>

text \<open>The bytes that came in on a socket.\<close>

definition received :: "int \<Rightarrow> os_event list \<Rightarrow> string" where
  "received sock tr = concat (map (\<lambda>e. case e of Ev_recv f bs \<Rightarrow> if f = sock then bs else [] | _ \<Rightarrow> []) tr)"

lemma received_simps [simp]:
  "received sock [] = []"
  "received sock (e # tr) = (case e of Ev_recv f bs \<Rightarrow> if f = sock then bs else [] | _ \<Rightarrow> []) @ received sock tr"
  "received sock (tr @ tr') = received sock tr @ received sock tr'"
  by (simp_all add: received_def)

text \<open>A line ends at the first CRLF: the test after each byte finds it.\<close>

lemma crlf_snoc:
  assumes "\<not> contains [CR, LF] b"
  shows "contains [CR, LF] (b @ [c]) \<longleftrightarrow>
    length (b @ [c]) \<ge> 2 \<and> (b @ [c]) ! (length (b @ [c]) - 2) = CR \<and> (b @ [c]) ! (length (b @ [c]) - 1) = LF"
    (is "?l \<longleftrightarrow> ?r")
proof
  assume ?l
  then obtain a d where e: "b @ [c] = a @ [CR, LF] @ d" by (auto simp: contains_iff)
  show ?r
  proof (cases d rule: rev_cases)
    case Nil
    then have "b = a @ [CR]" "c = LF" using e by (simp_all flip: append_assoc)
    then show ?thesis by (simp add: nth_append)
  next
    case (snoc d' x)
    with e have "b = a @ [CR, LF] @ d'" by simp
    with assms show ?thesis by (auto simp: contains_iff)
  qed
next
  assume r: ?r
  then obtain b' x where b: "b = b' @ [x]" by (cases b rule: rev_cases) auto
  with r have "x = CR" "c = LF" by (simp_all add: nth_append)
  with b have "b @ [c] = b' @ [CR, LF] @ []" by simp
  then show ?l unfolding contains_iff by blast
qed

lemma run_receive:
  obtains e where "run_state (net_receive P sock n) s = (Inl e, s\<lparr>world := snd (run_state (px_recv P sock n) (world s))\<rparr>)"
  | bs where "length bs \<le> n" "run_state (net_receive P sock n) s =
      (Inr bs, s\<lparr>world := snd (run_state (px_recv P sock n) (world s)), trace := trace s @ [Ev_recv sock bs]\<rparr>)"
proof (cases "fst (run_state (px_recv P sock n) (world s))")
  case (Inl e)
  then show ?thesis
    by (intro that(1) [of e]) (auto simp: net_receive_def sys_recv_def os_def split: prod.splits)
next
  case (Inr bs)
  then show ?thesis
    by (intro that(2) [of "take n bs"])
      (auto simp: net_receive_def sys_recv_def os_def emit_def split: prod.splits)
qed

definition line_result :: "int \<Rightarrow> nat \<Rightarrow> string \<Rightarrow> os_event list \<Rightarrow> int \<times> string \<Rightarrow> bool" where
  "line_result sock room buffer tr r =
     (if fst r > 0 then
        snd r = buffer @ received sock tr \<and> fst r = int (length (snd r)) \<and> length (snd r) \<le> length buffer + room \<and>
        contains [CR, LF] (snd r) \<and> \<not> contains [CR, LF] (butlast (snd r))
      else snd r = [])"

lemma run_os: "run_state (os m) s = (fst (run_state m (world s)), s\<lparr>world := snd (run_state m (world s))\<rparr>)"
  by (simp add: os_def split: prod.splits)

lemma run_wait: "\<exists>ready w. run_state (if tmo \<ge> 0 then net_wait_readable P sock tmo else ret 1) s = (ready, s\<lparr>world := w\<rparr>)"
proof (cases "tmo \<ge> 0")
  case False
  then show ?thesis by (intro exI [of _ 1] exI [of _ "world s"]) simp
qed (auto simp: net_wait_readable_def run_os)

lemma receive_line_run:
  assumes "\<not> contains [CR, LF] buffer"
  shows "\<exists>tr. trace (snd (run_state (receive_line_loop P sock tmo room buffer) s)) = trace s @ tr \<and>
     line_result sock room buffer tr (fst (run_state (receive_line_loop P sock tmo room buffer) s))"
  using assms
proof (induction room arbitrary: buffer s)
  case 0
  then show ?case by (simp add: line_result_def)
next
  case (Suc room)
  define wait :: "('a, 'b, int) os_m"
    where "wait = (if tmo \<ge> 0 then net_wait_readable P sock tmo else ret 1)"
  obtain ready w where wait: "run_state wait s = (ready, s\<lparr>world := w\<rparr>)"
    using run_wait [of tmo P sock s] unfolding wait_def by blast
  show ?case
  proof (cases "ready \<le> 0")
    case True
    with wait show ?thesis by (simp add: wait_def [symmetric] line_result_def)
  next
    case False
    show ?thesis
    proof (cases rule: run_receive [of P sock 1 "s\<lparr>world := w\<rparr>"])
      case (1 e)
      with wait False show ?thesis by (simp add: wait_def [symmetric] line_result_def)
    next
      case (2 bs)
      define s1 where "s1 = s\<lparr>world := snd (run_state (px_recv P sock 1) w), trace := trace s @ [Ev_recv sock bs]\<rparr>"
      have r: "run_state (net_receive P sock 1) (s\<lparr>world := w\<rparr>) = (Inr bs, s1)"
        using 2(2) by (simp add: s1_def)
      show ?thesis
      proof (cases bs)
        case Nil
        with wait False r show ?thesis by (simp add: wait_def [symmetric] line_result_def s1_def)
      next
        case (Cons c cs)
        with 2(1) have bs: "bs = [c]" by simp
        note crlf = crlf_snoc [OF Suc.prems, of c]
        show ?thesis
        proof (cases "contains [CR, LF] (buffer @ [c])")
          case True
          then have "length (buffer @ [c]) \<ge> 2" "(buffer @ [c]) ! (length (buffer @ [c]) - 2) = CR"
            "(buffer @ [c]) ! (length (buffer @ [c]) - 1) = LF" using crlf by blast+
          then have "run_state (receive_line_loop P sock tmo (Suc room) buffer) s =
              ((int (length (buffer @ [c])), buffer @ [c]), s1)"
            using wait False r bs by (simp add: wait_def [symmetric] Let_def)
          with True Suc.prems bs show ?thesis by (simp add: line_result_def s1_def)
        next
          case c: False
          then have "run_state (receive_line_loop P sock tmo (Suc room) buffer) s =
              run_state (receive_line_loop P sock tmo room (buffer @ [c])) s1"
            using wait False r bs crlf by (auto simp: wait_def [symmetric] Let_def)
          moreover obtain tr where "trace (snd (run_state (receive_line_loop P sock tmo room (buffer @ [c])) s1)) = trace s1 @ tr"
            "line_result sock room (buffer @ [c]) tr (fst (run_state (receive_line_loop P sock tmo room (buffer @ [c])) s1))"
            using Suc.IH [OF c, of s1] by blast
          ultimately show ?thesis
            using bs by (intro exI [of _ "Ev_recv sock [c] # tr"]) (auto simp: line_result_def s1_def)
        qed
      qed
    qed
  qed
qed

text \<open>
  C31: a positive result of \<open>net_receive_line\<close> is the length of the line it read: the bytes received
  on the socket since the call, which end with the first CRLF in them and fit the buffer with its
  terminating NUL; no byte behind the line is consumed. Otherwise no line is delivered.
\<close>

theorem net_receive_line_correct:
  "\<exists>tr. trace (snd (run_state (net_receive_line P sock sz tmo) s)) = trace s @ tr \<and>
     (case fst (run_state (net_receive_line P sock sz tmo) s) of (n, line) \<Rightarrow>
        if n > 0 then line = received sock tr \<and> n = int (length line) \<and> length line < sz \<and>
          contains [CR, LF] line \<and> \<not> contains [CR, LF] (butlast line)
        else line = [])"
proof (cases "sz < 3")
  case False
  obtain tr where "trace (snd (run_state (net_receive_line P sock sz tmo) s)) = trace s @ tr"
    "line_result sock (sz - 1) [] tr (fst (run_state (net_receive_line P sock sz tmo) s))"
    using receive_line_run [of "[]" P sock tmo "sz - 1" s] False by (auto simp: net_receive_line_def)
  with False show ?thesis
    by (intro exI [of _ tr]) (auto simp: line_result_def split: prod.splits if_splits)
qed (simp add: net_receive_line_def)

lemma listen_range_port:
  assumes "run_state (listen_range P family addr port_min backlog start rs i) s = ((sock, port), s')"
    and "sock \<noteq> INVALID_SOCKET_T" "unat port_min + unat rs \<le> 65536"
  shows "unat port_min \<le> unat port \<and> unat port < unat port_min + unat rs"
  using assms
proof (induction P family addr port_min backlog start rs i arbitrary: s rule: listen_range.induct)
  case (1 P family addr port_min backlog start rs i)
  have i: "i < unat rs" using 1(2,3) by (subst (asm) listen_range.simps) (auto split: if_splits)
  let ?p = "of_nat (unat port_min + (unat start + i) mod unat rs) :: u16"
  have lt: "(unat start + i) mod unat rs < unat rs" using i by simp
  then have up: "unat ?p = unat port_min + (unat start + i) mod unat rs"
    using 1(4) by (simp add: unsigned_of_nat take_bit_nat_eq_self del: of_nat_add)
  obtain so s1 where so: "run_state (net_create_listening_socket P family addr ?p backlog) s = (so, s1)"
    by (cases "run_state (net_create_listening_socket P family addr ?p backlog) s")
  show ?case
  proof (cases "so \<noteq> INVALID_SOCKET_T")
    case True
    with 1(2) so i have "port = ?p" by (subst (asm) listen_range.simps) (simp add: Let_def)
    with up lt show ?thesis by simp
  next
    case False
    with 1(2) so i have "run_state (listen_range P family addr port_min backlog start rs (i + 1)) s1 = ((sock, port), s')"
      by (subst (asm) listen_range.simps) (simp add: Let_def)
    from 1(1) [OF _ refl _ this 1(3,4)] i False show ?thesis by simp
  qed
qed

text \<open>
  C38: the port that \<open>net_create_listening_socket_range\<close> assigns lies in the requested range, for
  every range but the full one of 65536 ports, whose size does not fit 16 bits: there the code
  divides by zero.
\<close>

theorem listening_port_in_range:
  "case fst (run_state (net_create_listening_socket_range P family addr pmin pmax backlog) s) of
     None \<Rightarrow> pmin = 0 \<and> pmax = -1
   | Some (sock, port) \<Rightarrow> if sock = INVALID_SOCKET_T then True else pmin \<le> port \<and> port \<le> pmax"
proof (cases "pmin > pmax \<or> pmax - pmin + 1 = 0")
  case True
  moreover have "pmin = 0 \<and> pmax = -1" if "\<not> pmin > pmax" "pmax - pmin + 1 = 0"
  proof -
    have "unat (pmax - pmin) = unat pmax - unat pmin" using that(1) by (simp add: unat_sub)
    moreover have "pmax - pmin = -1" using that(2) by (simp only: eq_neg_iff_add_eq_0)
    moreover have "unat (- 1 :: u16) = 65535" by (simp add: unsigned_minus_1_eq_mask mask_eq_exp_minus_1)
    ultimately have "unat pmax - unat pmin = 65535" by simp
    then have "unat pmin = 0" using unsigned_less [of pmax, where 'a = nat] by simp
    then have "pmin = 0" by (simp add: unat_eq_0)
    with \<open>pmax - pmin = -1\<close> show ?thesis by simp
  qed
  ultimately show ?thesis
    by (auto simp: net_create_listening_socket_range_def run_os)
next
  case False
  define rs where "rs = pmax - pmin + 1"
  have ne: "rs \<noteq> 0" and le: "\<not> pmin > pmax" using False by (auto simp: rs_def)
  have "unat (pmax - pmin) = unat pmax - unat pmin" using le by (simp add: unat_sub)
  moreover have "unat rs = unat (pmax - pmin) + 1" using ne unatSuc [of "pmax - pmin"] by (simp add: rs_def add.commute)
  ultimately have rs: "unat rs = unat pmax - unat pmin + 1" by simp
  have bound: "unat pmin + unat rs \<le> 65536"
    using rs le unsigned_less [of pmax, where 'a = nat] by (simp add: word_le_nat_alt not_less)
  show ?thesis
    using ne le listen_range_port [OF _ _ bound] rs
    by (auto simp: net_create_listening_socket_range_def Let_def rs_def [symmetric] word_le_nat_alt run_os
        split: prod.splits) (fastforce simp: not_less word_le_nat_alt)+
qed

end
