(* ===== verification/Session.thy ===== *)
theory Session
  imports Protocol Auth Filelock Filesys Network
begin

text \<open>
  \<open>server/src/session.c\<close>: the state of one control connection and the operations on it. The state
  in which the code of a session runs is the process state of \<open>Posix\<close> extended by the two tables
  that all sessions share, the file locks and the user database, and by the session itself. An
  operation holds the session's mutex while it runs, so it is one step. A pthread handle is only
  compared with 0 and is a \<open>bool\<close>; C truth values are \<open>bool\<close>.
\<close>

section \<open>Data\<close>

definition SESSION_MAX_USERNAME :: nat where "SESSION_MAX_USERNAME = 256"

datatype session_state_t = SESSION_STATE_CONNECTED | SESSION_STATE_WAIT_PASSWORD
  | SESSION_STATE_AUTHENTICATED | SESSION_STATE_CLOSING

datatype session_data_mode_t = SESSION_DATA_MODE_NONE | SESSION_DATA_MODE_ACTIVE | SESSION_DATA_MODE_PASSIVE

datatype transfer_status_t = TRANSFER_STATUS_OK | TRANSFER_STATUS_IO_ERROR | TRANSFER_STATUS_CONN_ERROR
  | TRANSFER_STATUS_INTERNAL_ERROR | TRANSFER_STATUS_ABORTED

datatype transfer_thread_state_t = TRANSFER_THREAD_IDLE | TRANSFER_THREAD_STARTING
  | TRANSFER_THREAD_RUNNING | TRANSFER_THREAD_COMPLETING | TRANSFER_THREAD_ABORTED

datatype transfer_operation_t = TRANSFER_OP_SEND_FILE | TRANSFER_OP_RECV_FILE | TRANSFER_OP_SEND_LIST
  | TRANSFER_OP_SEND_NLST

record transfer_params_t =
  tp_operation :: transfer_operation_t
  tp_filepath :: string
  tp_offset :: int
  tp_type :: proto_transfer_type_t
  tp_lock_acquired :: bool

record session_t =
  s_control_socket :: int
  s_client_ip :: string
  s_client_port :: u16
  s_bind_address :: string
  s_state :: session_state_t
  s_username :: string
  s_authenticated :: bool
  s_permissions :: auth_permission_t
  s_root_dir :: string
  s_current_dir :: string
  s_user_home_dir :: string
  s_transfer_type :: proto_transfer_type_t
  s_transfer_mode :: proto_transfer_mode_t
  s_data_structure :: proto_data_structure_t
  s_data_mode :: session_data_mode_t
  s_data_socket :: int
  s_data_listen_socket :: int
  s_active_ip :: string
  s_active_port :: u16
  s_passive_port :: u16
  s_rename_from :: string
  s_restart_offset :: int
  s_rename_pending :: bool
  s_transfer_in_progress :: bool
  s_transfer_should_abort :: bool
  s_transfer_thread :: bool
  s_transfer_thread_state :: transfer_thread_state_t
  s_transfer_params :: "transfer_params_t option"
  s_transfer_result :: transfer_status_t
  s_connect_time :: int
  s_last_activity :: int
  s_should_quit :: bool
  s_bytes_uploaded :: u64
  s_bytes_downloaded :: u64
  s_files_uploaded :: u32
  s_files_downloaded :: u32
  s_commands_received :: u32

record 'w sys = "'w os" +
  locks :: lock_entries
  auth :: auth_state
  sess :: session_t

type_synonym ('w, 'a) sys_m = "('w sys, 'a) state"

definition sget :: "(session_t \<Rightarrow> 'a) \<Rightarrow> ('w, 'a) sys_m" where
  "sget f = gets (\<lambda>s. f (sess s))"

definition smod :: "(session_t \<Rightarrow> session_t) \<Rightarrow> ('w, unit) sys_m" where
  "smod f = modify (\<lambda>s. s\<lparr>sess := f (sess s)\<rparr>)"

section \<open>Creation\<close>

definition session_reset_state :: "session_t \<Rightarrow> session_t" where
  "session_reset_state s = s\<lparr>
     s_state := SESSION_STATE_CONNECTED, s_authenticated := False, s_username := [],
     s_permissions := AUTH_PERM_NONE,
     s_current_dir := ''/'', s_user_home_dir := [],
     s_transfer_type := PROTO_TYPE_ASCII, s_transfer_mode := PROTO_MODE_STREAM,
     s_data_structure := PROTO_STRU_FILE,
     s_data_mode := SESSION_DATA_MODE_NONE, s_data_socket := INVALID_SOCKET_T,
     s_data_listen_socket := INVALID_SOCKET_T, s_active_ip := [], s_active_port := 0, s_passive_port := 0,
     s_restart_offset := 0, s_rename_pending := False, s_rename_from := [],
     s_transfer_should_abort := False, s_transfer_in_progress := False, s_transfer_thread := False,
     s_transfer_thread_state := TRANSFER_THREAD_IDLE, s_transfer_params := None,
     s_transfer_result := TRANSFER_STATUS_OK\<rparr>"

definition zero_session :: session_t where
  "zero_session = \<lparr>s_control_socket = 0, s_client_ip = [], s_client_port = 0, s_bind_address = [],
     s_state = SESSION_STATE_CONNECTED, s_username = [], s_authenticated = False, s_permissions = 0,
     s_root_dir = [], s_current_dir = [], s_user_home_dir = [],
     s_transfer_type = PROTO_TYPE_ASCII, s_transfer_mode = PROTO_MODE_STREAM, s_data_structure = PROTO_STRU_FILE,
     s_data_mode = SESSION_DATA_MODE_NONE, s_data_socket = 0, s_data_listen_socket = 0,
     s_active_ip = [], s_active_port = 0, s_passive_port = 0,
     s_rename_from = [], s_restart_offset = 0, s_rename_pending = False,
     s_transfer_in_progress = False, s_transfer_should_abort = False, s_transfer_thread = False,
     s_transfer_thread_state = TRANSFER_THREAD_IDLE, s_transfer_params = None,
     s_transfer_result = TRANSFER_STATUS_OK, s_connect_time = 0, s_last_activity = 0, s_should_quit = False,
     s_bytes_uploaded = 0, s_bytes_downloaded = 0, s_files_uploaded = 0, s_files_downloaded = 0,
     s_commands_received = 0\<rparr>"

text \<open>A null \<open>bind_address\<close> is \<open>None\<close>.\<close>

definition session_create ::
  "'w posix \<Rightarrow> int \<Rightarrow> string \<Rightarrow> u16 \<Rightarrow> string \<Rightarrow> string option \<Rightarrow> ('w, 'z, session_t option) os_m" where
  "session_create P control_socket client_ip client_port root_dir bind_address =
     (if control_socket = INVALID_SOCKET_T then ret None
      else do {
        ok \<leftarrow> os (px_malloc P);
        if \<not> ok then ret None
        else
          (let session = zero_session\<lparr>s_control_socket := control_socket,
                 s_client_ip := strncpy_buf 64 client_ip, s_client_port := client_port,
                 s_bind_address := (case bind_address of Some a \<Rightarrow> strncpy_buf 64 a | None \<Rightarrow> ''127.0.0.1''),
                 s_root_dir := strncpy_buf SESSION_MAX_PATH root_dir\<rparr>
           in do {
             isdir \<leftarrow> fs_is_directory P (s_root_dir session);
             if \<not> isdir then ret None
             else do {
               t1 \<leftarrow> os (px_time P);
               t2 \<leftarrow> os (px_time P);
               ret (Some ((session_reset_state session)\<lparr>s_connect_time := t1, s_last_activity := t2,
                 s_should_quit := False, s_bytes_uploaded := 0, s_bytes_downloaded := 0,
                 s_files_uploaded := 0, s_files_downloaded := 0, s_commands_received := 0\<rparr>)) } }) })"

section \<open>Paths\<close>

definition SESSION_MAX_COMPONENTS :: nat where "SESSION_MAX_COMPONENTS = 256"

fun resolve_components :: "string list \<Rightarrow> string list \<Rightarrow> string list" where
  "resolve_components [] components = components"
| "resolve_components (token # tokens) components =
     (if \<not> length components < SESSION_MAX_COMPONENTS then components
      else if token = ''.'' then resolve_components tokens components
      else if token = ''..'' then resolve_components tokens (butlast components)
      else resolve_components tokens (components @ [token]))"

fun build_path :: "nat \<Rightarrow> string list \<Rightarrow> string \<Rightarrow> string" where
  "build_path result_size [] result = result"
| "build_path result_size (c # cs) result =
     build_path result_size cs (strncat_buf result_size (strncat_buf result_size result ''/'') c)"

definition normalize_and_validate_path :: "string \<Rightarrow> string \<Rightarrow> nat \<Rightarrow> string option" where
  "normalize_and_validate_path base path result_size =
     (if result_size = 0 then None
      else
        (let temp = (if path \<noteq> [] \<and> hd path = CHR ''/'' then strncpy_buf SESSION_MAX_PATH path
                     else if base = ''/'' then snprintf_buf SESSION_MAX_PATH (''/'' @ path)
                     else snprintf_buf SESSION_MAX_PATH (base @ ''/'' @ path))
         in case proto_normalize_path temp SESSION_MAX_PATH of
              None \<Rightarrow> None
            | Some temp \<Rightarrow>
                (let components = resolve_components (strtok (CHR ''/'') temp) [];
                     result = (if components = [] then take result_size ''/''
                               else build_path result_size components [])
                 in if \<not> proto_validate_path (tl result) then None else Some result)))"

section \<open>Login\<close>

definition session_set_user :: "string \<Rightarrow> ('w, int) sys_m" where
  "session_set_user username = do {
     smod (\<lambda>s. s\<lparr>s_username := strncpy_buf SESSION_MAX_USERNAME username,
                s_state := SESSION_STATE_WAIT_PASSWORD\<rparr>);
     ret 0 }"

definition session_authenticate :: "'w posix \<Rightarrow> string \<Rightarrow> ('w, int) sys_m" where
  "session_authenticate P password = do {
     a \<leftarrow> gets auth;
     username \<leftarrow> sget s_username;
     if \<not> auth_authenticate a username password then ret (-1)
     else
       (case auth_get_user a username of
          None \<Rightarrow> ret (-1)
        | Some user \<Rightarrow> do {
            smod (\<lambda>s. s\<lparr>s_permissions := u_permissions user,
                       s_user_home_dir := strncpy_buf SESSION_MAX_PATH (u_home_dir user),
                       s_authenticated := True, s_state := SESSION_STATE_AUTHENTICATED\<rparr>);
            home \<leftarrow> sget s_user_home_dir;
            root \<leftarrow> sget s_root_dir;
            if home \<noteq> [] then
              (let home_rel = (if hd home = CHR ''/'' then tl home else home)
               in case fs_join_path SESSION_MAX_PATH root home_rel of
                    None \<Rightarrow> ret 0
                  | Some absolute_home \<Rightarrow> do {
                      isdir \<leftarrow> fs_is_directory P absolute_home;
                      if isdir then do {
                        smod (\<lambda>s. s\<lparr>s_current_dir := strncpy_buf SESSION_MAX_PATH (s_user_home_dir s)\<rparr>);
                        ret 0 }
                      else ret 0 })
            else ret 0 }) }"

definition session_has_permission :: "auth_permission_t \<Rightarrow> ('w, bool) sys_m" where
  "session_has_permission permission = do {
     authd \<leftarrow> sget s_authenticated;
     if \<not> authd then ret False
     else do {
       perms \<leftarrow> sget s_permissions;
       ret (perms AND permission = permission) } }"

definition path_access :: "session_t \<Rightarrow> string \<Rightarrow> auth_permission_t \<Rightarrow> bool" where
  "path_access s path required_permission =
     (if \<not> s_authenticated s then False
      else if s_permissions s AND AUTH_PERM_ADMIN \<noteq> 0 then True
      else if s_permissions s AND required_permission \<noteq> required_permission then False
      else
        (case normalize_and_validate_path (s_current_dir s) path SESSION_MAX_PATH of
           None \<Rightarrow> False
         | Some normalized_path \<Rightarrow>
             (if s_user_home_dir s = [] then True
              else
                (let home_len = length (s_user_home_dir s)
                 in if take home_len normalized_path = s_user_home_dir s then
                      (length normalized_path = home_len \<or> normalized_path ! home_len = CHR ''/'')
                    else False))))"

definition session_check_path_access :: "string \<Rightarrow> auth_permission_t \<Rightarrow> ('w, bool) sys_m" where
  "session_check_path_access path required_permission = sget (\<lambda>s. path_access s path required_permission)"

section \<open>Directories\<close>

definition session_change_directory :: "'w posix \<Rightarrow> string \<Rightarrow> ('w, int) sys_m" where
  "session_change_directory P path = do {
     cwd \<leftarrow> sget s_current_dir;
     (case normalize_and_validate_path cwd path SESSION_MAX_PATH of
        None \<Rightarrow> ret (-1)
      | Some new_path \<Rightarrow> do {
          allowed \<leftarrow> session_check_path_access new_path AUTH_PERM_READ;
          if \<not> allowed then ret (-1)
          else do {
            root \<leftarrow> sget s_root_dir;
            (case fs_join_path SESSION_MAX_PATH root (tl new_path) of
               None \<Rightarrow> ret (-1)
             | Some absolute_path \<Rightarrow> do {
                 isdir \<leftarrow> fs_is_directory P absolute_path;
                 if \<not> isdir then ret (-1)
                 else do {
                   smod (\<lambda>s. s\<lparr>s_current_dir := strncpy_buf SESSION_MAX_PATH new_path\<rparr>);
                   ret 0 } }) } }) }"

definition session_get_current_directory :: "nat \<Rightarrow> ('w, string option) sys_m" where
  "session_get_current_directory buffer_size =
     (if buffer_size = 0 then ret None
      else do {
        cwd \<leftarrow> sget s_current_dir;
        ret (Some (strncpy_buf buffer_size cwd)) })"

definition resolve_path :: "session_t \<Rightarrow> string \<Rightarrow> nat \<Rightarrow> string option" where
  "resolve_path s relative_path buffer_size =
     (if buffer_size = 0 then None
      else
        (case normalize_and_validate_path (s_current_dir s) relative_path SESSION_MAX_PATH of
           None \<Rightarrow> None
         | Some normalized_path \<Rightarrow> fs_join_path buffer_size (s_root_dir s) (tl normalized_path)))"

definition session_resolve_path :: "string \<Rightarrow> nat \<Rightarrow> ('w, string option) sys_m" where
  "session_resolve_path relative_path buffer_size = sget (\<lambda>s. resolve_path s relative_path buffer_size)"


section \<open>The data connection\<close>

text \<open>Closing the two sockets before a new mode is set, in \<open>session_set_port\<close> and
  \<open>session_set_pasv\<close>.\<close>

definition close_data_sockets :: "'w posix \<Rightarrow> ('w, unit) sys_m" where
  "close_data_sockets P = do {
     d \<leftarrow> sget s_data_socket;
     (if d \<noteq> INVALID_SOCKET_T then do {
        net_close_socket P d;
        smod (\<lambda>s. s\<lparr>s_data_socket := INVALID_SOCKET_T\<rparr>) } else ret ());
     l \<leftarrow> sget s_data_listen_socket;
     (if l \<noteq> INVALID_SOCKET_T then do {
        net_close_socket P l;
        smod (\<lambda>s. s\<lparr>s_data_listen_socket := INVALID_SOCKET_T\<rparr>) } else ret ()) }"

definition session_set_port :: "'w posix \<Rightarrow> string \<Rightarrow> u16 \<Rightarrow> ('w, int) sys_m" where
  "session_set_port P ip port = do {
     close_data_sockets P;
     smod (\<lambda>s. s\<lparr>s_active_ip := strncpy_buf 64 ip, s_active_port := port,
                s_data_mode := SESSION_DATA_MODE_ACTIVE\<rparr>);
     ret 0 }"

text \<open>
  A range whose size is 0 in 16 bits makes the code divide by zero: undefined behaviour, recorded
  in the ghost flag.
\<close>

definition session_set_pasv :: "'w posix \<Rightarrow> u16 \<Rightarrow> u16 \<Rightarrow> ('w, int) sys_m" where
  "session_set_pasv P port_min port_max = do {
     close_data_sockets P;
     bind_address \<leftarrow> sget s_bind_address;
     r \<leftarrow> net_create_listening_socket_range P NET_AF_UNSPEC bind_address port_min port_max 5;
     (case r of
        None \<Rightarrow> do { give_up; ret (-1) }
      | Some (sock, assigned_port) \<Rightarrow> do {
          smod (\<lambda>s. s\<lparr>s_data_listen_socket := sock\<rparr>);
          if sock = INVALID_SOCKET_T then ret (-1)
          else do {
            net_set_nonblocking P sock True;
            smod (\<lambda>s. s\<lparr>s_passive_port := assigned_port, s_data_mode := SESSION_DATA_MODE_PASSIVE\<rparr>);
            ret 0 } }) }"

text \<open>The retries of \<open>net_accept\<close>; the first argument is \<open>accept_retries\<close>.\<close>

fun accept_loop :: "'w posix \<Rightarrow> nat \<Rightarrow> int \<Rightarrow> ('w, int) sys_m" where
  "accept_loop P 0 listen_sock = ret 0"
| "accept_loop P (Suc n) listen_sock = do {
     l \<leftarrow> sget s_data_listen_socket;
     r \<leftarrow> net_accept P l;
     (let (sock, err) = (case r of Inl err \<Rightarrow> (INVALID_SOCKET_T, err) | Inr (so, _, _) \<Rightarrow> (so, EOTHER))
      in do {
        smod (\<lambda>s. s\<lparr>s_data_socket := sock\<rparr>);
        if sock \<noteq> INVALID_SOCKET_T then ret 0
        else if net_is_would_block err \<and> Suc n > 1 then do {
          quit \<leftarrow> sget s_should_quit;
          l' \<leftarrow> sget s_data_listen_socket;
          if quit \<or> l' \<noteq> listen_sock then ret (-1) else accept_loop P n listen_sock }
        else ret (-1) }) }"

definition session_open_data_connection :: "'w posix \<Rightarrow> int \<Rightarrow> ('w, int) sys_m" where
  "session_open_data_connection P timeout_ms = do {
     d \<leftarrow> sget s_data_socket;
     if d \<noteq> INVALID_SOCKET_T then ret 0
     else do {
       mode \<leftarrow> sget s_data_mode;
       (case mode of
          SESSION_DATA_MODE_ACTIVE \<Rightarrow> do {
            ip \<leftarrow> sget s_active_ip;
            port \<leftarrow> sget s_active_port;
            sock \<leftarrow> net_connect P ip port;
            smod (\<lambda>s. s\<lparr>s_data_socket := sock\<rparr>);
            ret (if sock = INVALID_SOCKET_T then -1 else 0) }
        | SESSION_DATA_MODE_PASSIVE \<Rightarrow> do {
            listen_sock \<leftarrow> sget s_data_listen_socket;
            if listen_sock = INVALID_SOCKET_T then ret (-1)
            else do {
              ready \<leftarrow> (if timeout_ms \<ge> 0 then net_wait_readable P listen_sock timeout_ms else ret 1);
              if ready \<le> 0 then ret (-1)
              else do {
                l \<leftarrow> sget s_data_listen_socket;
                quit \<leftarrow> sget s_should_quit;
                if l \<noteq> listen_sock then ret (-1)
                else if quit then ret (-1)
                else do {
                  r \<leftarrow> accept_loop P 3 listen_sock;
                  if r \<noteq> 0 then ret (-1)
                  else do {
                    d \<leftarrow> sget s_data_socket;
                    if d = INVALID_SOCKET_T then ret (-1)
                    else do {
                      net_set_nonblocking P d False;
                      l \<leftarrow> sget s_data_listen_socket;
                      net_close_socket P l;
                      smod (\<lambda>s. s\<lparr>s_data_listen_socket := INVALID_SOCKET_T\<rparr>);
                      ret 0 } } } } } }
        | SESSION_DATA_MODE_NONE \<Rightarrow> ret (-1)) } }"

definition session_close_data_connection :: "'w posix \<Rightarrow> ('w, unit) sys_m" where
  "session_close_data_connection P = do {
     d \<leftarrow> sget s_data_socket;
     (if d \<noteq> INVALID_SOCKET_T then do {
        net_shutdown_both P d;
        net_close_socket P d;
        smod (\<lambda>s. s\<lparr>s_data_socket := INVALID_SOCKET_T\<rparr>) } else ret ());
     l \<leftarrow> sget s_data_listen_socket;
     (if l \<noteq> INVALID_SOCKET_T then do {
        net_close_socket P l;
        smod (\<lambda>s. s\<lparr>s_data_listen_socket := INVALID_SOCKET_T\<rparr>) } else ret ());
     smod (\<lambda>s. s\<lparr>s_data_mode := SESSION_DATA_MODE_NONE\<rparr>) }"

section \<open>Parameters and flags\<close>

definition session_set_type :: "proto_transfer_type_t \<Rightarrow> ('w, int) sys_m" where
  "session_set_type type = do { smod (\<lambda>s. s\<lparr>s_transfer_type := type\<rparr>); ret 0 }"

definition session_set_mode :: "proto_transfer_mode_t \<Rightarrow> ('w, int) sys_m" where
  "session_set_mode mode = do { smod (\<lambda>s. s\<lparr>s_transfer_mode := mode\<rparr>); ret 0 }"

definition session_set_structure :: "proto_data_structure_t \<Rightarrow> ('w, int) sys_m" where
  "session_set_structure structure = do { smod (\<lambda>s. s\<lparr>s_data_structure := structure\<rparr>); ret 0 }"

definition session_set_restart_offset :: "int \<Rightarrow> ('w, int) sys_m" where
  "session_set_restart_offset offset =
     (if offset < 0 then ret (-1) else do { smod (\<lambda>s. s\<lparr>s_restart_offset := offset\<rparr>); ret 0 })"

definition session_get_restart_offset :: "('w, int) sys_m" where
  "session_get_restart_offset = sget s_restart_offset"

definition session_clear_restart_offset :: "('w, unit) sys_m" where
  "session_clear_restart_offset = smod (\<lambda>s. s\<lparr>s_restart_offset := 0\<rparr>)"

definition session_set_rename_from :: "string \<Rightarrow> ('w, int) sys_m" where
  "session_set_rename_from path = do {
     smod (\<lambda>s. s\<lparr>s_rename_from := strncpy_buf SESSION_MAX_PATH path, s_rename_pending := True\<rparr>);
     ret 0 }"

definition session_get_rename_from :: "nat \<Rightarrow> ('w, string option) sys_m" where
  "session_get_rename_from buffer_size =
     (if buffer_size = 0 then ret None
      else do {
        pending \<leftarrow> sget s_rename_pending;
        if \<not> pending then ret None
        else do {
          path \<leftarrow> sget s_rename_from;
          ret (Some (strncpy_buf buffer_size path)) } })"

definition session_clear_rename_state :: "('w, unit) sys_m" where
  "session_clear_rename_state = smod (\<lambda>s. s\<lparr>s_rename_pending := False, s_rename_from := []\<rparr>)"

definition session_set_transfer_should_abort :: "('w, unit) sys_m" where
  "session_set_transfer_should_abort = smod (\<lambda>s. s\<lparr>s_transfer_should_abort := True\<rparr>)"

definition session_should_abort_transfer :: "('w, bool) sys_m" where
  "session_should_abort_transfer = sget s_transfer_should_abort"

definition session_clear_transfer_should_abort :: "('w, unit) sys_m" where
  "session_clear_transfer_should_abort = smod (\<lambda>s. s\<lparr>s_transfer_should_abort := False\<rparr>)"

definition session_set_transfer_in_progress :: "('w, unit) sys_m" where
  "session_set_transfer_in_progress = smod (\<lambda>s. s\<lparr>s_transfer_in_progress := True\<rparr>)"

definition session_is_transfer_in_progress :: "('w, bool) sys_m" where
  "session_is_transfer_in_progress = sget s_transfer_in_progress"

definition session_clear_transfer_in_progress :: "('w, unit) sys_m" where
  "session_clear_transfer_in_progress = smod (\<lambda>s. s\<lparr>s_transfer_in_progress := False\<rparr>)"

definition session_update_activity :: "'w posix \<Rightarrow> ('w, unit) sys_m" where
  "session_update_activity P = do {
     now \<leftarrow> os (px_time P);
     smod (\<lambda>s. s\<lparr>s_last_activity := now\<rparr>) }"

definition session_is_timed_out :: "'w posix \<Rightarrow> int \<Rightarrow> ('w, bool) sys_m" where
  "session_is_timed_out P timeout_seconds =
     (if timeout_seconds \<le> 0 then ret False
      else do {
        now \<leftarrow> os (px_time P);
        last_activity \<leftarrow> sget s_last_activity;
        ret (now - last_activity > timeout_seconds) })"

section \<open>Replies\<close>

definition session_send_response :: "'w posix \<Rightarrow> int \<Rightarrow> string \<Rightarrow> ('w, int) sys_m" where
  "session_send_response P code message =
     (case proto_format_response PROTO_MAX_RESPONSE_LINE code message of
        None \<Rightarrow> ret (-1)
      | Some buffer \<Rightarrow> do {
          sock \<leftarrow> sget s_control_socket;
          result \<leftarrow> net_send_all P sock buffer;
          ret (if result < 0 then -1 else 0) })"

definition session_send_response_multiline :: "'w posix \<Rightarrow> int \<Rightarrow> string \<Rightarrow> ('w, int) sys_m" where
  "session_send_response_multiline P code message =
     (case proto_format_response_multiline PROTO_MAX_RESPONSE_LINE code message of
        None \<Rightarrow> ret (-1)
      | Some buffer \<Rightarrow> do {
          sock \<leftarrow> sget s_control_socket;
          result \<leftarrow> net_send_all P sock buffer;
          ret (if result < 0 then -1 else 0) })"

section \<open>The transfer thread\<close>

definition session_set_transfer_thread_state :: "transfer_thread_state_t \<Rightarrow> ('w, unit) sys_m" where
  "session_set_transfer_thread_state st = smod (\<lambda>s. s\<lparr>s_transfer_thread_state := st\<rparr>)"

definition session_get_transfer_thread_state :: "('w, transfer_thread_state_t) sys_m" where
  "session_get_transfer_thread_state = sget s_transfer_thread_state"

definition session_start_transfer_thread :: "'w posix \<Rightarrow> transfer_params_t \<Rightarrow> ('w, int) sys_m" where
  "session_start_transfer_thread P params = do {
     st \<leftarrow> sget s_transfer_thread_state;
     if st \<noteq> TRANSFER_THREAD_IDLE then ret (-1)
     else do {
       ok \<leftarrow> os (px_malloc P);
       if \<not> ok then do { smod (\<lambda>s. s\<lparr>s_transfer_params := None\<rparr>); ret (-1) }
       else do {
         smod (\<lambda>s. s\<lparr>s_transfer_params := Some params, s_transfer_thread_state := TRANSFER_THREAD_STARTING\<rparr>);
         ok \<leftarrow> os (px_pthread_create P);
         if \<not> ok then do {
           smod (\<lambda>s. s\<lparr>s_transfer_params := None, s_transfer_thread_state := TRANSFER_THREAD_IDLE\<rparr>);
           ret (-1) }
         else do {
           smod (\<lambda>s. s\<lparr>s_transfer_thread := True\<rparr>);
           ret 0 } } } }"

text \<open>
  \<open>session_destroy\<close> up to freeing the session. \<open>join\<close> stands for what the transfer thread still
  does until \<open>pthread_join\<close> returns.
\<close>

definition session_destroy :: "'w posix \<Rightarrow> ('w, unit) sys_m \<Rightarrow> ('w, unit) sys_m" where
  "session_destroy P join = do {
     smod (\<lambda>s. s\<lparr>s_should_quit := True\<rparr>);
     session_close_data_connection P;
     t \<leftarrow> sget s_transfer_thread;
     (if t then do {
        join;
        smod (\<lambda>s. s\<lparr>s_transfer_thread := False\<rparr>) } else ret ());
     c \<leftarrow> sget s_control_socket;
     (if c \<noteq> INVALID_SOCKET_T then do {
        net_close_socket P c;
        smod (\<lambda>s. s\<lparr>s_control_socket := INVALID_SOCKET_T\<rparr>) } else ret ()) }"


section \<open>Confinement\<close>

text \<open>
  A path is inside a directory when it is the directory's path followed, at a component boundary,
  by a path in which \<open>..\<close> does not occur.
\<close>

definition inside :: "string \<Rightarrow> string \<Rightarrow> bool" where
  "inside root q \<longleftrightarrow>
     (\<exists>t. q = root @ t \<and> \<not> contains ''..'' t \<and>
        (t = [] \<or> hd t = CHR ''/'' \<or> root = [] \<or> last root = CHR ''/''))"

lemma contains_sublist: "\<not> contains sub (a @ s @ b) \<Longrightarrow> \<not> contains sub s"
  unfolding contains_iff by (metis append.assoc)

lemma contains_tl: "\<not> contains sub s \<Longrightarrow> \<not> contains sub (tl s)"
  using contains_sublist [of sub "[hd s]" "tl s" "[]"] by (cases s) auto

lemma contains_dropWhile: "\<not> contains sub s \<Longrightarrow> \<not> contains sub (dropWhile P s)"
  using contains_sublist [of sub "takeWhile P s" "dropWhile P s" "[]"] by simp

lemma contains_slash_Cons: "\<not> contains ''..'' s \<Longrightarrow> \<not> contains ''..'' (CHR ''/'' # s)"
  by (cases s) auto

lemma join_path_Some:
  assumes "fs_join_path n dir name = Some q"
  shows "length q < n"
    "q = dir @ (if dir \<noteq> [] \<and> last dir \<noteq> CHR ''/'' then ''/'' else []) @ dropWhile (\<lambda>c. c = CHR ''/'') name"
  using assms by (auto simp: fs_join_path_def Let_def split: if_splits)

lemma join_path_inside:
  assumes "fs_join_path n dir name = Some q" "\<not> contains ''..'' name"
  shows "inside dir q"
  unfolding inside_def
proof (intro exI conjI)
  note q = join_path_Some [OF assms(1)]
  let ?t = "(if dir \<noteq> [] \<and> last dir \<noteq> CHR ''/'' then ''/'' else []) @ dropWhile (\<lambda>c. c = CHR ''/'') name"
  show "q = dir @ ?t" by (rule q(2))
  show "\<not> contains ''..'' ?t"
    using contains_slash_Cons contains_dropWhile [OF assms(2)] by auto
  show "?t = [] \<or> hd ?t = CHR ''/'' \<or> dir = [] \<or> last dir = CHR ''/''" by auto
qed

lemma validate_no_dots: "proto_validate_path s \<Longrightarrow> \<not> contains ''..'' s"
  by (auto simp: proto_validate_path_def split: if_splits)

lemma normalize_validated:
  assumes "normalize_and_validate_path base path n = Some q"
  shows "proto_validate_path (tl q)" "\<not> contains ''..'' (tl q)"
proof -
  show "proto_validate_path (tl q)"
    using assms by (auto simp: normalize_and_validate_path_def Let_def split: if_splits option.splits)
  then show "\<not> contains ''..'' (tl q)" by (rule validate_no_dots)
qed

lemma resolve_path_inside:
  assumes "resolve_path s p n = Some q"
  shows "inside (s_root_dir s) q" "length q < n"
  using assms normalize_validated(2)
  by (auto simp: resolve_path_def split: if_splits option.splits intro: join_path_inside dest: join_path_Some(1))

text \<open>
  C8: whatever a client sends, a path that \<open>session_resolve_path\<close> hands to the file system is the
  root directory followed by a path without \<open>..\<close>, and fits the caller's buffer.
\<close>

theorem session_resolve_path_confined:
  "case fst (run_state (session_resolve_path p n) s) of None \<Rightarrow> snd (run_state (session_resolve_path p n) s) = s
   | Some q \<Rightarrow> inside (s_root_dir (sess s)) q \<and> length q < n \<and> snd (run_state (session_resolve_path p n) s) = s"
  using resolve_path_inside by (auto simp: session_resolve_path_def sget_def split: option.splits)

section \<open>Normalisation computes the logical path\<close>

text \<open>The reference: one component after the other, without the code's bounds.\<close>

definition logical_path :: "string list \<Rightarrow> string list" where
  "logical_path ws = foldl (\<lambda>cs w. if w = ''.'' then cs else if w = ''..'' then butlast cs else cs @ [w]) [] ws"

lemma resolve_components_foldl:
  assumes "length components + length tokens \<le> SESSION_MAX_COMPONENTS"
  shows "resolve_components tokens components =
     foldl (\<lambda>cs w. if w = ''.'' then cs else if w = ''..'' then butlast cs else cs @ [w]) components tokens"
  using assms by (induction tokens components rule: resolve_components.induct) auto

abbreviation path_of :: "string list \<Rightarrow> string" where
  "path_of ws \<equiv> concat (map (\<lambda>w. CHR ''/'' # w) ws)"

lemma build_path_of:
  "length result + length (path_of cs) < n \<Longrightarrow> build_path n cs result = result @ path_of cs"
  by (induction n cs result rule: build_path.induct) (simp_all add: strncat_buf_id)

lemma resolve_components_subset: "set (resolve_components ts cs) \<subseteq> set ts \<union> set cs"
proof (induction ts cs rule: resolve_components.induct)
  case (2 t ts cs)
  then show ?case by (auto dest: in_set_butlastD)
qed simp

lemma length_path_of_butlast: "length (path_of (butlast cs)) \<le> length (path_of cs)"
  by (cases cs rule: rev_cases) auto

lemma length_resolve_components:
  "length (path_of (resolve_components ts cs)) \<le> length (path_of cs) + length (path_of ts)"
proof (induction ts cs rule: resolve_components.induct)
  case (2 t ts cs)
  then show ?case using length_path_of_butlast [of cs] by auto
qed simp

lemma length_path_of_strtok: "length (path_of (strtok x s)) \<le> Suc (length s)"
  and length_path_of_strtok': "s \<noteq> [] \<Longrightarrow> hd s = x \<Longrightarrow> length (path_of (strtok x s)) \<le> length s"
proof -
  have sum: "length (concat (map (\<lambda>w. CHR ''/'' # w) (filter (\<lambda>w. w \<noteq> []) ws))) \<le> length (concat (map (\<lambda>w. CHR ''/'' # w) ws))"
    for ws :: "string list" by (induction ws) auto
  have all: "length (concat (map (\<lambda>w. CHR ''/'' # w) (split_at x s))) = Suc (length s)" for s
  proof (induction s)
    case (Cons c s)
    then show ?case by (cases "split_at x s") auto
  qed simp
  show le: "length (path_of (strtok x s)) \<le> Suc (length s)" for s
    using sum [of "split_at x s"] all [of s] by (simp add: strtok_def)
  show "s \<noteq> [] \<Longrightarrow> hd s = x \<Longrightarrow> length (path_of (strtok x s)) \<le> length s"
    using le [of "tl s"] by (cases s) auto
qed

lemma strtok_path_of: "\<forall>w \<in> set ws. w \<noteq> [] \<and> CHR ''/'' \<notin> set w \<Longrightarrow> strtok (CHR ''/'') (path_of ws) = ws"
  by (rule strtok_concat)

text \<open>The components of the path a client names, seen from the directory \<open>base\<close>.\<close>

definition named_components :: "string \<Rightarrow> string \<Rightarrow> string list" where
  "named_components base path =
     (if path \<noteq> [] \<and> hd path = CHR ''/'' then strtok (CHR ''/'') (slashify path)
      else strtok (CHR ''/'') (slashify base) @ strtok (CHR ''/'') (slashify path))"

lemma slashify_append: "slashify (a @ b) = slashify a @ slashify b"
  by (simp add: slashify_def)

lemma slashify_slash: "slashify (CHR ''/'' # s) = CHR ''/'' # slashify s"
  by (simp add: slashify_def)

lemma normalize_path_components:
  assumes base: "base \<noteq> []" "hd base = CHR ''/''" and len: "length base + length path + 1 < SESSION_MAX_PATH"
    and count: "length (named_components base path) \<le> SESSION_MAX_COMPONENTS" and n: "n = SESSION_MAX_PATH"
  shows "normalize_and_validate_path base path n =
     (let q = (if logical_path (named_components base path) = [] then ''/''
               else path_of (logical_path (named_components base path)))
      in if proto_validate_path (tl q) then Some q else None)"
proof -
  let ?temp = "if path \<noteq> [] \<and> hd path = CHR ''/'' then path
     else if base = ''/'' then ''/'' @ path else base @ ''/'' @ path"
  have lt: "length ?temp < SESSION_MAX_PATH" using len by auto
  have temp: "(if path \<noteq> [] \<and> hd path = CHR ''/'' then strncpy_buf SESSION_MAX_PATH path
     else if base = ''/'' then snprintf_buf SESSION_MAX_PATH (''/'' @ path)
     else snprintf_buf SESSION_MAX_PATH (base @ ''/'' @ path)) = ?temp"
    using lt by (auto simp: strncpy_buf_id snprintf_buf_id)
  obtain t where t: "proto_normalize_path ?temp SESSION_MAX_PATH = Some t"
    using lt by (auto simp: proto_normalize_path_def Let_def SESSION_MAX_PATH_def)
  have toks: "strtok (CHR ''/'') t = named_components base path"
    using normalize_Some(6) [OF t] base
    by (auto simp: named_components_def slashify_append slashify_slash strtok_append slashify_def [of "[]"])
  have lt2: "length (path_of (strtok (CHR ''/'') t)) < SESSION_MAX_PATH"
  proof -
    have "?temp \<noteq> []" "hd ?temp = CHR ''/''" using base by (auto simp: hd_append)
    then have "length (path_of (strtok (CHR ''/'') (slashify ?temp))) \<le> length (slashify ?temp)"
      by (intro length_path_of_strtok') (auto simp: slashify_def hd_map)
    then show ?thesis using lt normalize_Some(6) [OF t] by (simp add: slashify_def)
  qed
  let ?cs = "logical_path (named_components base path)"
  have cs: "resolve_components (strtok (CHR ''/'') t) [] = ?cs"
    using resolve_components_foldl [of "[]"] count by (simp add: toks logical_path_def)
  have "length (path_of ?cs) < SESSION_MAX_PATH"
    using length_resolve_components [of "strtok (CHR ''/'') t" "[]"] lt2 cs by simp
  then have b: "build_path SESSION_MAX_PATH ?cs [] = path_of ?cs" using build_path_of [of "[]"] by simp
  show ?thesis
    unfolding normalize_and_validate_path_def temp n using t cs b
    by (auto simp: Let_def SESSION_MAX_PATH_def)
qed

text \<open>
  C28: for a path that fits the buffers and has at most 256 components, the normalised path is the
  one obtained by resolving the components one after the other against the current directory, with
  \<open>..\<close> at the root staying at the root; it is refused exactly when the validation refuses it.
\<close>

theorem normalize_and_validate_path_correct:
  assumes "base \<noteq> []" "hd base = CHR ''/''" "length base + length path + 1 < SESSION_MAX_PATH"
    and "length (named_components base path) \<le> SESSION_MAX_COMPONENTS"
  shows "normalize_and_validate_path base path SESSION_MAX_PATH =
     (let q = (if logical_path (named_components base path) = [] then ''/''
               else path_of (logical_path (named_components base path)))
      in if proto_validate_path (tl q) then Some q else None)"
  using normalize_path_components [OF assms refl] .

lemma normalize_and_validate_path_correct_witness:
  "normalize_and_validate_path ''/pub/a'' ''../b//c/./d/..'' SESSION_MAX_PATH = Some ''/pub/b/c''"
proof -
  have n: "named_components ''/pub/a'' ''../b//c/./d/..'' = [''pub'', ''a'', ''..'', ''b'', ''c'', ''.'', ''d'', ''..'']"
    by code_simp
  have v: "proto_validate_path ''pub/b/c''" by code_simp
  show ?thesis
    using normalize_and_validate_path_correct [of "''/pub/a''" "''../b//c/./d/..''"] v
    by (simp add: n logical_path_def SESSION_MAX_PATH_def SESSION_MAX_COMPONENTS_def)
qed

end
