(* ===== verification/Handler.thy ===== *)
theory Handler
  imports Session Command
begin

text \<open>
  \<open>server/src/handler.c\<close>: one definition per FTP command, with the code's guards in the code's
  order, and the three preliminary handlers. The block \<open>do \<dots> while (0)\<close> of the code, which is left
  by \<open>break\<close>, returns the response together with the two flags that the code tests behind it,
  \<open>data_connection_opened\<close> and \<open>lock_acquired\<close>.
\<close>

section \<open>Locks and guards\<close>

text \<open>The lock operations on the shared table. Memory for an entry is asked for only when the path
  has none.\<close>

definition lock_memory :: "'w posix \<Rightarrow> string \<Rightarrow> ('w, bool) sys_m" where
  "lock_memory P path = do {
     l \<leftarrow> gets locks;
     if file_lock_path_valid path \<and> file_lock_find path l = None then os (px_malloc P) else ret True }"

definition lock_op :: "(lock_entries \<Rightarrow> int \<times> lock_entries) \<Rightarrow> ('w, int) sys_m" where
  "lock_op f = State (\<lambda>s. case f (locks s) of (r, l) \<Rightarrow> (r, s\<lparr>locks := l\<rparr>))"

definition try_shared :: "'w posix \<Rightarrow> string \<Rightarrow> ('w, int) sys_m" where
  "try_shared P path = do {
     mem \<leftarrow> lock_memory P path;
     lock_op (file_lock_try_acquire_shared mem path) }"

definition try_exclusive :: "'w posix \<Rightarrow> string \<Rightarrow> ('w, int) sys_m" where
  "try_exclusive P path = do {
     mem \<leftarrow> lock_memory P path;
     lock_op (file_lock_try_acquire_exclusive mem path) }"

definition unlock_shared :: "string \<Rightarrow> ('w, unit) sys_m" where
  "unlock_shared path = modify (\<lambda>s. s\<lparr>locks := file_lock_release_shared path (locks s)\<rparr>)"

definition unlock_exclusive :: "string \<Rightarrow> ('w, unit) sys_m" where
  "unlock_exclusive path = modify (\<lambda>s. s\<lparr>locks := file_lock_release_exclusive path (locks s)\<rparr>)"

text \<open>The macros \<open>REQUIRE_AUTH\<close> and \<open>REQUIRE_AUTH_AND_ARG\<close>, with the rest of the handler.\<close>

definition REQUIRE_AUTH :: "'w posix \<Rightarrow> ('w, int) sys_m \<Rightarrow> ('w, int) sys_m" where
  "REQUIRE_AUTH P handler = do {
     authd \<leftarrow> sget s_authenticated;
     if \<not> authd then session_send_response P PROTO_RESP_NOT_LOGGED_IN ''Please login with USER and PASS''
     else handler }"

definition REQUIRE_AUTH_AND_ARG :: "'w posix \<Rightarrow> proto_command_t \<Rightarrow> ('w, int) sys_m \<Rightarrow> ('w, int) sys_m" where
  "REQUIRE_AUTH_AND_ARG P cmd handler = REQUIRE_AUTH P
     (if \<not> has_argument cmd then
        session_send_response P PROTO_RESP_SYNTAX_ERROR_PARAM ''Syntax error in parameters''
      else handler)"

section \<open>Preliminary handlers\<close>

definition cmd_prev_handle_clear_restart :: "proto_command_t \<Rightarrow> ('w, int) sys_m" where
  "cmd_prev_handle_clear_restart cmd = do { session_clear_restart_offset; ret 0 }"

definition cmd_prev_handle_clear_rename :: "proto_command_t \<Rightarrow> ('w, int) sys_m" where
  "cmd_prev_handle_clear_rename cmd = do { session_clear_rename_state; ret 0 }"

definition cmd_prev_handle_clear_all :: "proto_command_t \<Rightarrow> ('w, int) sys_m" where
  "cmd_prev_handle_clear_all cmd = do { session_clear_restart_offset; session_clear_rename_state; ret 0 }"

section \<open>Access control\<close>

definition cmd_handle_user :: "'w posix \<Rightarrow> proto_command_t \<Rightarrow> ('w, int) sys_m" where
  "cmd_handle_user P cmd =
     (if \<not> has_argument cmd then
        session_send_response P PROTO_RESP_SYNTAX_ERROR_PARAM ''Syntax error in parameters''
      else do {
        a \<leftarrow> gets auth;
        let username = argument cmd;
        let user_exists = auth_user_exists a username;
        let is_anonymous = (username = ''anonymous'');
        let anonymous_enabled = auth_is_anonymous_enabled a;
        if \<not> is_anonymous \<and> \<not> user_exists then
          session_send_response P PROTO_RESP_NOT_LOGGED_IN ''User not found''
        else if is_anonymous \<and> \<not> anonymous_enabled then
          session_send_response P PROTO_RESP_NOT_LOGGED_IN ''Anonymous login not allowed''
        else do {
          session_set_user username;
          if is_anonymous then
            session_send_response P PROTO_RESP_NEED_PASSWORD ''Anonymous login OK, send your email as password''
          else session_send_response P PROTO_RESP_NEED_PASSWORD ''Username OK, need password'' } })"

definition cmd_handle_pass :: "'w posix \<Rightarrow> proto_command_t \<Rightarrow> ('w, int) sys_m" where
  "cmd_handle_pass P cmd = do {
     st \<leftarrow> sget s_state;
     if st \<noteq> SESSION_STATE_WAIT_PASSWORD then
       session_send_response P PROTO_RESP_BAD_COMMAND_SEQUENCE ''Login with USER first''
     else do {
       let password = (if has_argument cmd then argument cmd else []);
       r \<leftarrow> session_authenticate P password;
       if r \<noteq> 0 then session_send_response P PROTO_RESP_NOT_LOGGED_IN ''Login incorrect''
       else session_send_response P PROTO_RESP_USER_LOGGED_IN ''User logged in, proceed'' } }"

definition cmd_handle_acct :: "'w posix \<Rightarrow> proto_command_t \<Rightarrow> ('w, int) sys_m" where
  "cmd_handle_acct P cmd = session_send_response P PROTO_RESP_COMMAND_NOT_IMPL ''ACCT not implemented''"

definition cmd_handle_cwd :: "'w posix \<Rightarrow> proto_command_t \<Rightarrow> ('w, int) sys_m" where
  "cmd_handle_cwd P cmd = REQUIRE_AUTH_AND_ARG P cmd (do {
     r \<leftarrow> session_change_directory P (argument cmd);
     if r \<noteq> 0 then session_send_response P PROTO_RESP_FILE_UNAVAILABLE ''Failed to change directory''
     else session_send_response P PROTO_RESP_FILE_ACTION_OK ''Directory successfully changed'' })"

definition cmd_handle_cdup :: "'w posix \<Rightarrow> proto_command_t \<Rightarrow> ('w, int) sys_m" where
  "cmd_handle_cdup P cmd = REQUIRE_AUTH P
     (if has_argument cmd then
        session_send_response P PROTO_RESP_SYNTAX_ERROR_PARAM ''CDUP does not take parameters''
      else do {
        r \<leftarrow> session_change_directory P ''..'';
        if r \<noteq> 0 then session_send_response P PROTO_RESP_FILE_UNAVAILABLE ''Failed to change to parent directory''
        else session_send_response P PROTO_RESP_FILE_ACTION_OK ''Directory successfully changed'' })"

definition cmd_handle_smnt :: "'w posix \<Rightarrow> proto_command_t \<Rightarrow> ('w, int) sys_m" where
  "cmd_handle_smnt P cmd = session_send_response P PROTO_RESP_COMMAND_NOT_IMPL ''SMNT not implemented''"

definition stat_line :: "string \<Rightarrow> string" where
  "stat_line text = snprintf_buf 256 text"

definition cmd_handle_quit :: "'w posix \<Rightarrow> proto_command_t \<Rightarrow> ('w, int) sys_m" where
  "cmd_handle_quit P cmd =
     (if has_argument cmd then
        session_send_response P PROTO_RESP_SYNTAX_ERROR_PARAM ''QUIT does not take parameters''
      else do {
        now \<leftarrow> os (px_time P);
        s \<leftarrow> sget (\<lambda>s. s);
        let session_duration = now - s_connect_time s;
        smod (\<lambda>s. s\<lparr>s_should_quit := True\<rparr>);
        if s_authenticated s then do {
          session_send_response_multiline P PROTO_RESP_CLOSING_CONTROL ''Goodbye! Session statistics:'';
          session_send_response_multiline P PROTO_RESP_CLOSING_CONTROL
            (stat_line (''  Data uploaded: '' @ dec (unat (s_bytes_uploaded s)) @ '' bytes''));
          session_send_response_multiline P PROTO_RESP_CLOSING_CONTROL
            (stat_line (''  Data downloaded: '' @ dec (unat (s_bytes_downloaded s)) @ '' bytes''));
          session_send_response_multiline P PROTO_RESP_CLOSING_CONTROL
            (stat_line (''  Files uploaded: '' @ dec (unat (s_files_uploaded s))));
          session_send_response_multiline P PROTO_RESP_CLOSING_CONTROL
            (stat_line (''  Files downloaded: '' @ dec (unat (s_files_downloaded s))));
          session_send_response_multiline P PROTO_RESP_CLOSING_CONTROL
            (stat_line (''  Commands received: '' @ dec (unat (s_commands_received s))));
          session_send_response_multiline P PROTO_RESP_CLOSING_CONTROL
            (stat_line (''  Session duration: '' @ dec_int session_duration @ '' seconds''));
          session_send_response P PROTO_RESP_CLOSING_CONTROL ''Closing connection'' }
        else session_send_response P PROTO_RESP_CLOSING_CONTROL
          (stat_line (''Goodbye. Session duration: '' @ dec_int session_duration @ '' seconds'')) })"

definition cmd_handle_rein :: "'w posix \<Rightarrow> proto_command_t \<Rightarrow> ('w, int) sys_m" where
  "cmd_handle_rein P cmd =
     (if has_argument cmd then
        session_send_response P PROTO_RESP_SYNTAX_ERROR_PARAM ''REIN does not take parameters''
      else do {
        session_close_data_connection P;
        smod session_reset_state;
        session_send_response P PROTO_RESP_SERVICE_READY ''Service ready for new user'' })"

section \<open>Transfer parameters\<close>

definition cmd_handle_port :: "'w posix \<Rightarrow> proto_command_t \<Rightarrow> ('w, int) sys_m" where
  "cmd_handle_port P cmd = REQUIRE_AUTH_AND_ARG P cmd
     (case proto_parse_port (argument cmd) of
        None \<Rightarrow> session_send_response P PROTO_RESP_SYNTAX_ERROR_PARAM ''Invalid PORT parameters''
      | Some port_params \<Rightarrow>
          (case proto_port_to_address port_params 64 of
             None \<Rightarrow> session_send_response P PROTO_RESP_SYNTAX_ERROR_PARAM ''Invalid PORT address''
           | Some (client_ip, client_port) \<Rightarrow> do {
               r \<leftarrow> session_set_port P client_ip client_port;
               if r \<noteq> 0 then session_send_response P PROTO_RESP_LOCAL_ERROR ''Failed to set PORT mode''
               else session_send_response P PROTO_RESP_OK ''PORT command successful'' }))"

definition cmd_handle_pasv :: "'w posix \<Rightarrow> proto_command_t \<Rightarrow> ('w, int) sys_m" where
  "cmd_handle_pasv P cmd = REQUIRE_AUTH P
     (if has_argument cmd then
        session_send_response P PROTO_RESP_SYNTAX_ERROR_PARAM ''PASV does not take parameters''
      else do {
        control_socket \<leftarrow> sget s_control_socket;
        info \<leftarrow> net_get_socket_info P control_socket 64;
        (case info of
           None \<Rightarrow> session_send_response P PROTO_RESP_LOCAL_ERROR ''Failed to get server address''
         | Some (server_ip, dummy_port) \<Rightarrow> do {
             r \<leftarrow> session_set_pasv P 20000 65535;
             if r \<noteq> 0 then session_send_response P PROTO_RESP_LOCAL_ERROR ''Failed to enter passive mode''
             else do {
               passive_port \<leftarrow> sget s_passive_port;
               (case proto_address_to_pasv server_ip passive_port of
                  None \<Rightarrow> do {
                    session_close_data_connection P;
                    session_send_response P PROTO_RESP_LOCAL_ERROR ''Failed to format PASV response'' }
                | Some pasv_params \<Rightarrow>
                    (case proto_format_pasv_response 256 pasv_params of
                       None \<Rightarrow> do {
                         session_close_data_connection P;
                         session_send_response P PROTO_RESP_LOCAL_ERROR ''Failed to format PASV response'' }
                     | Some response \<Rightarrow> do {
                         result \<leftarrow> net_send_all P control_socket response;
                         if result \<noteq> 0 then do { session_close_data_connection P; ret (-1) }
                         else ret 0 })) } }) })"

definition cmd_handle_type :: "'w posix \<Rightarrow> proto_command_t \<Rightarrow> ('w, int) sys_m" where
  "cmd_handle_type P cmd = REQUIRE_AUTH_AND_ARG P cmd
     (case proto_parse_type (argument cmd) of
        None \<Rightarrow> session_send_response P PROTO_RESP_SYNTAX_ERROR_PARAM ''Invalid type parameter''
      | Some type \<Rightarrow>
          if type = PROTO_TYPE_EBCDIC then
            session_send_response P PROTO_RESP_COMMAND_NOT_IMPL_PARAM ''Type not supported (EBCDIC not supported)''
          else do {
            session_set_type type;
            session_send_response P PROTO_RESP_OK (snprintf_buf 128 (''Type set to '' @
              (case type of PROTO_TYPE_ASCII \<Rightarrow> ''A'' | PROTO_TYPE_BINARY \<Rightarrow> ''I'' | PROTO_TYPE_EBCDIC \<Rightarrow> ''E'') @ ''.'')) })"

definition cmd_handle_stru :: "'w posix \<Rightarrow> proto_command_t \<Rightarrow> ('w, int) sys_m" where
  "cmd_handle_stru P cmd = REQUIRE_AUTH_AND_ARG P cmd
     (case proto_parse_stru (argument cmd) of
        None \<Rightarrow> session_send_response P PROTO_RESP_SYNTAX_ERROR_PARAM ''Invalid structure parameter''
      | Some structure \<Rightarrow>
          if structure \<noteq> PROTO_STRU_FILE then
            session_send_response P PROTO_RESP_COMMAND_NOT_IMPL_PARAM ''Structure not supported (only File structure)''
          else do {
            session_set_structure structure;
            session_send_response P PROTO_RESP_OK ''Structure set to File'' })"

definition cmd_handle_mode :: "'w posix \<Rightarrow> proto_command_t \<Rightarrow> ('w, int) sys_m" where
  "cmd_handle_mode P cmd = REQUIRE_AUTH_AND_ARG P cmd
     (case proto_parse_mode (argument cmd) of
        None \<Rightarrow> session_send_response P PROTO_RESP_SYNTAX_ERROR_PARAM ''Invalid mode parameter''
      | Some mode \<Rightarrow>
          if mode \<noteq> PROTO_MODE_STREAM then
            session_send_response P PROTO_RESP_COMMAND_NOT_IMPL_PARAM ''Mode not supported (only Stream mode supported)''
          else do {
            session_set_mode mode;
            session_send_response P PROTO_RESP_OK ''Mode set to Stream'' })"


section \<open>Transfers\<close>

text \<open>
  The end of the block in RETR, STOR, APPE, LIST and NLST, from the opening of the data connection
  on: the same code in all of them but for the operation, the offset, the lock and, in RETR and
  STOR only, the clearing of the restart offset. The two flags of the result are
  \<open>data_connection_opened\<close> and whether the lock, if any, has been handed to the thread.
\<close>

definition open_and_start ::
  "'w posix \<Rightarrow> transfer_operation_t \<Rightarrow> string \<Rightarrow> int \<Rightarrow> bool \<Rightarrow> bool \<Rightarrow> ('w, int \<times> bool \<times> bool) sys_m" where
  "open_and_start P operation abs_path offset lock_acquired clear_restart = do {
     r \<leftarrow> session_open_data_connection P 10000;
     if r \<noteq> 0 then do {
       response \<leftarrow> session_send_response P PROTO_RESP_CANT_OPEN_DATA (''Can'' @ CHR 0x27 # ''t open data connection'');
       ret (response, False, False) }
     else do {
       (if clear_restart then session_clear_restart_offset else ret ());
       type \<leftarrow> sget s_transfer_type;
       r \<leftarrow> session_start_transfer_thread P
              \<lparr>tp_operation = operation, tp_filepath = strncpy_buf 1024 abs_path, tp_offset = offset,
               tp_type = type, tp_lock_acquired = lock_acquired\<rparr>;
       if r \<noteq> 0 then do {
         response \<leftarrow> session_send_response P PROTO_RESP_LOCAL_ERROR ''Failed to start transfer'';
         ret (response, True, False) }
       else ret (0, False, True) } }"

definition mode_name :: "proto_transfer_type_t \<Rightarrow> string" where
  "mode_name type = (if type = PROTO_TYPE_ASCII then ''ASCII'' else ''BINARY'')"

text \<open>The guards of the five commands before the block.\<close>

definition with_data_mode :: "'w posix \<Rightarrow> ('w, int) sys_m \<Rightarrow> ('w, int) sys_m" where
  "with_data_mode P handler = do {
     mode \<leftarrow> sget s_data_mode;
     if mode = SESSION_DATA_MODE_NONE then
       session_send_response P PROTO_RESP_BAD_COMMAND_SEQUENCE ''Use PASV or PORT first''
     else handler }"

definition with_path :: "'w posix \<Rightarrow> string \<Rightarrow> auth_permission_t \<Rightarrow> (string \<Rightarrow> ('w, int) sys_m) \<Rightarrow> ('w, int) sys_m" where
  "with_path P path perm handler = do {
     allowed \<leftarrow> session_check_path_access path perm;
     if \<not> allowed then session_send_response P PROTO_RESP_FILE_UNAVAILABLE ''Permission denied''
     else do {
       abs \<leftarrow> session_resolve_path path SESSION_MAX_PATH;
       (case abs of
          None \<Rightarrow> session_send_response P PROTO_RESP_FILE_UNAVAILABLE ''Invalid path''
        | Some abs_path \<Rightarrow> handler abs_path) } }"

definition cmd_handle_retr :: "'w posix \<Rightarrow> proto_command_t \<Rightarrow> ('w, int) sys_m" where
  "cmd_handle_retr P cmd = REQUIRE_AUTH_AND_ARG P cmd (with_data_mode P (
     with_path P (argument cmd) AUTH_PERM_READ (\<lambda>abs_path. do {
       exists \<leftarrow> fs_path_exists P abs_path;
       if \<not> exists then session_send_response P PROTO_RESP_FILE_UNAVAILABLE ''File not found''
       else do {
         offset \<leftarrow> session_get_restart_offset;
         lock \<leftarrow> try_shared P abs_path;
         if lock \<noteq> 0 then session_send_response P PROTO_RESP_FILE_ACTION_ABORTED ''File is busy, try again later''
         else do {
           (response, opened, started) \<leftarrow> do {
             exists \<leftarrow> fs_path_exists P abs_path;
             if \<not> exists then do {
               response \<leftarrow> session_send_response P PROTO_RESP_FILE_UNAVAILABLE ''File not found'';
               ret (response, False, False) }
             else do {
               isdir \<leftarrow> fs_is_directory P abs_path;
               if isdir then do {
                 response \<leftarrow> session_send_response P PROTO_RESP_FILE_UNAVAILABLE ''Cannot download a directory'';
                 ret (response, False, False) }
               else do {
                 file_size \<leftarrow> fs_get_file_size P abs_path;
                 if file_size < 0 then do {
                   response \<leftarrow> session_send_response P PROTO_RESP_FILE_UNAVAILABLE ''Cannot read file'';
                   ret (response, False, False) }
                 else if offset > file_size then do {
                   response \<leftarrow> session_send_response P PROTO_RESP_FILE_UNAVAILABLE ''Invalid restart offset'';
                   ret (response, False, False) }
                 else do {
                   type \<leftarrow> sget s_transfer_type;
                   r \<leftarrow> session_send_response P PROTO_RESP_FILE_STATUS_OK
                          (snprintf_buf PROTO_MAX_RESPONSE_LINE (''Opening '' @ mode_name type @
                             '' mode data connection for '' @ argument cmd @ '' ('' @ dec_int (file_size - offset) @ '' bytes)''));
                   if r \<noteq> 0 then ret (-1, False, False)
                   else open_and_start P TRANSFER_OP_SEND_FILE abs_path offset True True } } } };
           (if opened then session_close_data_connection P else ret ());
           (if \<not> started then unlock_shared abs_path else ret ());
           ret response } } })))"

definition cmd_handle_stor :: "'w posix \<Rightarrow> proto_command_t \<Rightarrow> ('w, int) sys_m" where
  "cmd_handle_stor P cmd = REQUIRE_AUTH_AND_ARG P cmd (with_data_mode P (
     with_path P (argument cmd) AUTH_PERM_WRITE (\<lambda>abs_path. do {
       isdir \<leftarrow> fs_is_directory P abs_path;
       if isdir then session_send_response P PROTO_RESP_FILE_UNAVAILABLE ''Cannot upload to a directory''
       else do {
         offset \<leftarrow> session_get_restart_offset;
         lock \<leftarrow> try_exclusive P abs_path;
         if lock \<noteq> 0 then session_send_response P PROTO_RESP_FILE_ACTION_ABORTED ''File is busy, try again later''
         else do {
           (response, opened, started) \<leftarrow> do {
             refusal \<leftarrow> (if offset > 0 then do {
                 exists \<leftarrow> fs_path_exists P abs_path;
                 if \<not> exists then ret (Some ''File does not exist for resume'')
                 else do {
                   file_size \<leftarrow> fs_get_file_size P abs_path;
                   if file_size < 0 then ret (Some ''Cannot read file'')
                   else if offset > file_size then ret (Some ''Invalid restart offset'')
                   else ret None } }
               else do {
                 exists \<leftarrow> fs_path_exists P abs_path;
                 if exists then do {
                   r \<leftarrow> fs_delete_file P abs_path;
                   if r \<noteq> 0 then ret (Some ''Cannot overwrite existing file'') else ret None }
                 else ret None });
             (case refusal of
                Some message \<Rightarrow> do {
                  response \<leftarrow> session_send_response P PROTO_RESP_FILE_UNAVAILABLE message;
                  ret (response, False, False) }
              | None \<Rightarrow> do {
                  type \<leftarrow> sget s_transfer_type;
                  r \<leftarrow> session_send_response P PROTO_RESP_FILE_STATUS_OK
                         (snprintf_buf PROTO_MAX_RESPONSE_LINE (''Opening '' @ mode_name type @
                            '' mode data connection for '' @ argument cmd));
                  if r \<noteq> 0 then ret (-1, False, False)
                  else open_and_start P TRANSFER_OP_RECV_FILE abs_path offset True True }) };
           (if opened then session_close_data_connection P else ret ());
           (if \<not> started then unlock_exclusive abs_path else ret ());
           ret response } } })))"

definition cmd_handle_appe :: "'w posix \<Rightarrow> proto_command_t \<Rightarrow> ('w, int) sys_m" where
  "cmd_handle_appe P cmd = REQUIRE_AUTH_AND_ARG P cmd (with_data_mode P (
     with_path P (argument cmd) AUTH_PERM_WRITE (\<lambda>abs_path. do {
       isdir \<leftarrow> fs_is_directory P abs_path;
       if isdir then session_send_response P PROTO_RESP_FILE_UNAVAILABLE ''Cannot append to a directory''
       else do {
         lock \<leftarrow> try_exclusive P abs_path;
         if lock \<noteq> 0 then session_send_response P PROTO_RESP_FILE_ACTION_ABORTED ''File is busy, try again later''
         else do {
           (response, opened, started) \<leftarrow> do {
             exists \<leftarrow> fs_path_exists P abs_path;
             offset \<leftarrow> (if exists then fs_get_file_size P abs_path else ret 0);
             if offset < 0 then do {
               response \<leftarrow> session_send_response P PROTO_RESP_FILE_UNAVAILABLE ''Cannot read file'';
               ret (response, False, False) }
             else do {
               type \<leftarrow> sget s_transfer_type;
               r \<leftarrow> session_send_response P PROTO_RESP_FILE_STATUS_OK
                      (snprintf_buf PROTO_MAX_RESPONSE_LINE (''Opening '' @ mode_name type @
                         '' mode data connection for '' @ argument cmd));
               if r \<noteq> 0 then ret (-1, False, False)
               else open_and_start P TRANSFER_OP_RECV_FILE abs_path offset True False } };
           (if opened then session_close_data_connection P else ret ());
           (if \<not> started then unlock_exclusive abs_path else ret ());
           ret response } } })))"

definition cmd_handle_rest :: "'w posix \<Rightarrow> proto_command_t \<Rightarrow> ('w, int) sys_m" where
  "cmd_handle_rest P cmd = REQUIRE_AUTH_AND_ARG P cmd
     (let (offset, endptr) = strtoll (argument cmd)
      in if endptr \<noteq> [] \<or> offset < 0 then
           session_send_response P PROTO_RESP_SYNTAX_ERROR_PARAM ''Invalid restart offset''
         else do {
           r \<leftarrow> session_set_restart_offset offset;
           if r \<noteq> 0 then session_send_response P PROTO_RESP_LOCAL_ERROR ''Failed to set restart offset''
           else session_send_response P PROTO_RESP_FILE_ACTION_PENDING
             (snprintf_buf PROTO_MAX_RESPONSE_LINE (''Restart position accepted ('' @ dec_int offset @ '')'')) })"

definition cmd_handle_list :: "'w posix \<Rightarrow> proto_command_t \<Rightarrow> ('w, int) sys_m" where
  "cmd_handle_list P cmd = REQUIRE_AUTH P (with_data_mode P (
     with_path P (if has_argument cmd then argument cmd else ''.'') AUTH_PERM_READ (\<lambda>abs_path. do {
       exists \<leftarrow> fs_path_exists P abs_path;
       if \<not> exists then session_send_response P PROTO_RESP_FILE_UNAVAILABLE ''Path not found''
       else do {
         r \<leftarrow> session_send_response P PROTO_RESP_FILE_STATUS_OK ''Opening data connection for directory listing'';
         (response, opened, started) \<leftarrow>
           (if r \<noteq> 0 then ret (-1, False, False)
            else open_and_start P TRANSFER_OP_SEND_LIST abs_path 0 False False);
         (if opened then session_close_data_connection P else ret ());
         ret response } })))"

definition cmd_handle_nlst :: "'w posix \<Rightarrow> proto_command_t \<Rightarrow> ('w, int) sys_m" where
  "cmd_handle_nlst P cmd = REQUIRE_AUTH P (with_data_mode P (
     with_path P (if has_argument cmd then argument cmd else ''.'') AUTH_PERM_READ (\<lambda>abs_path. do {
       exists \<leftarrow> fs_path_exists P abs_path;
       if \<not> exists then session_send_response P PROTO_RESP_FILE_UNAVAILABLE ''Path not found''
       else do {
         r \<leftarrow> session_send_response P PROTO_RESP_FILE_STATUS_OK ''Opening data connection for name list'';
         (response, opened, started) \<leftarrow>
           (if r \<noteq> 0 then ret (-1, False, False)
            else open_and_start P TRANSFER_OP_SEND_NLST abs_path 0 False False);
         (if opened then session_close_data_connection P else ret ());
         ret response } })))"

section \<open>Files and directories\<close>

definition cmd_handle_pwd :: "'w posix \<Rightarrow> proto_command_t \<Rightarrow> ('w, int) sys_m" where
  "cmd_handle_pwd P cmd = REQUIRE_AUTH P
     (if has_argument cmd then
        session_send_response P PROTO_RESP_SYNTAX_ERROR_PARAM ''PWD does not take parameters''
      else do {
        cwd \<leftarrow> session_get_current_directory (SESSION_MAX_PATH - 32);
        (case cwd of
           None \<Rightarrow> session_send_response P PROTO_RESP_LOCAL_ERROR ''Failed to get current directory''
         | Some cwd \<Rightarrow> session_send_response P PROTO_RESP_PATH_CREATED
             (snprintf_buf PROTO_MAX_RESPONSE_LINE (CHR 0x22 # cwd @ CHR 0x22 # '' is current directory''))) })"

definition cmd_handle_mkd :: "'w posix \<Rightarrow> proto_command_t \<Rightarrow> ('w, int) sys_m" where
  "cmd_handle_mkd P cmd = REQUIRE_AUTH_AND_ARG P cmd (
     with_path P (argument cmd) AUTH_PERM_MKDIR (\<lambda>abs_path. do {
       exists \<leftarrow> fs_path_exists P abs_path;
       if exists then session_send_response P PROTO_RESP_FILE_UNAVAILABLE ''Directory already exists''
       else do {
         r \<leftarrow> fs_create_directory P abs_path;
         if r \<noteq> 0 then session_send_response P PROTO_RESP_FILE_UNAVAILABLE ''Failed to create directory''
         else session_send_response P PROTO_RESP_PATH_CREATED
           (snprintf_buf PROTO_MAX_RESPONSE_LINE (CHR 0x22 # argument cmd @ CHR 0x22 # '' directory created'')) } }))"

definition cmd_handle_rmd :: "'w posix \<Rightarrow> proto_command_t \<Rightarrow> ('w, int) sys_m" where
  "cmd_handle_rmd P cmd = REQUIRE_AUTH_AND_ARG P cmd (
     with_path P (argument cmd) AUTH_PERM_RMDIR (\<lambda>abs_path. do {
       exists \<leftarrow> fs_path_exists P abs_path;
       if \<not> exists then session_send_response P PROTO_RESP_FILE_UNAVAILABLE ''Directory not found''
       else do {
         isdir \<leftarrow> fs_is_directory P abs_path;
         if \<not> isdir then session_send_response P PROTO_RESP_FILE_UNAVAILABLE ''Path is not a directory''
         else do {
           r \<leftarrow> fs_delete_directory P abs_path False;
           if r \<noteq> 0 then session_send_response P PROTO_RESP_FILE_UNAVAILABLE ''Failed to remove directory''
           else session_send_response P PROTO_RESP_FILE_ACTION_OK ''Directory removed'' } } }))"

definition cmd_handle_rnfr :: "'w posix \<Rightarrow> proto_command_t \<Rightarrow> ('w, int) sys_m" where
  "cmd_handle_rnfr P cmd = REQUIRE_AUTH_AND_ARG P cmd (
     with_path P (argument cmd) AUTH_PERM_RENAME (\<lambda>abs_path. do {
       exists \<leftarrow> fs_path_exists P abs_path;
       if \<not> exists then session_send_response P PROTO_RESP_FILE_UNAVAILABLE ''File or directory not found''
       else do {
         lock \<leftarrow> try_exclusive P abs_path;
         if lock \<noteq> 0 then session_send_response P PROTO_RESP_FILE_ACTION_ABORTED ''File is busy, try again later''
         else do {
           unlock_exclusive abs_path;
           r \<leftarrow> session_set_rename_from abs_path;
           if r \<noteq> 0 then session_send_response P PROTO_RESP_LOCAL_ERROR ''Failed to store rename source''
           else session_send_response P PROTO_RESP_FILE_ACTION_PENDING ''File exists, ready for destination name'' } } }))"

definition cmd_handle_rnto :: "'w posix \<Rightarrow> proto_command_t \<Rightarrow> ('w, int) sys_m" where
  "cmd_handle_rnto P cmd = REQUIRE_AUTH_AND_ARG P cmd (do {
     from \<leftarrow> session_get_rename_from SESSION_MAX_PATH;
     (case from of
        None \<Rightarrow> session_send_response P PROTO_RESP_BAD_COMMAND_SEQUENCE ''Bad sequence of commands (use RNFR first)''
      | Some from_path \<Rightarrow> do {
          allowed \<leftarrow> session_check_path_access (argument cmd) AUTH_PERM_RENAME;
          if \<not> allowed then session_send_response P PROTO_RESP_FILE_UNAVAILABLE ''Permission denied for destination''
          else do {
            to \<leftarrow> session_resolve_path (argument cmd) SESSION_MAX_PATH;
            (case to of
               None \<Rightarrow> session_send_response P PROTO_RESP_FILE_UNAVAILABLE ''Invalid destination path''
             | Some to_path \<Rightarrow> do {
                 exists \<leftarrow> fs_path_exists P to_path;
                 if exists then session_send_response P PROTO_RESP_FILE_UNAVAILABLE ''Destination already exists''
                 else do {
                   refusal \<leftarrow>
                     (case fs_get_parent_directory to_path SESSION_MAX_PATH of
                        None \<Rightarrow> ret None
                      | Some dest_parent \<Rightarrow> do {
                          exists \<leftarrow> fs_path_exists P dest_parent;
                          if \<not> exists then ret (Some ''Destination directory does not exist'')
                          else do {
                            isdir \<leftarrow> fs_is_directory P dest_parent;
                            if \<not> isdir then ret (Some ''Invalid destination path'') else ret None } });
                   (case refusal of
                      Some message \<Rightarrow> session_send_response P PROTO_RESP_FILE_UNAVAILABLE message
                    | None \<Rightarrow> do {
                        lock \<leftarrow> try_exclusive P from_path;
                        response \<leftarrow>
                          (if lock \<noteq> 0 then
                             session_send_response P PROTO_RESP_FILE_ACTION_ABORTED ''File is busy, try again later''
                           else do {
                             exists \<leftarrow> fs_path_exists P from_path;
                             if \<not> exists then
                               session_send_response P PROTO_RESP_FILE_UNAVAILABLE ''Source file no longer exists''
                             else do {
                               exists \<leftarrow> fs_path_exists P to_path;
                               if exists then
                                 session_send_response P PROTO_RESP_FILE_UNAVAILABLE ''Destination already exists''
                               else do {
                                 r \<leftarrow> fs_rename P from_path to_path;
                                 if r \<noteq> 0 then session_send_response P PROTO_RESP_FILE_UNAVAILABLE ''Rename failed''
                                 else session_send_response P PROTO_RESP_FILE_ACTION_OK ''Rename successful'' } } });
                        (if lock = 0 then unlock_exclusive from_path else ret ());
                        session_clear_rename_state;
                        ret response }) } }) } }) })"

definition cmd_handle_dele :: "'w posix \<Rightarrow> proto_command_t \<Rightarrow> ('w, int) sys_m" where
  "cmd_handle_dele P cmd = REQUIRE_AUTH_AND_ARG P cmd (
     with_path P (argument cmd) AUTH_PERM_DELETE (\<lambda>abs_path. do {
       exists \<leftarrow> fs_path_exists P abs_path;
       if \<not> exists then session_send_response P PROTO_RESP_FILE_UNAVAILABLE ''File not found''
       else do {
         isdir \<leftarrow> fs_is_directory P abs_path;
         if isdir then
           session_send_response P PROTO_RESP_FILE_UNAVAILABLE ''Cannot delete directory with DELE (use RMD)''
         else do {
           lock \<leftarrow> try_exclusive P abs_path;
           if lock \<noteq> 0 then session_send_response P PROTO_RESP_FILE_ACTION_ABORTED ''File is busy, try again later''
           else do {
             response \<leftarrow> do {
               exists \<leftarrow> fs_path_exists P abs_path;
               if \<not> exists then session_send_response P PROTO_RESP_FILE_UNAVAILABLE ''File no longer exists''
               else do {
                 isdir \<leftarrow> fs_is_directory P abs_path;
                 if isdir then
                   session_send_response P PROTO_RESP_FILE_UNAVAILABLE ''Cannot delete directory with DELE (use RMD)''
                 else do {
                   r \<leftarrow> fs_delete_file P abs_path;
                   if r \<noteq> 0 then session_send_response P PROTO_RESP_FILE_UNAVAILABLE ''Failed to delete file''
                   else session_send_response P PROTO_RESP_FILE_ACTION_OK ''File deleted'' } } };
             unlock_exclusive abs_path;
             ret response } } } }))"

definition cmd_handle_abor :: "'w posix \<Rightarrow> proto_command_t \<Rightarrow> ('w, int) sys_m" where
  "cmd_handle_abor P cmd = do {
     thread_state \<leftarrow> session_get_transfer_thread_state;
     if thread_state \<noteq> TRANSFER_THREAD_RUNNING then do {
       session_close_data_connection P;
       session_send_response P PROTO_RESP_DATA_CONN_OPEN_NO_TRANSFER ''No transfer in progress'' }
     else do {
       session_set_transfer_should_abort;
       session_close_data_connection P;
       session_send_response P PROTO_RESP_CONN_CLOSED ''Data connection closed; transfer aborted'' } }"

section \<open>Information\<close>

definition cmd_handle_syst :: "'w posix \<Rightarrow> proto_command_t \<Rightarrow> ('w, int) sys_m" where
  "cmd_handle_syst P cmd = session_send_response P PROTO_RESP_SYSTEM_TYPE ''UNIX Type: L8''"

definition cmd_handle_noop :: "'w posix \<Rightarrow> proto_command_t \<Rightarrow> ('w, int) sys_m" where
  "cmd_handle_noop P cmd = session_send_response P PROTO_RESP_OK ''OK''"

definition cmd_handle_size :: "'w posix \<Rightarrow> proto_command_t \<Rightarrow> ('w, int) sys_m" where
  "cmd_handle_size P cmd = REQUIRE_AUTH_AND_ARG P cmd (
     with_path P (argument cmd) AUTH_PERM_READ (\<lambda>abs_path. do {
       exists \<leftarrow> fs_path_exists P abs_path;
       if \<not> exists then session_send_response P PROTO_RESP_FILE_UNAVAILABLE ''File not found''
       else do {
         isdir \<leftarrow> fs_is_directory P abs_path;
         if isdir then session_send_response P PROTO_RESP_FILE_UNAVAILABLE ''Cannot get size of a directory''
         else do {
           lock \<leftarrow> try_shared P abs_path;
           if lock \<noteq> 0 then session_send_response P PROTO_RESP_FILE_ACTION_ABORTED ''File is busy, try again later''
           else do {
             file_size \<leftarrow> fs_get_file_size P abs_path;
             unlock_shared abs_path;
             if file_size < 0 then session_send_response P PROTO_RESP_FILE_UNAVAILABLE ''Cannot read file''
             else session_send_response P PROTO_RESP_FILE_STATUS
               (snprintf_buf PROTO_MAX_RESPONSE_LINE (dec_int file_size)) } } } }))"

text \<open>\<open>strftime\<close> into 15 bytes returns nothing useful when the text is longer, which \<open>take\<close>
  leaves open: \<open>px_strftime\<close> is the text it writes.\<close>

definition cmd_handle_mdtm :: "'w posix \<Rightarrow> proto_command_t \<Rightarrow> ('w, int) sys_m" where
  "cmd_handle_mdtm P cmd = REQUIRE_AUTH_AND_ARG P cmd (
     with_path P (argument cmd) AUTH_PERM_READ (\<lambda>abs_path. do {
       exists \<leftarrow> fs_path_exists P abs_path;
       if \<not> exists then session_send_response P PROTO_RESP_FILE_UNAVAILABLE ''File not found''
       else do {
         isdir \<leftarrow> fs_is_directory P abs_path;
         if isdir then session_send_response P PROTO_RESP_FILE_UNAVAILABLE ''Cannot get modification time of a directory''
         else do {
           lock \<leftarrow> try_shared P abs_path;
           if lock \<noteq> 0 then session_send_response P PROTO_RESP_FILE_ACTION_ABORTED ''File is busy, try again later''
           else do {
             mtime \<leftarrow> fs_get_file_mtime P abs_path;
             unlock_shared abs_path;
             if mtime < 0 then session_send_response P PROTO_RESP_FILE_UNAVAILABLE ''Cannot read file''
             else session_send_response P PROTO_RESP_FILE_STATUS
               (snprintf_buf PROTO_MAX_RESPONSE_LINE (take 14 (px_strftime P True ''%Y%m%d%H%M%S'' mtime))) } } } }))"

definition cmd_handle_feat :: "'w posix \<Rightarrow> proto_command_t \<Rightarrow> ('w, int) sys_m" where
  "cmd_handle_feat P cmd = do {
     r \<leftarrow> session_send_response_multiline P PROTO_RESP_SYSTEM_STATUS ''Extensions supported:'';
     if r \<noteq> 0 then ret (-1)
     else do {
       r \<leftarrow> session_send_response_multiline P PROTO_RESP_SYSTEM_STATUS '' SIZE'';
       if r \<noteq> 0 then ret (-1)
       else do {
         r \<leftarrow> session_send_response_multiline P PROTO_RESP_SYSTEM_STATUS '' MDTM'';
         if r \<noteq> 0 then ret (-1)
         else do {
           r \<leftarrow> session_send_response_multiline P PROTO_RESP_SYSTEM_STATUS '' REST STREAM'';
           if r \<noteq> 0 then ret (-1)
           else session_send_response P PROTO_RESP_SYSTEM_STATUS ''End'' } } } }"

end
