(* ===== verification/Handler_Safety.thy ===== *)
theory Handler_Safety
  imports Handler
begin

text \<open>
  What the command handlers may do. An invariant on the session, which bounds its buffers and says
  that a pending rename and a running transfer are about permitted paths, and a judgement on the
  effects: whatever a handler does to files is permitted to the account of the session, and lies
  inside the root directory and the account's home directory.
\<close>

section \<open>Permitted paths\<close>

definition is_admin :: "session_t \<Rightarrow> bool" where
  "is_admin s \<longleftrightarrow> s_permissions s AND AUTH_PERM_ADMIN \<noteq> 0"

definition has_perm :: "session_t \<Rightarrow> auth_permission_t \<Rightarrow> bool" where
  "has_perm s perm \<longleftrightarrow> s_authenticated s \<and> (is_admin s \<or> s_permissions s AND perm = perm)"

definition within_home :: "session_t \<Rightarrow> string \<Rightarrow> bool" where
  "within_home s v \<longleftrightarrow> s_user_home_dir s = [] \<or>
     take (length (s_user_home_dir s)) v = s_user_home_dir s \<and>
     (length v = length (s_user_home_dir s) \<or> v ! length (s_user_home_dir s) = CHR ''/'')"

text \<open>
  A file system path is permitted when it is the root directory joined with a virtual path \<open>v\<close>
  without \<open>..\<close> that is within the home directory; for an administrator, with any such path.
\<close>

definition permitted :: "session_t \<Rightarrow> auth_permission_t \<Rightarrow> string \<Rightarrow> bool" where
  "permitted s perm q \<longleftrightarrow> has_perm s perm \<and>
     (\<exists>v. fs_join_path SESSION_MAX_PATH (s_root_dir s) (tl v) = Some q \<and> \<not> contains ''..'' (tl v) \<and>
          (is_admin s \<or> within_home s v))"

definition same_account :: "session_t \<Rightarrow> session_t \<Rightarrow> bool" where
  "same_account s t \<longleftrightarrow> s_root_dir s = s_root_dir t \<and> s_authenticated s = s_authenticated t \<and>
     s_permissions s = s_permissions t \<and> s_user_home_dir s = s_user_home_dir t \<and>
     s_control_socket s = s_control_socket t"

lemma same_account_refl [simp]: "same_account s s"
  by (simp add: same_account_def)

lemma same_account_trans: "same_account s t \<Longrightarrow> same_account t u \<Longrightarrow> same_account s u"
  by (simp add: same_account_def)

lemma permitted_account: "same_account s t \<Longrightarrow> permitted s perm q \<longleftrightarrow> permitted t perm q"
  by (simp add: same_account_def permitted_def has_perm_def is_admin_def within_home_def)

lemma permitted_inside: "permitted s perm q \<Longrightarrow> inside (s_root_dir s) q"
  by (auto simp: permitted_def intro: join_path_inside)

lemma permitted_length: "permitted s perm q \<Longrightarrow> length q < SESSION_MAX_PATH"
  by (auto simp: permitted_def dest: join_path_Some(1))

lemma access_permitted:
  assumes "path_access s p perm" "resolve_path s p n = Some q" "n = SESSION_MAX_PATH"
  shows "permitted s perm q"
proof -
  from assms(2,3) obtain v where v: "normalize_and_validate_path (s_current_dir s) p SESSION_MAX_PATH = Some v"
    "fs_join_path SESSION_MAX_PATH (s_root_dir s) (tl v) = Some q"
    by (auto simp: resolve_path_def split: if_splits option.splits)
  have "has_perm s perm" "is_admin s \<or> within_home s v"
    using assms(1) v(1)
    by (auto simp: path_access_def has_perm_def is_admin_def within_home_def Let_def split: if_splits)
  with v normalize_validated(2) [OF v(1)] show ?thesis by (auto simp: permitted_def)
qed

section \<open>The invariant of a session\<close>

definition op_perm :: "transfer_operation_t \<Rightarrow> auth_permission_t" where
  "op_perm k = (case k of TRANSFER_OP_RECV_FILE \<Rightarrow> AUTH_PERM_WRITE | _ \<Rightarrow> AUTH_PERM_READ)"

definition buffers_fit :: "session_t \<Rightarrow> bool" where
  "buffers_fit s \<longleftrightarrow> length (s_client_ip s) < 64 \<and> length (s_bind_address s) < 64 \<and>
     length (s_active_ip s) < 64 \<and> length (s_username s) < SESSION_MAX_USERNAME \<and>
     length (s_root_dir s) < SESSION_MAX_PATH \<and> length (s_current_dir s) < SESSION_MAX_PATH \<and>
     length (s_user_home_dir s) < SESSION_MAX_PATH \<and> length (s_rename_from s) < SESSION_MAX_PATH \<and>
     (\<forall>tp. s_transfer_params s = Some tp \<longrightarrow> length (tp_filepath tp) < 1024)"

definition sess_inv :: "session_t \<Rightarrow> bool" where
  "sess_inv s \<longleftrightarrow> buffers_fit s \<and> 0 \<le> s_restart_offset s \<and>
     (s_rename_pending s \<longrightarrow> permitted s AUTH_PERM_RENAME (s_rename_from s)) \<and>
     (\<forall>tp. s_transfer_params s = Some tp \<longrightarrow> inside (s_root_dir s) (tp_filepath tp))"

section \<open>Effects of a handler\<close>

text \<open>
  Existence checks may look at any path below the root, and at the parent directory of the target
  of a rename. Handlers never open, read or write a file and never list a directory: only the
  transfer thread does. They send on the control connection only.
\<close>

fun allowed :: "session_t \<Rightarrow> os_event \<Rightarrow> bool" where
  "allowed s (Ev_path k q) =
     (case k of
        Op_stat \<Rightarrow> has_prefix (s_root_dir s) q \<or>
          (\<exists>c n. inside (s_root_dir s) c \<and> fs_get_parent_directory c n = Some q)
      | Op_mkdir \<Rightarrow> permitted s AUTH_PERM_MKDIR q
      | Op_rmdir \<Rightarrow> permitted s AUTH_PERM_RMDIR q
      | Op_unlink \<Rightarrow> permitted s AUTH_PERM_DELETE q \<or> permitted s AUTH_PERM_WRITE q
      | _ \<Rightarrow> False)"
| "allowed s (Ev_rename p q) = (permitted s AUTH_PERM_RENAME p \<and> permitted s AUTH_PERM_RENAME q)"
| "allowed s (Ev_send fd bs) = (fd = s_control_socket s)"
| "allowed s (Ev_close fd) = True"
| "allowed s (Ev_seek fd i) = False"
| "allowed s (Ev_read fd bs) = False"
| "allowed s (Ev_write fd bs) = False"
| "allowed s (Ev_recv fd bs) = False"

definition guarded :: "session_t \<Rightarrow> os_event list \<Rightarrow> 'w sys \<Rightarrow> bool" where
  "guarded s0 tr0 s \<longleftrightarrow> sess_inv (sess s) \<and> same_account (sess s) s0 \<and>
     (\<exists>tr. trace s = tr0 @ tr \<and> (\<forall>e \<in> set tr. allowed s0 e)) \<and>
     (\<forall>tp. s_transfer_params (sess s) = Some tp \<longrightarrow>
        s_transfer_params s0 = Some tp \<or> permitted s0 (op_perm (tp_operation tp)) (tp_filepath tp))"

lemma more_sys:
  "os.more s' = os.more s \<Longrightarrow> locks s' = locks s"
  "os.more s' = os.more s \<Longrightarrow> auth s' = auth s"
  "os.more s' = os.more s \<Longrightarrow> sess s' = sess s"
  by (cases s, cases s', simp)+

lemma guarded_does:
  fixes m :: "('w, 'a) sys_m"
  assumes "does A m" "A \<subseteq> Collect (allowed s0)"
  shows "keeps (guarded s0 tr0) m any"
proof (rule keeps_does [OF assms(1)])
  fix s s' :: "'w sys" and tr
  assume g: "guarded s0 tr0 s" and t: "trace s' = trace s @ tr" "set tr \<subseteq> A" "os.more s' = os.more s"
  have eq: "sess s' = sess s" by (rule more_sys(3) [OF t(3)])
  from g obtain tr1 where tr1: "trace s = tr0 @ tr1" "\<forall>e \<in> set tr1. allowed s0 e" by (auto simp: guarded_def)
  have "trace s' = tr0 @ (tr1 @ tr)" "\<forall>e \<in> set (tr1 @ tr). allowed s0 e"
    using tr1 t(1,2) assms(2) by auto
  with g eq show "guarded s0 tr0 s'" unfolding guarded_def by metis
qed

lemma guarded_smod:
  assumes "\<And>s. sess_inv s \<Longrightarrow> same_account s s0 \<Longrightarrow> sess_inv (f s) \<and> same_account (f s) s \<and>
      (s_transfer_params (f s) = s_transfer_params s \<or> s_transfer_params (f s) = None)"
  shows "keeps (guarded s0 tr0 :: 'w sys \<Rightarrow> bool) (smod f) any"
  unfolding smod_def
proof (rule keeps_modify)
  fix s :: "'w sys"
  assume g: "guarded s0 tr0 s"
  then have "sess_inv (sess s)" "same_account (sess s) s0" by (auto simp: guarded_def)
  from assms [OF this] same_account_trans [OF _ this(2)] g show "guarded s0 tr0 (s\<lparr>sess := f (sess s)\<rparr>)"
    by (auto simp: guarded_def)
qed

lemma guarded_sget: "keeps (guarded s0 tr0) (sget f) (\<lambda>r. \<exists>s. sess_inv s \<and> same_account s s0 \<and> r = f s)"
  unfolding sget_def by (rule keeps_gets) (auto simp: guarded_def)

lemma guarded_gets: "keeps (guarded s0 tr0) (gets f) any"
  by (rule keeps_gets) simp


section \<open>Effects of the session operations\<close>

named_theorems guard \<open>operations that keep the invariant and stay within what is allowed\<close>

lemma guard_bind:
  "keeps (guarded s0 tr0) m any \<Longrightarrow> (\<And>a. keeps (guarded s0 tr0) (f a) G) \<Longrightarrow>
   keeps (guarded s0 tr0) (State_Monad.bind m f) G"
  by (rule keeps_bind)

lemma guard_os: "keeps (guarded s0 tr0) (os m :: ('w, 'a) sys_m) any"
  by (rule guarded_does [OF does_os [of "{}"]]) simp

lemma guard_ret: "keeps (guarded s0 tr0) (ret a) any"
  by (rule keeps_ret) simp

lemma guard_get: "keeps (guarded s0 tr0) (sget f) any"
  by (rule keeps_any [OF guarded_sget])

lemmas guard_basic = guard_os guard_ret guard_get guarded_gets

lemma sess_inv_simps:
  "sess_inv s \<Longrightarrow> sess_inv (s\<lparr>s_data_socket := d\<rparr>)"
  "sess_inv s \<Longrightarrow> sess_inv (s\<lparr>s_data_listen_socket := d\<rparr>)"
  "sess_inv s \<Longrightarrow> sess_inv (s\<lparr>s_data_mode := m\<rparr>)"
  "sess_inv s \<Longrightarrow> sess_inv (s\<lparr>s_should_quit := b\<rparr>)"
  "sess_inv s \<Longrightarrow> sess_inv (s\<lparr>s_transfer_thread_state := ts\<rparr>)"
  "sess_inv s \<Longrightarrow> sess_inv (s\<lparr>s_transfer_thread := b\<rparr>)"
  "sess_inv s \<Longrightarrow> sess_inv (s\<lparr>s_transfer_should_abort := b\<rparr>)"
  "sess_inv s \<Longrightarrow> sess_inv (s\<lparr>s_transfer_type := ty\<rparr>)"
  "sess_inv s \<Longrightarrow> sess_inv (s\<lparr>s_transfer_mode := tm\<rparr>)"
  "sess_inv s \<Longrightarrow> sess_inv (s\<lparr>s_data_structure := stru\<rparr>)"
  "sess_inv s \<Longrightarrow> sess_inv (s\<lparr>s_rename_pending := False, s_rename_from := []\<rparr>)"
  "sess_inv s \<Longrightarrow> sess_inv (s\<lparr>s_passive_port := u, s_data_mode := m\<rparr>)"
  "sess_inv s \<Longrightarrow> sess_inv (s\<lparr>s_active_ip := strncpy_buf 64 ip, s_active_port := u, s_data_mode := m\<rparr>)"
  "sess_inv s \<Longrightarrow> sess_inv (s\<lparr>s_current_dir := strncpy_buf SESSION_MAX_PATH p\<rparr>)"
  "sess_inv s \<Longrightarrow> sess_inv (s\<lparr>s_transfer_params := None\<rparr>)"
  "sess_inv s \<Longrightarrow> 0 \<le> i \<Longrightarrow> sess_inv (s\<lparr>s_restart_offset := i\<rparr>)"
  "sess_inv s \<Longrightarrow> permitted s AUTH_PERM_RENAME q \<Longrightarrow> sess_inv (s\<lparr>s_rename_from := q, s_rename_pending := True\<rparr>)"
  "sess_inv s \<Longrightarrow> inside (s_root_dir s) (tp_filepath tp) \<Longrightarrow> length (tp_filepath tp) < 1024 \<Longrightarrow>
     sess_inv (s\<lparr>s_transfer_params := Some tp, s_transfer_thread_state := ts\<rparr>)"
  by (auto simp: sess_inv_def buffers_fit_def permitted_def has_perm_def is_admin_def within_home_def
      length_strncpy_buf SESSION_MAX_PATH_def SESSION_MAX_USERNAME_def dest: join_path_Some(1))

lemma guard_send [guard]: "keeps (guarded s0 tr0) (session_send_response P code msg) any"
  unfolding session_send_response_def
  by (auto intro!: hoare guard_basic keeps_bind [OF guarded_sget] keeps_bind [OF guarded_does [OF does_net_send_all [OF subset_refl]]]
      simp: same_account_def)

lemma guard_send_multiline [guard]: "keeps (guarded s0 tr0) (session_send_response_multiline P code msg) any"
  unfolding session_send_response_multiline_def
  by (auto intro!: hoare guard_basic keeps_bind [OF guarded_sget] keeps_bind [OF guarded_does [OF does_net_send_all [OF subset_refl]]]
      simp: same_account_def)

lemma guard_close_socket: "keeps (guarded s0 tr0) (net_close_socket P fd :: ('w, unit) sys_m) any"
  by (rule guarded_does [OF does_net(3) [OF singletonI]]) simp

lemma guard_net:
  "keeps (guarded s0 tr0) (net_shutdown_both P fd :: ('w, int) sys_m) any"
  "keeps (guarded s0 tr0) (net_set_nonblocking P fd b :: ('w, int) sys_m) any"
  "keeps (guarded s0 tr0) (net_wait_readable P fd tmo :: ('w, int) sys_m) any"
  "keeps (guarded s0 tr0) (net_get_socket_info P fd n :: ('w, (string \<times> u16) option) sys_m) any"
  "keeps (guarded s0 tr0) (net_accept P fd :: ('w, errno + int \<times> string \<times> u16) sys_m) any"
  "keeps (guarded s0 tr0) (give_up :: ('w, unit) sys_m) any"
  by (rule guarded_does [where A = "{}"]; (rule doing | simp))+

lemma guard_range:
  "keeps (guarded s0 tr0) (net_create_listening_socket_range P family addr pmin pmax backlog :: ('w, (int \<times> u16) option) sys_m) any"
  "keeps (guarded s0 tr0) (net_connect P host port :: ('w, int) sys_m) any"
  by (rule guarded_does [OF does_net_range [OF subset_refl]] guarded_does [OF does_net_connect [OF subset_refl]]; auto)+

lemma guard_stat:
  assumes "has_prefix (s_root_dir s0) q \<or> (\<exists>c n. inside (s_root_dir s0) c \<and> fs_get_parent_directory c n = Some q)"
  shows "keeps (guarded s0 tr0) (fs_path_exists P q :: ('w, bool) sys_m) any"
    "keeps (guarded s0 tr0) (fs_is_directory P q :: ('w, bool) sys_m) any"
    "keeps (guarded s0 tr0) (fs_get_file_size P q :: ('w, int) sys_m) any"
    "keeps (guarded s0 tr0) (fs_get_file_mtime P q :: ('w, int) sys_m) any"
  using assms
  by (auto intro!: guarded_does [OF does_queries(1) [OF singletonI]] guarded_does [OF does_queries(2) [OF singletonI]]
      guarded_does [OF does_queries(3) [OF singletonI]] guarded_does [OF does_queries(4) [OF singletonI]])

lemma permitted_prefix: "permitted s perm q \<Longrightarrow> has_prefix (s_root_dir s) q"
  using permitted_inside [of s perm q] by (auto simp: inside_def has_prefix_iff)

lemma guard_smod:
  "keeps (guarded s0 tr0) (smod (\<lambda>s. s\<lparr>s_data_socket := d\<rparr>)) any"
  "keeps (guarded s0 tr0) (smod (\<lambda>s. s\<lparr>s_data_listen_socket := d\<rparr>)) any"
  "keeps (guarded s0 tr0) (smod (\<lambda>s. s\<lparr>s_data_mode := m\<rparr>)) any"
  "keeps (guarded s0 tr0) (smod (\<lambda>s. s\<lparr>s_should_quit := b\<rparr>)) any"
  "keeps (guarded s0 tr0) (smod (\<lambda>s. s\<lparr>s_transfer_thread := b\<rparr>)) any"
  "keeps (guarded s0 tr0) (smod (\<lambda>s. s\<lparr>s_transfer_should_abort := b\<rparr>)) any"
  "keeps (guarded s0 tr0) (smod (\<lambda>s. s\<lparr>s_transfer_type := ty\<rparr>)) any"
  "keeps (guarded s0 tr0) (smod (\<lambda>s. s\<lparr>s_transfer_mode := tm\<rparr>)) any"
  "keeps (guarded s0 tr0) (smod (\<lambda>s. s\<lparr>s_data_structure := stru\<rparr>)) any"
  "keeps (guarded s0 tr0) (smod (\<lambda>s. s\<lparr>s_rename_pending := False, s_rename_from := []\<rparr>)) any"
  "keeps (guarded s0 tr0) (smod (\<lambda>s. s\<lparr>s_passive_port := u, s_data_mode := m\<rparr>)) any"
  "keeps (guarded s0 tr0) (smod (\<lambda>s. s\<lparr>s_active_ip := strncpy_buf 64 ip, s_active_port := u, s_data_mode := m\<rparr>)) any"
  "keeps (guarded s0 tr0) (smod (\<lambda>s. s\<lparr>s_current_dir := strncpy_buf SESSION_MAX_PATH p\<rparr>)) any"
  "keeps (guarded s0 tr0) (smod (\<lambda>s. s\<lparr>s_transfer_params := None\<rparr>)) any"
  "0 \<le> i \<Longrightarrow> keeps (guarded s0 tr0) (smod (\<lambda>s. s\<lparr>s_restart_offset := i\<rparr>)) any"
  by (rule guarded_smod; simp add: sess_inv_simps same_account_def)+

lemma guard_close_data [guard]: "keeps (guarded s0 tr0) (session_close_data_connection P) any"
  unfolding session_close_data_connection_def
  by (intro guard_bind hoare guard_basic guard_net guard_close_socket guard_smod)

lemma guard_close_sockets [guard]: "keeps (guarded s0 tr0) (close_data_sockets P) any"
  unfolding close_data_sockets_def
  by (intro guard_bind hoare guard_basic guard_net guard_close_socket guard_smod)

lemma guard_set_port [guard]: "keeps (guarded s0 tr0) (session_set_port P ip port) any"
  unfolding session_set_port_def by (intro guard_bind hoare guard_basic guard_smod guard)

lemma guard_set_pasv [guard]: "keeps (guarded s0 tr0) (session_set_pasv P pmin pmax) any"
  unfolding session_set_pasv_def
  by (intro guard_bind hoare guard_basic guard_smod guard_net guard_range guard; simp?)

lemma guard_accept_loop [guard]: "keeps (guarded s0 tr0) (accept_loop P n l) any"
  by (induction n) (auto intro!: guard_bind hoare guard_basic guard_smod guard_net split: sum.splits prod.splits)

lemma guard_mode_cases:
  "keeps I m1 F \<Longrightarrow> keeps I m2 F \<Longrightarrow> keeps I m3 F \<Longrightarrow>
   keeps I (case mode of SESSION_DATA_MODE_NONE \<Rightarrow> m1 | SESSION_DATA_MODE_ACTIVE \<Rightarrow> m2 | SESSION_DATA_MODE_PASSIVE \<Rightarrow> m3) F"
  by (cases mode) simp_all

lemma guard_open_data [guard]: "keeps (guarded s0 tr0) (session_open_data_connection P tmo) any"
  unfolding session_open_data_connection_def
  by (intro guard_bind hoare guard_mode_cases guard_basic guard_smod guard_net guard_range guard_close_socket guard; simp?)


lemma guard_check_bind:
  assumes "\<And>b. (b \<Longrightarrow> has_perm s0 perm) \<Longrightarrow> keeps (guarded s0 tr0) (f b) G"
  shows "keeps (guarded s0 tr0) (State_Monad.bind (session_check_path_access p perm) f) G"
  unfolding session_check_path_access_def
proof (rule keeps_bind [OF guarded_sget], elim exE conjE)
  fix a s assume s: "same_account s s0" and a: "a = path_access s p perm"
  show "keeps (guarded s0 tr0) (f a) G"
  proof (rule assms)
    assume a
    then have "has_perm s perm" using a
      by (auto simp: path_access_def has_perm_def is_admin_def split: if_splits)
    with s show "has_perm s0 perm" by (simp add: same_account_def has_perm_def is_admin_def)
  qed
qed

text \<open>
  The check and the resolution of a path read the session without changing it in between, so what
  was checked is what is resolved.
\<close>

lemma guard_check_resolve:
  assumes "keeps (guarded s0 tr0) m any" "keeps (guarded s0 tr0) (h None) any"
    and "\<And>q. permitted s0 perm q \<Longrightarrow> keeps (guarded s0 tr0) (h (Some q)) any"
  shows "keeps (guarded s0 tr0) (do {
      allowed \<leftarrow> session_check_path_access p perm;
      if \<not> allowed then m else do { abs \<leftarrow> session_resolve_path p SESSION_MAX_PATH; h abs } }) any" (is "keeps _ ?m any")
proof (rule keepsI)
  fix s :: "'a sys" assume g: "guarded s0 tr0 s"
  note run = session_check_path_access_def session_resolve_path_def sget_def
  show "guarded s0 tr0 (snd (run_state ?m s)) \<and> True"
  proof (cases "path_access (sess s) p perm")
    case False
    with keeps_snd [OF assms(1) g] show ?thesis by (simp add: run)
  next
    case True
    show ?thesis
    proof (cases "resolve_path (sess s) p SESSION_MAX_PATH")
      case None
      with True keeps_snd [OF assms(2) g] show ?thesis by (simp add: run)
    next
      case (Some q)
      then have "permitted (sess s) perm q" using True access_permitted by blast
      then have "permitted s0 perm q" using g permitted_account by (auto simp: guarded_def)
      from keeps_snd [OF assms(3) [OF this] g] True Some show ?thesis by (simp add: run)
    qed
  qed
qed

lemma guard_with_path [guard]:
  assumes "\<And>q. permitted s0 perm q \<Longrightarrow> keeps (guarded s0 tr0) (h q) any"
  shows "keeps (guarded s0 tr0) (with_path P p perm h) any"
  unfolding with_path_def by (rule guard_check_resolve) (simp_all add: guard_send assms)

lemma joined_prefix:
  assumes "\<exists>s. sess_inv s \<and> same_account s s0 \<and> r = s_root_dir s" "fs_join_path n r v = Some q"
  shows "has_prefix (s_root_dir s0) q"
  using assms join_path_Some(2) [OF assms(2)] by (auto simp: has_prefix_iff same_account_def)

lemma guard_change_directory [guard]: "keeps (guarded s0 tr0) (session_change_directory P p) any"
  unfolding session_change_directory_def
  by (intro keeps_bind [OF guarded_sget] hoare guard_check_bind guard_bind guard_basic guard_smod TrueI guard_stat
      disjI1 joined_prefix)

lemma guard_get_cwd [guard]: "keeps (guarded s0 tr0) (session_get_current_directory n) any"
  unfolding session_get_current_directory_def by (intro guard_bind hoare guard_basic; simp?)

lemma guard_restart [guard]:
  "keeps (guarded s0 tr0) session_get_restart_offset any"
  "keeps (guarded s0 tr0) session_clear_restart_offset any"
  "keeps (guarded s0 tr0) (session_set_restart_offset i) any"
  unfolding session_get_restart_offset_def session_clear_restart_offset_def session_set_restart_offset_def
  by (intro guard_bind hoare guard_basic guard_smod; simp?)+

lemma guard_params [guard]:
  "keeps (guarded s0 tr0) (session_set_type ty) any"
  "keeps (guarded s0 tr0) (session_set_mode tm) any"
  "keeps (guarded s0 tr0) (session_set_structure stru) any"
  "keeps (guarded s0 tr0) session_clear_rename_state any"
  "keeps (guarded s0 tr0) session_set_transfer_should_abort any"
  "keeps (guarded s0 tr0) session_get_transfer_thread_state any"
  unfolding session_set_type_def session_set_mode_def session_set_structure_def session_clear_rename_state_def
    session_set_transfer_should_abort_def session_get_transfer_thread_state_def
  by (intro guard_bind guard_basic guard_smod)+

lemma guard_set_rename [guard]:
  assumes "permitted s0 AUTH_PERM_RENAME q"
  shows "keeps (guarded s0 tr0) (session_set_rename_from q) any"
  unfolding session_set_rename_from_def
proof (intro guard_bind guard_basic guarded_smod conjI)
  fix s assume s: "sess_inv s" "same_account s s0"
  have q: "strncpy_buf SESSION_MAX_PATH q = q"
    using permitted_length [OF assms] by (simp add: strncpy_buf_id)
  show "sess_inv (s\<lparr>s_rename_from := strncpy_buf SESSION_MAX_PATH q, s_rename_pending := True\<rparr>)"
    unfolding q using s assms permitted_account by (auto intro: sess_inv_simps)
qed (simp_all add: same_account_def)

lemma guard_get_rename_bind:
  assumes "keeps (guarded s0 tr0) (f None) G"
    and "\<And>q. permitted s0 AUTH_PERM_RENAME q \<Longrightarrow> keeps (guarded s0 tr0) (f (Some q)) G"
  shows "keeps (guarded s0 tr0) (State_Monad.bind (session_get_rename_from SESSION_MAX_PATH) f) G"
proof (rule keepsI)
  fix s :: "'a sys" assume g: "guarded s0 tr0 s"
  let ?r = "s_rename_from (sess s)"
  show "guarded s0 tr0 (snd (run_state (State_Monad.bind (session_get_rename_from SESSION_MAX_PATH) f) s)) \<and>
        G (fst (run_state (State_Monad.bind (session_get_rename_from SESSION_MAX_PATH) f) s))"
  proof (cases "s_rename_pending (sess s)")
    case True
    with g have r: "permitted s0 AUTH_PERM_RENAME ?r" "strncpy_buf SESSION_MAX_PATH ?r = ?r"
      using permitted_account by (auto simp: guarded_def sess_inv_def buffers_fit_def strncpy_buf_id)
    from assms(2) [OF r(1), unfolded keeps_def, rule_format, OF g] True r(2) show ?thesis
      by (simp add: session_get_rename_from_def sget_def SESSION_MAX_PATH_def split: prod.splits)
  next
    case False
    from assms(1) [unfolded keeps_def, rule_format, OF g] False show ?thesis
      by (simp add: session_get_rename_from_def sget_def SESSION_MAX_PATH_def split: prod.splits)
  qed
qed

lemma guard_locks [guard]:
  "keeps (guarded s0 tr0) (try_shared P q) any"
  "keeps (guarded s0 tr0) (try_exclusive P q) any"
  "keeps (guarded s0 tr0) (unlock_shared q) any"
  "keeps (guarded s0 tr0) (unlock_exclusive q) any"
proof -
  have op: "keeps (guarded s0 tr0) (lock_op f) any" for f
    by (rule keepsI) (simp add: lock_op_def guarded_def split: prod.splits)
  have mem: "keeps (guarded s0 tr0) (lock_memory P q) any"
    unfolding lock_memory_def by (intro guard_bind hoare guard_basic; simp?)
  show "keeps (guarded s0 tr0) (try_shared P q) any" "keeps (guarded s0 tr0) (try_exclusive P q) any"
    unfolding try_shared_def try_exclusive_def by (intro guard_bind op mem)+
  show "keeps (guarded s0 tr0) (unlock_shared q) any" "keeps (guarded s0 tr0) (unlock_exclusive q) any"
    unfolding unlock_shared_def unlock_exclusive_def by (rule keeps_modify; simp add: guarded_def)+
qed

lemma guard_start_thread [guard]:
  assumes "permitted s0 (op_perm (tp_operation tp)) (tp_filepath tp)"
  shows "keeps (guarded s0 tr0) (session_start_transfer_thread P tp :: ('w, int) sys_m) any"
proof -
  have "keeps (guarded s0 tr0 :: 'w sys \<Rightarrow> bool)
      (smod (\<lambda>s. s\<lparr>s_transfer_params := Some tp, s_transfer_thread_state := TRANSFER_THREAD_STARTING\<rparr>)) any"
    unfolding smod_def
  proof (rule keeps_modify)
    fix s :: "'w sys" assume g: "guarded s0 tr0 s"
    then have "sess_inv (sess s)" "permitted (sess s) (op_perm (tp_operation tp)) (tp_filepath tp)"
      using assms permitted_account by (auto simp: guarded_def)
    then have "sess_inv ((sess s)\<lparr>s_transfer_params := Some tp, s_transfer_thread_state := TRANSFER_THREAD_STARTING\<rparr>)"
      using permitted_inside permitted_length by (intro sess_inv_simps) (auto simp: SESSION_MAX_PATH_def)
    with g assms show "guarded s0 tr0 (s\<lparr>sess := (sess s)\<lparr>s_transfer_params := Some tp,
        s_transfer_thread_state := TRANSFER_THREAD_STARTING\<rparr>\<rparr>)"
      by (simp add: guarded_def same_account_def)
  qed
  moreover have "keeps (guarded s0 tr0 :: 'w sys \<Rightarrow> bool)
      (smod (\<lambda>s. s\<lparr>s_transfer_params := None, s_transfer_thread_state := TRANSFER_THREAD_IDLE\<rparr>)) any"
    by (rule guarded_smod) (simp add: sess_inv_def buffers_fit_def permitted_def has_perm_def is_admin_def
        within_home_def same_account_def)
  ultimately show ?thesis
    unfolding session_start_transfer_thread_def by (intro guard_bind hoare guard_basic guard_smod)
qed


section \<open>Effects of the handlers\<close>

lemma guard_require [guard]:
  "keeps (guarded s0 tr0) h any \<Longrightarrow> keeps (guarded s0 tr0) (REQUIRE_AUTH P h) any"
  "keeps (guarded s0 tr0) h any \<Longrightarrow> keeps (guarded s0 tr0) (REQUIRE_AUTH_AND_ARG P cmd h) any"
  "keeps (guarded s0 tr0) h any \<Longrightarrow> keeps (guarded s0 tr0) (with_data_mode P h) any"
  unfolding REQUIRE_AUTH_AND_ARG_def REQUIRE_AUTH_def with_data_mode_def
  by (intro guard_bind hoare guard_basic guard; assumption)+

lemma guard_open_and_start [guard]:
  assumes "permitted s0 (op_perm k) q"
  shows "keeps (guarded s0 tr0) (open_and_start P k q off lock clear) any"
proof -
  have "strncpy_buf 1024 q = q"
    using permitted_length [OF assms] by (simp add: strncpy_buf_id SESSION_MAX_PATH_def)
  then show ?thesis
    unfolding open_and_start_def by (intro guard_bind hoare guard_basic guard TrueI) (simp add: assms)
qed

lemma guard_fs [guard]:
  "permitted s0 perm q \<Longrightarrow> keeps (guarded s0 tr0) (fs_path_exists P q :: ('w, bool) sys_m) any"
  "permitted s0 perm q \<Longrightarrow> keeps (guarded s0 tr0) (fs_is_directory P q :: ('w, bool) sys_m) any"
  "permitted s0 perm q \<Longrightarrow> keeps (guarded s0 tr0) (fs_get_file_size P q :: ('w, int) sys_m) any"
  "permitted s0 perm q \<Longrightarrow> keeps (guarded s0 tr0) (fs_get_file_mtime P q :: ('w, int) sys_m) any"
  by (rule guard_stat; simp add: permitted_prefix)+

lemma guard_fs_change [guard]:
  "permitted s0 AUTH_PERM_MKDIR q \<Longrightarrow> keeps (guarded s0 tr0) (fs_create_directory P q :: ('w, int) sys_m) any"
  "permitted s0 AUTH_PERM_RMDIR q \<Longrightarrow> keeps (guarded s0 tr0) (fs_delete_directory P q False :: ('w, int) sys_m) any"
  "permitted s0 AUTH_PERM_DELETE q \<or> permitted s0 AUTH_PERM_WRITE q \<Longrightarrow>
     keeps (guarded s0 tr0) (fs_delete_file P q :: ('w, int) sys_m) any"
  "permitted s0 AUTH_PERM_RENAME p \<Longrightarrow> permitted s0 AUTH_PERM_RENAME q \<Longrightarrow>
     keeps (guarded s0 tr0) (fs_rename P p q :: ('w, int) sys_m) any"
proof -
  show "permitted s0 AUTH_PERM_MKDIR q \<Longrightarrow> keeps (guarded s0 tr0) (fs_create_directory P q :: ('w, int) sys_m) any"
    by (rule guarded_does [OF does_changes(1) [of q "{Ev_path Op_mkdir q, Ev_path Op_stat q}"]])
      (simp_all add: permitted_prefix)
  show "permitted s0 AUTH_PERM_RMDIR q \<Longrightarrow> keeps (guarded s0 tr0) (fs_delete_directory P q False :: ('w, int) sys_m) any"
    by (rule guarded_does [OF does_changes(3) [OF singletonI]]) simp
  show "permitted s0 AUTH_PERM_DELETE q \<or> permitted s0 AUTH_PERM_WRITE q \<Longrightarrow>
     keeps (guarded s0 tr0) (fs_delete_file P q :: ('w, int) sys_m) any"
    by (rule guarded_does [OF does_changes(2) [OF singletonI]]) simp
  show "permitted s0 AUTH_PERM_RENAME p \<Longrightarrow> permitted s0 AUTH_PERM_RENAME q \<Longrightarrow>
     keeps (guarded s0 tr0) (fs_rename P p q :: ('w, int) sys_m) any"
    by (rule guarded_does [OF does_changes(4) [OF singletonI]]) simp
qed

lemmas guards = guard_bind hoare guard_basic guard_smod guard_net guard guard_check_bind TrueI

lemma guard_prev:
  "keeps (guarded s0 tr0) (cmd_prev_handle_clear_restart cmd) any"
  "keeps (guarded s0 tr0) (cmd_prev_handle_clear_rename cmd) any"
  "keeps (guarded s0 tr0) (cmd_prev_handle_clear_all cmd) any"
  unfolding cmd_prev_handle_clear_restart_def cmd_prev_handle_clear_rename_def cmd_prev_handle_clear_all_def
  by (intro guards)+

lemma guard_simple_handlers:
  "keeps (guarded s0 tr0) (cmd_handle_acct P cmd) any"
  "keeps (guarded s0 tr0) (cmd_handle_smnt P cmd) any"
  "keeps (guarded s0 tr0) (cmd_handle_syst P cmd) any"
  "keeps (guarded s0 tr0) (cmd_handle_noop P cmd) any"
  "keeps (guarded s0 tr0) (cmd_handle_feat P cmd) any"
  "keeps (guarded s0 tr0) (cmd_handle_pwd P cmd) any"
  "keeps (guarded s0 tr0) (cmd_handle_cwd P cmd) any"
  "keeps (guarded s0 tr0) (cmd_handle_cdup P cmd) any"
  "keeps (guarded s0 tr0) (cmd_handle_abor P cmd) any"
  unfolding cmd_handle_acct_def cmd_handle_smnt_def cmd_handle_syst_def cmd_handle_noop_def cmd_handle_feat_def
    cmd_handle_pwd_def cmd_handle_cwd_def cmd_handle_cdup_def cmd_handle_abor_def
  by (intro guards)+

lemma guard_quit: "keeps (guarded s0 tr0) (cmd_handle_quit P cmd) any"
  unfolding cmd_handle_quit_def Let_def by (intro guards)

lemma guard_parameter_handlers:
  "keeps (guarded s0 tr0) (cmd_handle_port P cmd) any"
  "keeps (guarded s0 tr0) (cmd_handle_type P cmd) any"
  "keeps (guarded s0 tr0) (cmd_handle_stru P cmd) any"
  "keeps (guarded s0 tr0) (cmd_handle_mode P cmd) any"
  "keeps (guarded s0 tr0) (cmd_handle_rest P cmd) any"
  unfolding cmd_handle_port_def cmd_handle_type_def cmd_handle_stru_def cmd_handle_mode_def cmd_handle_rest_def Let_def
  by (intro guards)+

lemma guard_pasv: "keeps (guarded s0 tr0) (cmd_handle_pasv P cmd) any"
  unfolding cmd_handle_pasv_def Let_def
  by (intro keeps_bind [OF guarded_sget] guards
      keeps_bind [OF guarded_does [OF does_net_send_all [OF subset_refl]]]; auto simp: same_account_def)

lemma guard_file_handlers:
  "keeps (guarded s0 tr0) (cmd_handle_mkd P cmd) any"
  "keeps (guarded s0 tr0) (cmd_handle_rmd P cmd) any"
  "keeps (guarded s0 tr0) (cmd_handle_rnfr P cmd) any"
  "keeps (guarded s0 tr0) (cmd_handle_size P cmd) any"
  "keeps (guarded s0 tr0) (cmd_handle_mdtm P cmd) any"
  unfolding cmd_handle_mkd_def cmd_handle_rmd_def cmd_handle_rnfr_def cmd_handle_size_def cmd_handle_mdtm_def
  by (intro guards; assumption)+

lemma guard_dele: "keeps (guarded s0 tr0) (cmd_handle_dele P cmd) any"
  unfolding cmd_handle_dele_def by (intro guards; (assumption | erule disjI1))

lemma guard_list_handlers:
  "keeps (guarded s0 tr0) (cmd_handle_list P cmd) any"
  "keeps (guarded s0 tr0) (cmd_handle_nlst P cmd) any"
  unfolding cmd_handle_list_def cmd_handle_nlst_def
  by (intro guards; simp add: op_perm_def)+

lemma guard_retr: "keeps (guarded s0 tr0) (cmd_handle_retr P cmd) any"
  unfolding cmd_handle_retr_def by (intro guards; (assumption | simp add: op_perm_def))

lemma guard_stor: "keeps (guarded s0 tr0) (cmd_handle_stor P cmd) any"
  unfolding cmd_handle_stor_def by (intro guards; (assumption | simp add: op_perm_def))

lemma guard_appe: "keeps (guarded s0 tr0) (cmd_handle_appe P cmd) any"
  unfolding cmd_handle_appe_def by (intro guards; (assumption | simp add: op_perm_def))


lemma guard_parent:
  assumes "permitted s0 perm c" "fs_get_parent_directory c n = Some q"
  shows "keeps (guarded s0 tr0) (fs_path_exists P q :: ('w, bool) sys_m) any"
    "keeps (guarded s0 tr0) (fs_is_directory P q :: ('w, bool) sys_m) any"
  using assms permitted_inside by (blast intro: guard_stat)+

lemma guard_rnto: "keeps (guarded s0 tr0 :: 'w sys \<Rightarrow> bool) (cmd_handle_rnto P cmd) any"
  unfolding cmd_handle_rnto_def
proof (rule guard_require(2), rule guard_get_rename_bind, goal_cases)
  case 1
  show ?case unfolding option.case by (rule guard_send)
next
  case (2 from_path)
  show ?case unfolding option.case
  proof (rule guard_check_resolve, goal_cases)
    case 1
    show ?case by (rule guard_send)
  next
    case 2
    show ?case unfolding option.case by (rule guard_send)
  next
    case (3 to_path)
    note t = \<open>permitted s0 AUTH_PERM_RENAME to_path\<close>
    have parent: "keeps (guarded s0 tr0 :: 'w sys \<Rightarrow> bool)
        (case fs_get_parent_directory to_path SESSION_MAX_PATH of
           None \<Rightarrow> ret None
         | Some dest_parent \<Rightarrow> do {
             exists \<leftarrow> fs_path_exists P dest_parent;
             if \<not> exists then ret (Some ''Destination directory does not exist'')
             else do {
               isdir \<leftarrow> fs_is_directory P dest_parent;
               if \<not> isdir then ret (Some ''Invalid destination path'') else ret None } }) any"
      by (intro keeps_option keeps_if guard_bind guard_basic; erule guard_parent [OF t])
    show ?case unfolding option.case
      by (rule guard_bind, rule guard_fs [OF t], rule keeps_if, rule guard_send, rule guard_bind, rule parent)
        (intro guards; rule \<open>permitted s0 AUTH_PERM_RENAME from_path\<close> t)
  qed
qed

end
