(* ===== verification/Dispatch.thy ===== *)
theory Dispatch
  imports Handler_Safety
begin

text \<open>
  \<open>cmd_register_standard_handlers\<close> of \<open>server/src/command.c\<close>: the table the server runs with, and
  what the dispatch of an arbitrary command through this table may do.
\<close>

section \<open>The standard table\<close>

type_synonym 'w ftp_handler = "'w sys cmd_handler_t \<times> 'w sys cmd_handler_t option"

definition standard_handlers :: "'w posix \<Rightarrow> (string \<times> 'w ftp_handler) list" where
  "standard_handlers P = [
     (''USER'', cmd_handle_user P, Some cmd_prev_handle_clear_all),
     (''PASS'', cmd_handle_pass P, Some cmd_prev_handle_clear_all),
     (''ACCT'', cmd_handle_acct P, Some cmd_prev_handle_clear_all),
     (''CWD'', cmd_handle_cwd P, Some cmd_prev_handle_clear_all),
     (''CDUP'', cmd_handle_cdup P, Some cmd_prev_handle_clear_all),
     (''SMNT'', cmd_handle_smnt P, Some cmd_prev_handle_clear_all),
     (''QUIT'', cmd_handle_quit P, Some cmd_prev_handle_clear_all),
     (''REIN'', cmd_handle_rein P, Some cmd_prev_handle_clear_all),
     (''PORT'', cmd_handle_port P, Some cmd_prev_handle_clear_all),
     (''PASV'', cmd_handle_pasv P, Some cmd_prev_handle_clear_all),
     (''TYPE'', cmd_handle_type P, Some cmd_prev_handle_clear_all),
     (''STRU'', cmd_handle_stru P, Some cmd_prev_handle_clear_all),
     (''MODE'', cmd_handle_mode P, Some cmd_prev_handle_clear_all),
     (''REST'', cmd_handle_rest P, Some cmd_prev_handle_clear_rename),
     (''STOR'', cmd_handle_stor P, Some cmd_prev_handle_clear_rename),
     (''RETR'', cmd_handle_retr P, Some cmd_prev_handle_clear_rename),
     (''APPE'', cmd_handle_appe P, Some cmd_prev_handle_clear_all),
     (''LIST'', cmd_handle_list P, Some cmd_prev_handle_clear_all),
     (''NLST'', cmd_handle_nlst P, Some cmd_prev_handle_clear_all),
     (''RNFR'', cmd_handle_rnfr P, Some cmd_prev_handle_clear_all),
     (''RNTO'', cmd_handle_rnto P, Some cmd_prev_handle_clear_restart),
     (''DELE'', cmd_handle_dele P, Some cmd_prev_handle_clear_all),
     (''RMD'', cmd_handle_rmd P, Some cmd_prev_handle_clear_all),
     (''MKD'', cmd_handle_mkd P, Some cmd_prev_handle_clear_all),
     (''PWD'', cmd_handle_pwd P, Some cmd_prev_handle_clear_all),
     (''ABOR'', cmd_handle_abor P, Some cmd_prev_handle_clear_all),
     (''SYST'', cmd_handle_syst P, Some cmd_prev_handle_clear_all),
     (''NOOP'', cmd_handle_noop P, None),
     (''FEAT'', cmd_handle_feat P, None),
     (''SIZE'', cmd_handle_size P, Some cmd_prev_handle_clear_all),
     (''MDTM'', cmd_handle_mdtm P, Some cmd_prev_handle_clear_all)]"

fun register_list :: "(string \<times> 'w ftp_handler) list \<Rightarrow> int \<Rightarrow> 'w sys cmd_state \<Rightarrow> int \<times> 'w sys cmd_state" where
  "register_list [] result st = (result, st)"
| "register_list ((name, handler, prev_handler) # cs) result st =
     (case cmd_register_handler name (Some handler) prev_handler st of
        (r, st') \<Rightarrow> register_list cs (result OR r) st')"

definition cmd_register_standard_handlers :: "'w posix \<Rightarrow> 'w sys cmd_state \<Rightarrow> int \<times> 'w sys cmd_state" where
  "cmd_register_standard_handlers P st =
     (if \<not> g_initialized st then (-1, st)
      else (case register_list (standard_handlers P) 0 st of (result, st') \<Rightarrow> (if result = 0 then 0 else -1, st')))"

text \<open>The table after \<open>cmd_init\<close> and \<open>cmd_register_standard_handlers\<close>.\<close>

definition ftp_table :: "'w posix \<Rightarrow> 'w sys cmd_state" where
  "ftp_table P = snd (cmd_register_standard_handlers P (snd (cmd_init cmd_state0)))"

lemma register_pair_apply: "cmd_register_handler n (Some h) p st = register_pair n (h, p) st"
  by (simp add: register_pair_def)

lemma register_list_all: "register_list cs res st = cmd.register_all cs res st"
  by (induction cs res st rule: register_list.induct) (simp_all add: register_pair_apply split: prod.splits)

lemma standard_names:
  "map fst (standard_handlers P) =
     [''USER'', ''PASS'', ''ACCT'', ''CWD'', ''CDUP'', ''SMNT'', ''QUIT'', ''REIN'', ''PORT'', ''PASV'', ''TYPE'', ''STRU'',
      ''MODE'', ''REST'', ''STOR'', ''RETR'', ''APPE'', ''LIST'', ''NLST'', ''RNFR'', ''RNTO'', ''DELE'', ''RMD'', ''MKD'',
      ''PWD'', ''ABOR'', ''SYST'', ''NOOP'', ''FEAT'', ''SIZE'', ''MDTM'']"
  by (simp add: standard_handlers_def)

lemma standard_keys: "map (\<lambda>(n, h). (cmd_key n, h)) (standard_handlers P) = standard_handlers P"
proof -
  have "\<forall>n \<in> set (map fst (standard_handlers P)). cmd_key n = n"
    unfolding standard_names by code_simp
  then have "\<And>p. p \<in> set (standard_handlers P) \<Longrightarrow> (\<lambda>(n, h). (cmd_key n, h)) p = p" by force
  then show ?thesis by (rule map_idI)
qed

lemma standard_distinct: "distinct (map fst (standard_handlers P))"
  unfolding standard_names by code_simp

lemma standard_registered:
  "fst (cmd_register_standard_handlers P (snd (cmd_init cmd_state0))) = 0"
  "wf_table (ftp_table P)"
  "cmd_lookup (ftp_table P) = map_of (standard_handlers P)"
proof -
  let ?st = "snd (cmd_init (cmd_state0 :: 'a sys cmd_state))"
  have "g_initialized ?st" by (simp add: cmd_init_def cmd_state0_def)
  moreover have "length (standard_handlers P) \<le> CMD_MAX_HANDLERS"
    by (simp add: standard_handlers_def CMD_MAX_HANDLERS_def)
  then have "fst (cmd.register_all (standard_handlers P) 0 ?st) = 0 \<and>
      wf_table (snd (cmd.register_all (standard_handlers P) 0 ?st)) \<and>
      cmd_lookup (snd (cmd.register_all (standard_handlers P) 0 ?st)) = map_of (rev (standard_handlers P))"
    using cmd.register_all_ok [of ?st "standard_handlers P"] by (simp add: standard_keys)
  moreover have "map_of (rev (standard_handlers P)) = map_of (standard_handlers P)"
    using standard_distinct [of P] by (subst map_of_inject_set) (simp_all add: rev_map [symmetric])
  ultimately show "fst (cmd_register_standard_handlers P ?st) = 0" "wf_table (ftp_table P)"
    "cmd_lookup (ftp_table P) = map_of (standard_handlers P)"
    by (simp_all add: ftp_table_def cmd_register_standard_handlers_def register_list_all case_prod_beta)
qed

section \<open>Commands that change the account\<close>

text \<open>
  PASS and REIN replace the account of the session, so for them the permissions before the command
  say nothing about the session after it. What remains is stated with respect to the session before
  the command: its root and control socket stay, effects are within what it allows, and a transfer
  that the command starts is permitted to it.
\<close>

definition harmless :: "session_t \<Rightarrow> os_event list \<Rightarrow> 'w sys \<Rightarrow> bool" where
  "harmless s0 tr0 s \<longleftrightarrow> sess_inv (sess s) \<and>
     s_root_dir (sess s) = s_root_dir s0 \<and> s_control_socket (sess s) = s_control_socket s0 \<and>
     (\<exists>tr. trace s = tr0 @ tr \<and> (\<forall>e \<in> set tr. allowed s0 e)) \<and>
     (\<forall>tp. s_transfer_params (sess s) = Some tp \<longrightarrow>
        s_transfer_params s0 = Some tp \<or> permitted s0 (op_perm (tp_operation tp)) (tp_filepath tp))"

lemma guarded_harmless: "guarded s0 tr0 s \<Longrightarrow> harmless s0 tr0 s"
  by (auto simp: guarded_def harmless_def same_account_def)

definition settled :: "session_t \<Rightarrow> os_event list \<Rightarrow> 'w sys \<Rightarrow> bool" where
  "settled s0 tr0 s \<longleftrightarrow> harmless s0 tr0 s \<and> \<not> s_rename_pending (sess s)"

lemma settled_does:
  fixes m :: "('w, 'a) sys_m"
  assumes "does A m" "A \<subseteq> Collect (allowed s0)"
  shows "keeps (settled s0 tr0) m any"
proof (rule keeps_does [OF assms(1)])
  fix s s' :: "'w sys" and tr
  assume g: "settled s0 tr0 s" and t: "trace s' = trace s @ tr" "set tr \<subseteq> A" "os.more s' = os.more s"
  have eq: "sess s' = sess s" by (rule more_sys(3) [OF t(3)])
  from g obtain tr1 where tr1: "trace s = tr0 @ tr1" "\<forall>e \<in> set tr1. allowed s0 e"
    by (auto simp: settled_def harmless_def)
  have "trace s' = tr0 @ (tr1 @ tr)" "\<forall>e \<in> set (tr1 @ tr). allowed s0 e"
    using tr1 t(1,2) assms(2) by auto
  with g eq show "settled s0 tr0 s'" unfolding settled_def harmless_def by metis
qed

lemma settled_smod:
  assumes "\<And>s. sess_inv s \<Longrightarrow> \<not> s_rename_pending s \<Longrightarrow> sess_inv (f s) \<and> \<not> s_rename_pending (f s) \<and>
      s_root_dir (f s) = s_root_dir s \<and> s_control_socket (f s) = s_control_socket s \<and>
      (s_transfer_params (f s) = s_transfer_params s \<or> s_transfer_params (f s) = None)"
  shows "keeps (settled s0 tr0 :: 'w sys \<Rightarrow> bool) (smod f) any"
  unfolding smod_def
proof (rule keeps_modify)
  fix s :: "'w sys"
  assume g: "settled s0 tr0 s"
  then have "sess_inv (sess s)" "\<not> s_rename_pending (sess s)" by (auto simp: settled_def harmless_def)
  from assms [OF this] g show "settled s0 tr0 (s\<lparr>sess := f (sess s)\<rparr>)"
    by (auto simp: settled_def harmless_def)
qed

lemma settled_sget:
  "keeps (settled s0 tr0) (sget f) (\<lambda>r. \<exists>s. s_root_dir s = s_root_dir s0 \<and> s_control_socket s = s_control_socket s0 \<and> r = f s)"
  unfolding sget_def by (rule keeps_gets) (auto simp: settled_def harmless_def)

lemma settled_basic:
  "keeps (settled s0 tr0) (ret a) any" "keeps (settled s0 tr0) (sget f) any" "keeps (settled s0 tr0) (gets h) any"
  by (rule keeps_ret TrueI keeps_any [OF settled_sget] keeps_gets)+

lemma settled_bind:
  "keeps (settled s0 tr0) m any \<Longrightarrow> (\<And>a. keeps (settled s0 tr0) (f a) G) \<Longrightarrow>
   keeps (settled s0 tr0) (State_Monad.bind m f) G"
  by (rule keeps_bind)

lemma settled_send: "keeps (settled s0 tr0) (session_send_response P code msg) any"
  unfolding session_send_response_def
  by (auto intro!: hoare settled_basic keeps_bind [OF settled_sget] keeps_bind [OF settled_does [OF does_net_send_all [OF subset_refl]]])

lemma settled_net:
  "keeps (settled s0 tr0) (net_close_socket P fd :: ('w, unit) sys_m) any"
  "keeps (settled s0 tr0) (net_shutdown_both P fd :: ('w, int) sys_m) any"
  by (rule settled_does [OF does_net(3) [OF singletonI]], simp)
    (rule settled_does [where A = "{}"]; (rule doing | simp))+

lemma settled_close_data: "keeps (settled s0 tr0) (session_close_data_connection P) any"
  unfolding session_close_data_connection_def
  by (intro settled_bind hoare settled_basic settled_net settled_smod TrueI) (simp_all add: sess_inv_simps)

lemma settled_is_directory:
  assumes "\<exists>s. s_root_dir s = s_root_dir s0 \<and> s_control_socket s = s_control_socket s0 \<and> r = s_root_dir s"
    and "fs_join_path n r v = Some q"
  shows "keeps (settled s0 tr0) (fs_is_directory P q :: ('w, bool) sys_m) any"
proof -
  have "has_prefix (s_root_dir s0) q" using assms(1) join_path_Some(2) [OF assms(2)] by (auto simp: has_prefix_iff)
  then show ?thesis by (auto intro: settled_does [OF does_queries(2) [OF singletonI]])
qed

lemma settled_authenticate: "keeps (settled s0 tr0) (session_authenticate P password) any"
  unfolding session_authenticate_def Let_def
  by (intro hoare TrueI settled_bind settled_basic keeps_bind [OF settled_sget [of _ _ s_root_dir]] settled_smod settled_is_directory;
      assumption?)
    (auto simp: sess_inv_def buffers_fit_def length_strncpy_buf SESSION_MAX_PATH_def SESSION_MAX_USERNAME_def)

lemma settled_pass: "keeps (settled s0 tr0) (cmd_handle_pass P cmd) any"
  unfolding cmd_handle_pass_def Let_def
  by (intro hoare TrueI settled_bind settled_basic settled_send settled_authenticate)

lemma settled_rein: "keeps (settled s0 tr0) (cmd_handle_rein P cmd) any"
  unfolding cmd_handle_rein_def
  by (intro hoare TrueI settled_bind settled_basic settled_send settled_close_data settled_smod)
    (simp add: session_reset_state_def sess_inv_def buffers_fit_def SESSION_MAX_PATH_def SESSION_MAX_USERNAME_def)

lemma guard_user: "keeps (guarded s0 tr0) (cmd_handle_user P cmd) any"
proof -
  have "keeps (guarded s0 tr0) (session_set_user name) any" for name
    unfolding session_set_user_def
    by (intro guards guarded_smod)
      (simp add: sess_inv_def buffers_fit_def length_strncpy_buf SESSION_MAX_USERNAME_def permitted_def has_perm_def
        is_admin_def within_home_def same_account_def)
  then show ?thesis unfolding cmd_handle_user_def Let_def by (intro guards)
qed

section \<open>Every command is harmless\<close>

definition run_entry :: "'w ftp_handler \<Rightarrow> proto_command_t \<Rightarrow> ('w, int) sys_m" where
  "run_entry e cmd =
     (case e of
        (h, None) \<Rightarrow> h cmd
      | (h, Some prev) \<Rightarrow> do { res \<leftarrow> prev cmd; if res \<noteq> 0 then ret res else h cmd })"

lemma dispatch_standard:
  "cmd_dispatch (ftp_table P) cmd =
     (case map_of (standard_handlers P) (command cmd) of None \<Rightarrow> ret (-1) | Some e \<Rightarrow> run_entry e cmd)"
  unfolding dispatch_lookup [OF standard_registered(2)] standard_registered(3) run_entry_def
  by (simp split: option.splits prod.splits)

lemma guard_prev_handlers:
  assumes "p \<in> {None, Some cmd_prev_handle_clear_all, Some cmd_prev_handle_clear_rename, Some cmd_prev_handle_clear_restart}"
    and "keeps (guarded s0 tr0) (h cmd) any"
  shows "keeps (guarded s0 tr0) (run_entry (h, p) cmd) any"
  using assms(1) unfolding run_entry_def
  by (auto simp: assms(2) intro!: guard_bind hoare guard_prev assms(2))

lemma guard_handlers:
  assumes "(n, h, p) \<in> set (standard_handlers P)" "n \<noteq> ''PASS''" "n \<noteq> ''REIN''"
  shows "keeps (guarded s0 tr0) (run_entry (h, p) cmd) any"
proof (rule guard_prev_handlers)
  have "\<forall>e \<in> set (standard_handlers P). snd (snd e) \<in>
      {None, Some cmd_prev_handle_clear_all, Some cmd_prev_handle_clear_rename, Some cmd_prev_handle_clear_restart}"
    by (simp add: standard_handlers_def)
  with assms(1) show "p \<in> {None, Some cmd_prev_handle_clear_all, Some cmd_prev_handle_clear_rename, Some cmd_prev_handle_clear_restart}"
    by force
  have "\<forall>e \<in> set (standard_handlers P). fst e \<noteq> ''PASS'' \<longrightarrow> fst e \<noteq> ''REIN'' \<longrightarrow>
      keeps (guarded s0 tr0) (fst (snd e) cmd) any"
    by (simp add: standard_handlers_def guard_simple_handlers guard_quit guard_parameter_handlers guard_pasv
        guard_file_handlers guard_dele guard_list_handlers guard_retr guard_stor guard_appe guard_rnto guard_user)
  with assms show "keeps (guarded s0 tr0) (h cmd) any" by force
qed

text \<open>\<open>clear_all\<close> before PASS and REIN leaves no rename pending.\<close>

lemma settled_entry:
  assumes "keeps (settled s0 tr0) (h cmd) any" "guarded s0 tr0 s"
  shows "settled s0 tr0 (snd (run_state (run_entry (h, Some cmd_prev_handle_clear_all) cmd) s))"
proof -
  let ?m = "cmd_prev_handle_clear_all cmd" and ?s = "snd (run_state (cmd_prev_handle_clear_all cmd) s)"
  have "guarded s0 tr0 ?s" by (rule keeps_snd [OF guard_prev(3) assms(2)])
  moreover have "\<not> s_rename_pending (sess ?s)" "fst (run_state ?m s) = 0"
    by (simp_all add: cmd_prev_handle_clear_all_def session_clear_restart_offset_def session_clear_rename_state_def smod_def)
  ultimately have "settled s0 tr0 ?s" "fst (run_state ?m s) = 0"
    by (simp_all add: settled_def guarded_harmless)
  with keeps_snd [OF assms(1)] show ?thesis by (simp add: run_entry_def case_prod_beta)
qed

lemma standard_pass_rein:
  "map_of (standard_handlers P) ''PASS'' = Some (cmd_handle_pass P, Some cmd_prev_handle_clear_all)"
  "map_of (standard_handlers P) ''REIN'' = Some (cmd_handle_rein P, Some cmd_prev_handle_clear_all)"
  by (simp_all add: standard_handlers_def)

lemma guarded_start: "sess_inv (sess s) \<Longrightarrow> guarded (sess s) (trace s) s"
  by (simp add: guarded_def)

lemma dispatch_guarded:
  assumes "sess_inv (sess s)" "command cmd \<noteq> ''PASS''" "command cmd \<noteq> ''REIN''"
  shows "guarded (sess s) (trace s) (snd (run_state (cmd_dispatch (ftp_table P) cmd) s))"
proof (cases "map_of (standard_handlers P) (command cmd)")
  case None
  then show ?thesis using guarded_start [OF assms(1)] by (simp add: dispatch_standard)
next
  case (Some e)
  obtain h p where e: "e = (h, p)" by (cases e)
  from Some have "(command cmd, h, p) \<in> set (standard_handlers P)" by (simp add: e map_of_SomeD)
  from keeps_snd [OF guard_handlers [OF this assms(2,3)] guarded_start [OF assms(1)]] Some e show ?thesis
    by (simp add: dispatch_standard)
qed

lemma dispatch_harmless:
  assumes "sess_inv (sess s)"
  shows "harmless (sess s) (trace s) (snd (run_state (cmd_dispatch (ftp_table P) cmd) s))"
proof -
  note g = guarded_start [OF assms]
  consider "command cmd = ''PASS''" | "command cmd = ''REIN''" | "command cmd \<noteq> ''PASS''" "command cmd \<noteq> ''REIN''" by blast
  then show ?thesis
  proof cases
    case 1
    from settled_entry [OF settled_pass g] show ?thesis by (simp add: dispatch_standard standard_pass_rein 1 settled_def)
  next
    case 2
    from settled_entry [OF settled_rein g] show ?thesis by (simp add: dispatch_standard standard_pass_rein 2 settled_def)
  next
    case 3
    from dispatch_guarded [OF assms 3] show ?thesis by (rule guarded_harmless)
  qed
qed

section \<open>A concrete system\<close>

text \<open>A session as it is after a connection, and a server for it on \<open>plain_posix\<close>, to apply
  properties to concrete values.\<close>

definition plain_session :: session_t where
  "plain_session = (session_reset_state zero_session)\<lparr>s_control_socket := 6, s_client_ip := ''10.0.0.9'',
     s_client_port := 4000, s_bind_address := ''127.0.0.1'', s_root_dir := ''/srv/ftp''\<rparr>"

definition plain_sys :: "session_t \<Rightarrow> unit sys" where
  "plain_sys s = \<lparr>world = (), trace = [], stuck = False, locks = [], auth = auth_state0, sess = s\<rparr>"

lemma plain_session_inv: "sess_inv plain_session"
  by (simp add: plain_session_def session_reset_state_def zero_session_def sess_inv_def buffers_fit_def
      SESSION_MAX_PATH_def SESSION_MAX_USERNAME_def)

section \<open>Properties\<close>

text \<open>
  C9: no command takes a session out of its root directory or beyond its account. For any command
  that is dispatched through the standard table, whatever the operating system answers: the session
  stays well-formed, with its root directory and control connection; every effect on files is one
  that the account is permitted, on a path inside the root and the home directory, and nothing is
  sent but on the control connection; a transfer that the command starts is permitted likewise.
\<close>

theorem commands_confined:
  assumes "sess_inv (sess s)"
  shows "let s' = snd (run_state (cmd_dispatch (ftp_table P) cmd) s)
     in sess_inv (sess s') \<and>
        s_root_dir (sess s') = s_root_dir (sess s) \<and> s_control_socket (sess s') = s_control_socket (sess s) \<and>
        (\<exists>tr. trace s' = trace s @ tr \<and> (\<forall>e \<in> set tr. allowed (sess s) e)) \<and>
        (\<forall>tp. s_transfer_params (sess s') = Some tp \<longrightarrow> s_transfer_params (sess s) = Some tp \<or>
           permitted (sess s) (op_perm (tp_operation tp)) (tp_filepath tp))"
  using dispatch_harmless [OF assms, of P cmd] by (simp add: harmless_def Let_def)

lemma commands_confined_witness:
  "sess_inv (sess (snd (run_state (cmd_dispatch (ftp_table plain_posix)
     \<lparr>command = ''DELE'', argument = ''../../etc/passwd'', has_argument = True\<rparr>) (plain_sys plain_session))))"
  using commands_confined [of "plain_sys plain_session" plain_posix
      "\<lparr>command = ''DELE'', argument = ''../../etc/passwd'', has_argument = True\<rparr>"] plain_session_inv
  by (simp add: plain_sys_def Let_def)

definition login_commands :: "string list" where
  "login_commands = [''CWD'', ''CDUP'', ''PORT'', ''PASV'', ''TYPE'', ''STRU'', ''MODE'', ''REST'', ''STOR'', ''RETR'',
     ''APPE'', ''LIST'', ''NLST'', ''RNFR'', ''RNTO'', ''DELE'', ''RMD'', ''MKD'', ''PWD'', ''SIZE'', ''MDTM'']"

lemma with_login:
  assumes "\<not> s_authenticated (sess s)"
  shows "run_state (REQUIRE_AUTH P h) s =
      run_state (session_send_response P PROTO_RESP_NOT_LOGGED_IN ''Please login with USER and PASS'') s"
    "run_state (REQUIRE_AUTH_AND_ARG P cmd h) s =
      run_state (session_send_response P PROTO_RESP_NOT_LOGGED_IN ''Please login with USER and PASS'') s"
  using assms by (simp_all add: REQUIRE_AUTH_AND_ARG_def REQUIRE_AUTH_def sget_def)

lemmas login_handlers = cmd_handle_cwd_def cmd_handle_cdup_def cmd_handle_port_def cmd_handle_pasv_def cmd_handle_type_def
  cmd_handle_stru_def cmd_handle_mode_def cmd_handle_rest_def cmd_handle_stor_def cmd_handle_retr_def cmd_handle_appe_def
  cmd_handle_list_def cmd_handle_nlst_def cmd_handle_rnfr_def cmd_handle_rnto_def cmd_handle_dele_def cmd_handle_rmd_def
  cmd_handle_mkd_def cmd_handle_pwd_def cmd_handle_size_def cmd_handle_mdtm_def

text \<open>The session with the pending restart offset and rename forgotten, as the predecessor demands.\<close>

definition forget :: "bool \<Rightarrow> bool \<Rightarrow> session_t \<Rightarrow> session_t" where
  "forget restart rename s =
     (let s1 = (if restart then s\<lparr>s_restart_offset := 0\<rparr> else s)
      in if rename then s1\<lparr>s_rename_pending := False, s_rename_from := []\<rparr> else s1)"

lemma prev_forget:
  "run_state (cmd_prev_handle_clear_all cmd) s = (0, s\<lparr>sess := forget True True (sess s)\<rparr>)"
  "run_state (cmd_prev_handle_clear_restart cmd) s = (0, s\<lparr>sess := forget True False (sess s)\<rparr>)"
  "run_state (cmd_prev_handle_clear_rename cmd) s = (0, s\<lparr>sess := forget False True (sess s)\<rparr>)"
  by (simp_all add: cmd_prev_handle_clear_all_def cmd_prev_handle_clear_restart_def cmd_prev_handle_clear_rename_def
      session_clear_restart_offset_def session_clear_rename_state_def smod_def forget_def)

lemma forget_authenticated [simp]: "s_authenticated (forget a b s) = s_authenticated s"
  by (simp add: forget_def Let_def)

lemma run_entry_login:
  assumes "p \<in> {cmd_prev_handle_clear_all, cmd_prev_handle_clear_restart, cmd_prev_handle_clear_rename}"
    and "\<And>t. \<not> s_authenticated (sess t) \<Longrightarrow> run_state (h cmd) t = run_state r t" and "\<not> s_authenticated (sess s)"
  shows "\<exists>a b. run_state (run_entry (h, Some p) cmd) s = run_state r (s\<lparr>sess := forget a b (sess s)\<rparr>)"
  using assms(1) by (auto simp: run_entry_def prev_forget assms(2,3)) (rule exI, rule exI, rule refl)+

lemma login_entries:
  assumes "n \<in> set login_commands"
  shows "\<exists>h p. map_of (standard_handlers P) n = Some (h, Some p) \<and>
     p \<in> {cmd_prev_handle_clear_all, cmd_prev_handle_clear_restart, cmd_prev_handle_clear_rename} \<and>
     (\<forall>t. \<not> s_authenticated (sess t) \<longrightarrow> run_state (h cmd) t =
        run_state (session_send_response P PROTO_RESP_NOT_LOGGED_IN ''Please login with USER and PASS'') t)"
proof -
  have "\<forall>n \<in> set login_commands. case map_of (standard_handlers P) n of
      Some (h, Some p) \<Rightarrow> p \<in> {cmd_prev_handle_clear_all, cmd_prev_handle_clear_restart, cmd_prev_handle_clear_rename} \<and>
        (\<forall>t. \<not> s_authenticated (sess t) \<longrightarrow> run_state (h cmd) t =
           run_state (session_send_response P PROTO_RESP_NOT_LOGGED_IN ''Please login with USER and PASS'') t)
    | _ \<Rightarrow> False"
    unfolding login_commands_def standard_handlers_def login_handlers by (simp add: with_login)
  with assms show ?thesis by (fastforce split: option.splits prod.splits)
qed



section \<open>Logging in\<close>

text \<open>Sending and closing leave the session's account and the shared tables alone.\<close>

lemma does_more:
  fixes m :: "('w, 'a) sys_m"
  assumes "does A m"
  shows "sess (snd (run_state m s)) = sess s" "auth (snd (run_state m s)) = auth s" "locks (snd (run_state m s)) = locks s"
proof -
  have "os.more (snd (run_state m s)) = os.more s" using assms unfolding does_def by blast
  then show "sess (snd (run_state m s)) = sess s" "auth (snd (run_state m s)) = auth s"
    "locks (snd (run_state m s)) = locks s"
    by (rule more_sys)+
qed

lemma does_gets [doing]: "does A (gets f)" "does A (sget g)"
  by (simp_all add: does_def sget_def)

lemma does_send_response [doing]: "range (\<lambda>(fd, bs). Ev_send fd bs) \<subseteq> A \<Longrightarrow> does A (session_send_response P code msg)"
  unfolding session_send_response_def by (intro doing does_net_send_all) auto

lemmas response_frame = does_more [OF does_send_response [OF subset_refl]]

lemma authenticate_account:
  fixes s s' :: "'w sys"
  assumes s': "s' = snd (run_state (session_authenticate P password) s)"
  shows "sess s' = sess s \<or> (\<exists>u. auth_authenticate (auth s) (s_username (sess s)) password \<and>
     auth_get_user (auth s) (s_username (sess s)) = Some u \<and> s_permissions (sess s') = u_permissions u \<and>
     s_user_home_dir (sess s') = strncpy_buf SESSION_MAX_PATH (u_home_dir u) \<and> s_username (sess s') = s_username (sess s))"
proof -
  have frame: "sess (snd (run_state (fs_is_directory P q :: ('w, bool) sys_m) t)) = sess t" for q and t :: "'w sys"
    by (rule does_more [OF does_queries(2) [OF singletonI]])
  show ?thesis
    unfolding s' session_authenticate_def
    by (cases "auth_authenticate (auth s) (s_username (sess s)) password"; cases "auth_get_user (auth s) (s_username (sess s))")
      (simp_all add: sget_def smod_def Let_def frame case_prod_beta split: option.splits)
qed

lemma run_send_response:
  "sess (snd (run_state (session_send_response P code msg) s)) = sess (s :: 'w sys)"
  by (rule response_frame(1))

lemma pass_account:
  assumes "sess (snd (run_state (cmd_handle_pass P cmd) s)) \<noteq> sess (s :: 'w sys)"
  shows "s_state (sess s) = SESSION_STATE_WAIT_PASSWORD \<and>
     sess (snd (run_state (cmd_handle_pass P cmd) s)) =
       sess (snd (run_state (session_authenticate P (if has_argument cmd then argument cmd else [])) s))"
  using assms unfolding cmd_handle_pass_def
  by (auto simp: sget_def Let_def run_send_response case_prod_beta split: if_splits)

lemma rein_account: "\<not> s_authenticated (sess (snd (run_state (cmd_handle_rein P cmd) s))) \<or>
    sess (snd (run_state (cmd_handle_rein P cmd) s)) = sess s"
  unfolding cmd_handle_rein_def
  by (simp add: smod_def case_prod_beta run_send_response session_reset_state_def)

text \<open>
  C10: an account is only obtained by a password. A command changes whether the session is logged in,
  its permissions or its home directory only in two cases: REIN, which logs out, and PASS after
  USER, with a password that the user database accepts for the name given, which sets exactly the
  permissions and the home directory of that account.
\<close>

theorem account_only_by_password:
  assumes "sess_inv (sess s)"
  shows "let s' = snd (run_state (cmd_dispatch (ftp_table P) cmd) s) in
     same_account (sess s') (sess s) \<or>
     command cmd = ''REIN'' \<and> \<not> s_authenticated (sess s') \<or>
     command cmd = ''PASS'' \<and> s_state (sess s) = SESSION_STATE_WAIT_PASSWORD \<and>
       auth_authenticate (auth s) (s_username (sess s)) (if has_argument cmd then argument cmd else []) \<and>
       (\<exists>u. auth_get_user (auth s) (s_username (sess s)) = Some u \<and>
          s_permissions (sess s') = u_permissions u \<and>
          s_user_home_dir (sess s') = strncpy_buf SESSION_MAX_PATH (u_home_dir u))"
proof -
  let ?s = "s\<lparr>sess := forget True True (sess s)\<rparr>"
  have f: "s_state (forget a b x) = s_state x" "s_username (forget a b x) = s_username x"
    "same_account (forget a b x) x" for a b x by (simp_all add: forget_def same_account_def Let_def)
  have run: "run_state (run_entry (h, Some cmd_prev_handle_clear_all) cmd) s = run_state (h cmd) ?s"
    for h :: "proto_command_t \<Rightarrow> ('a, int) sys_m" by (simp add: run_entry_def prev_forget)
  consider "command cmd = ''PASS''" | "command cmd = ''REIN''" | "command cmd \<noteq> ''PASS''" "command cmd \<noteq> ''REIN''" by blast
  then show ?thesis
  proof cases
    case 1
    have d: "run_state (cmd_dispatch (ftp_table P) cmd) s = run_state (cmd_handle_pass P cmd) ?s"
      by (simp add: dispatch_standard standard_pass_rein 1 run)
    show ?thesis
    proof (cases "sess (snd (run_state (cmd_handle_pass P cmd) ?s)) = sess ?s")
      case True
      then show ?thesis using f by (simp add: d)
    next
      case False
      let ?pw = "if has_argument cmd then argument cmd else []"
      note p = pass_account [OF False]
      with False have "sess (snd (run_state (session_authenticate P ?pw) ?s)) \<noteq> sess ?s" by metis
      with authenticate_account [OF refl, of P ?pw ?s] obtain u where
        u: "auth_authenticate (auth s) (s_username (sess s)) ?pw" "auth_get_user (auth s) (s_username (sess s)) = Some u"
        "s_permissions (sess (snd (run_state (session_authenticate P ?pw) ?s))) = u_permissions u"
        "s_user_home_dir (sess (snd (run_state (session_authenticate P ?pw) ?s))) = strncpy_buf SESSION_MAX_PATH (u_home_dir u)"
        using f by auto
      have st: "s_state (sess s) = SESSION_STATE_WAIT_PASSWORD" using p f by simp
      show ?thesis
        unfolding Let_def d p [THEN conjunct2]
        by (intro disjI2 conjI exI [of _ u]) (use u 1 st in simp_all)
    qed
  next
    case 2
    have "run_state (cmd_dispatch (ftp_table P) cmd) s = run_state (cmd_handle_rein P cmd) ?s"
      by (simp add: dispatch_standard standard_pass_rein 2 run)
    with rein_account [of P cmd ?s] 2 f show ?thesis by (auto simp: Let_def)
  next
    case 3
    from dispatch_guarded [OF assms 3] show ?thesis by (simp add: guarded_def Let_def)
  qed
qed

lemma account_only_by_password_witness:
  "same_account (sess (snd (run_state (cmd_dispatch (ftp_table plain_posix)
     \<lparr>command = ''USER'', argument = ''root'', has_argument = True\<rparr>) (plain_sys plain_session)))) plain_session"
  using account_only_by_password [of "plain_sys plain_session" plain_posix "\<lparr>command = ''USER'', argument = ''root'', has_argument = True\<rparr>"]
    plain_session_inv
  by (simp add: plain_sys_def Let_def)

text \<open>
  USER does not log the session out. A USER command for an account that exists, given while
  another account is logged in, changes only the name and the login state: the session stays
  authenticated with the permissions and the home directory of the first account.
\<close>

theorem user_keeps_login:
  "sess (snd (run_state (cmd_handle_user P cmd) s)) =
     (if has_argument cmd \<and>
         (if argument cmd = ''anonymous'' then auth_is_anonymous_enabled (auth s) else auth_user_exists (auth s) (argument cmd))
      then (sess s)\<lparr>s_username := strncpy_buf SESSION_MAX_USERNAME (argument cmd), s_state := SESSION_STATE_WAIT_PASSWORD\<rparr>
      else sess s)"
  unfolding cmd_handle_user_def
  by (auto simp: Let_def run_send_response session_set_user_def smod_def)

end
