(* ===== verification/Data_Transfer.thy ===== *)
theory Data_Transfer
  imports Dispatch
begin

text \<open>
  \<open>server/src/transfer.c\<close>: what the transfer thread of a session does. While it runs, the control
  thread of the session goes on handling commands. What it does meanwhile is the argument \<open>env\<close> of
  the operations: \<open>env (2 * i)\<close> is run before the \<open>i\<close>-th turn of a loop looks at the abort flag,
  \<open>env (2 * i + 1)\<close> while the turn waits for the data connection. The loops that receive go on as
  long as the peer sends, so they have fuel; \<open>None\<close> is a transfer that is still running when the
  fuel is used up. The conversion of line endings is that of the POSIX build.
\<close>

section \<open>Sending a file\<close>

definition TRANSFER_BUFFER_SIZE :: nat where "TRANSFER_BUFFER_SIZE = 65536"

type_synonym 'w env = "nat \<Rightarrow> ('w, unit) sys_m"

text \<open>The result of a failed call on the data socket: an abort closes it.\<close>

definition failed_status :: "('w, transfer_status_t) sys_m" where
  "failed_status = do {
     aborted \<leftarrow> session_should_abort_transfer;
     ret (if aborted then TRANSFER_STATUS_ABORTED else TRANSFER_STATUS_CONN_ERROR) }"

text \<open>
  The loop of \<open>transfer_send_file\<close> and \<open>transfer_send_file_ascii\<close>; \<open>conv\<close> is the conversion of a
  chunk, the identity in binary. The result is the status and \<open>total_sent\<close>.
\<close>

function send_loop :: "'w posix \<Rightarrow> 'w env \<Rightarrow> (string \<Rightarrow> string option) \<Rightarrow> string \<Rightarrow> nat \<Rightarrow> int \<Rightarrow> int \<Rightarrow> nat \<Rightarrow>
    ('w, transfer_status_t \<times> nat) sys_m" where
  "send_loop P env conv filepath i current_offset remaining total_sent =
     (if \<not> remaining > 0 then ret (TRANSFER_STATUS_OK, total_sent)
      else do {
        env (2 * i);
        aborted \<leftarrow> session_should_abort_transfer;
        if aborted then ret (TRANSFER_STATUS_ABORTED, total_sent)
        else do {
          r \<leftarrow> fs_read_file_chunk P filepath current_offset (nat (min remaining (int TRANSFER_BUFFER_SIZE)));
          (case r of
             None \<Rightarrow> ret (TRANSFER_STATUS_IO_ERROR, total_sent)
           | Some bs \<Rightarrow>
               if length bs = 0 then ret (TRANSFER_STATUS_IO_ERROR, total_sent)
               else
                 (case conv bs of
                    None \<Rightarrow> ret (TRANSFER_STATUS_INTERNAL_ERROR, total_sent)
                  | Some out \<Rightarrow> do {
                      sock \<leftarrow> sget s_data_socket;
                      r \<leftarrow> net_send_all P sock out;
                      if r \<noteq> 0 then do {
                        env (2 * i + 1);
                        st \<leftarrow> failed_status;
                        ret (st, total_sent) }
                      else send_loop P env conv filepath (i + 1) (current_offset + int (length bs))
                             (remaining - int (length bs)) (total_sent + length out) })) } })"
  by pat_completeness auto
termination by (relation "measure (\<lambda>(P, env, conv, filepath, i, off, remaining, tot). nat remaining)") auto

declare send_loop.simps [simp del]

definition count_download :: "nat \<Rightarrow> ('w, unit) sys_m" where
  "count_download total_sent = smod (\<lambda>s. s\<lparr>s_bytes_downloaded := s_bytes_downloaded s + of_nat total_sent,
     s_files_downloaded := s_files_downloaded s + 1\<rparr>)"

definition transfer_send_file :: "'w posix \<Rightarrow> 'w env \<Rightarrow> string \<Rightarrow> int \<Rightarrow> ('w, transfer_status_t) sys_m" where
  "transfer_send_file P env filepath offset = do {
     d \<leftarrow> sget s_data_socket;
     if d = INVALID_SOCKET_T then ret TRANSFER_STATUS_CONN_ERROR
     else do {
       file_size \<leftarrow> fs_get_file_size P filepath;
       if file_size < 0 then ret TRANSFER_STATUS_IO_ERROR
       else if offset > file_size then ret TRANSFER_STATUS_IO_ERROR
       else do {
         ok \<leftarrow> os (px_malloc P);
         if \<not> ok then ret TRANSFER_STATUS_INTERNAL_ERROR
         else do {
           (st, total_sent) \<leftarrow> send_loop P env Some filepath 0 offset (file_size - offset) 0;
           (if st = TRANSFER_STATUS_OK then count_download total_sent else ret ());
           ret st } } } }"

definition transfer_send_file_ascii :: "'w posix \<Rightarrow> 'w env \<Rightarrow> string \<Rightarrow> int \<Rightarrow> ('w, transfer_status_t) sys_m" where
  "transfer_send_file_ascii P env filepath offset = do {
     d \<leftarrow> sget s_data_socket;
     if d = INVALID_SOCKET_T then ret TRANSFER_STATUS_CONN_ERROR
     else do {
       file_size \<leftarrow> fs_get_file_size P filepath;
       if file_size < 0 then ret TRANSFER_STATUS_IO_ERROR
       else if offset > file_size then ret TRANSFER_STATUS_IO_ERROR
       else do {
         ok1 \<leftarrow> os (px_malloc P);
         ok2 \<leftarrow> os (px_malloc P);
         if \<not> ok1 \<or> \<not> ok2 then ret TRANSFER_STATUS_INTERNAL_ERROR
         else do {
           (st, total_sent) \<leftarrow> send_loop P env (\<lambda>bs. lf_to_crlf bs (int TRANSFER_BUFFER_SIZE * 2))
              filepath 0 offset (file_size - offset) 0;
           (if st = TRANSFER_STATUS_OK then count_download total_sent else ret ());
           ret st } } } }"

section \<open>Receiving a file\<close>

text \<open>The loop of \<open>transfer_receive_file\<close> and \<open>transfer_receive_file_ascii\<close>. The result is the
  status with \<open>total_received\<close> and \<open>total_written\<close>, which are the same in binary.\<close>

fun receive_loop :: "'w posix \<Rightarrow> 'w env \<Rightarrow> (string \<Rightarrow> string option) \<Rightarrow> string \<Rightarrow> nat \<Rightarrow> nat \<Rightarrow> int \<Rightarrow> nat \<Rightarrow> nat \<Rightarrow>
    ('w, (transfer_status_t \<times> nat \<times> nat) option) sys_m" where
  "receive_loop P env conv filepath 0 i offset total_received total_written = ret None"
| "receive_loop P env conv filepath (Suc fuel) i offset total_received total_written = do {
     env (2 * i);
     aborted \<leftarrow> session_should_abort_transfer;
     if aborted then ret (Some (TRANSFER_STATUS_ABORTED, total_received, total_written))
     else do {
       sock \<leftarrow> sget s_data_socket;
       r \<leftarrow> net_receive P sock TRANSFER_BUFFER_SIZE;
       env (2 * i + 1);
       (case r of
          Inl err \<Rightarrow> do {
            st \<leftarrow> failed_status;
            ret (Some (st, total_received, total_written)) }
        | Inr bs \<Rightarrow>
            if length bs = 0 then do {
              aborted \<leftarrow> session_should_abort_transfer;
              ret (Some (if aborted then TRANSFER_STATUS_ABORTED else TRANSFER_STATUS_OK, total_received, total_written)) }
            else
              (case conv bs of
                 None \<Rightarrow> ret (Some (TRANSFER_STATUS_INTERNAL_ERROR, total_received + length bs, total_written))
               | Some data \<Rightarrow> do {
                   bytes_written \<leftarrow> fs_write_file_chunk P filepath data (offset + int total_written);
                   if bytes_written \<noteq> int (length data) then
                     ret (Some (TRANSFER_STATUS_IO_ERROR, total_received + length bs, total_written))
                   else receive_loop P env conv filepath fuel (i + 1) offset (total_received + length bs)
                          (total_written + length data) })) } }"

definition count_upload :: "nat \<Rightarrow> ('w, unit) sys_m" where
  "count_upload total_received = smod (\<lambda>s. s\<lparr>s_bytes_uploaded := s_bytes_uploaded s + of_nat total_received,
     s_files_uploaded := s_files_uploaded s + 1\<rparr>)"

definition transfer_receive_file ::
  "'w posix \<Rightarrow> 'w env \<Rightarrow> nat \<Rightarrow> string \<Rightarrow> int \<Rightarrow> ('w, transfer_status_t option) sys_m" where
  "transfer_receive_file P env fuel filepath offset = do {
     d \<leftarrow> sget s_data_socket;
     if d = INVALID_SOCKET_T then ret (Some TRANSFER_STATUS_CONN_ERROR)
     else do {
       ok \<leftarrow> os (px_malloc P);
       if \<not> ok then ret (Some TRANSFER_STATUS_INTERNAL_ERROR)
       else do {
         r \<leftarrow> receive_loop P env Some filepath fuel 0 offset 0 0;
         (case r of
            None \<Rightarrow> ret None
          | Some (st, total_received, _) \<Rightarrow> do {
              (if st = TRANSFER_STATUS_OK then count_upload total_received else ret ());
              ret (Some st) }) } } }"

definition transfer_receive_file_ascii ::
  "'w posix \<Rightarrow> 'w env \<Rightarrow> nat \<Rightarrow> string \<Rightarrow> int \<Rightarrow> ('w, transfer_status_t option) sys_m" where
  "transfer_receive_file_ascii P env fuel filepath offset = do {
     d \<leftarrow> sget s_data_socket;
     if d = INVALID_SOCKET_T then ret (Some TRANSFER_STATUS_CONN_ERROR)
     else do {
       ok1 \<leftarrow> os (px_malloc P);
       ok2 \<leftarrow> os (px_malloc P);
       if \<not> ok1 \<or> \<not> ok2 then ret (Some TRANSFER_STATUS_INTERNAL_ERROR)
       else do {
         r \<leftarrow> receive_loop P env (\<lambda>bs. crlf_to_lf bs (int TRANSFER_BUFFER_SIZE)) filepath fuel 0 offset 0 0;
         (case r of
            None \<Rightarrow> ret None
          | Some (st, total_received, _) \<Rightarrow> do {
              (if st = TRANSFER_STATUS_OK then count_upload total_received else ret ());
              ret (Some st) }) } } }"

section \<open>Directory listings\<close>

definition pad_left :: "nat \<Rightarrow> string \<Rightarrow> string" where
  "pad_left w s = replicate (w - length s) (CHR '' '') @ s"

definition pad_right :: "nat \<Rightarrow> string \<Rightarrow> string" where
  "pad_right w s = s @ replicate (w - length s) (CHR '' '')"

definition mode_bit :: "u32 \<Rightarrow> u32 \<Rightarrow> char \<Rightarrow> char" where
  "mode_bit mode b c = (if mode AND b \<noteq> 0 then c else CHR ''-'')"

definition permission_text :: "u32 \<Rightarrow> string" where
  "permission_text mode =
     [mode_bit mode 0x100 (CHR ''r''), mode_bit mode 0x80 (CHR ''w''), mode_bit mode 0x40 (CHR ''x''),
      mode_bit mode 0x20 (CHR ''r''), mode_bit mode 0x10 (CHR ''w''), mode_bit mode 0x8 (CHR ''x''),
      mode_bit mode 0x4 (CHR ''r''), mode_bit mode 0x2 (CHR ''w''), mode_bit mode 0x1 (CHR ''x'')]"

definition type_letter :: "fs_file_info_t \<Rightarrow> char" where
  "type_letter info =
     (if fi_type info = FS_TYPE_DIR then CHR ''d''
      else if fi_type info = FS_TYPE_SYMLINK then CHR ''l''
      else
        (let fmt = fi_mode info AND S_IFMT
         in if fmt = 0x2000 then CHR ''c''
            else if fmt = 0x6000 then CHR ''b''
            else if fmt = 0x1000 then CHR ''p''
            else if fmt = 0xC000 then CHR ''s''
            else CHR ''-''))"

text \<open>The line for one entry, \<open>None\<close> when it does not fit the buffer.\<close>

definition format_list_line :: "'w posix \<Rightarrow> fs_file_info_t \<Rightarrow> nat \<Rightarrow> ('w, string option) sys_m" where
  "format_list_line P info buffer_size =
     (if buffer_size = 0 then ret None
      else do {
        pw \<leftarrow> os (px_getpwuid P (fi_uid info));
        gr \<leftarrow> os (px_getgrgid P (fi_gid info));
        (let user_name = snprintf_buf 32 (case pw of Some n \<Rightarrow> n | None \<Rightarrow> dec (unat (fi_uid info)));
             group_name = snprintf_buf 32 (case gr of Some n \<Rightarrow> n | None \<Rightarrow> dec (unat (fi_gid info)));
             date_str = take 31 (px_strftime P False ''%b %d %H:%M'' (fi_last_modified info));
             line = type_letter info # permission_text (fi_mode info) @ '' '' @ pad_left 3 (dec (unat (fi_nlink info))) @ '' '' @
               pad_right 8 user_name @ '' '' @ pad_right 8 group_name @ '' '' @ pad_left 12 (dec_int (fi_size info)) @ '' '' @
               date_str @ '' '' @ fi_name info @
               (if fi_type info = FS_TYPE_SYMLINK \<and> fi_link_target info \<noteq> [] then '' -> '' @ fi_link_target info else []) @
               [CR, LF]
         in ret (if length line < buffer_size then Some line else None)) })"

definition MAX_DIR_ENTRIES :: nat where "MAX_DIR_ENTRIES = 1024"

text \<open>The loop of \<open>send_listing\<close>; the result is the status and \<open>entries_sent\<close>. \<open>i\<close> counts the
  turns, for \<open>env\<close>.\<close>

fun listing_loop :: "'w posix \<Rightarrow> 'w env \<Rightarrow> string option \<Rightarrow> nat \<Rightarrow> fs_file_info_t list \<Rightarrow> nat \<Rightarrow>
    ('w, transfer_status_t \<times> nat) sys_m" where
  "listing_loop P env filter_name i [] entries_sent = ret (TRANSFER_STATUS_OK, entries_sent)"
| "listing_loop P env filter_name i (info # infos) entries_sent = do {
     env (2 * i);
     aborted \<leftarrow> session_should_abort_transfer;
     if aborted then ret (TRANSFER_STATUS_ABORTED, entries_sent)
     else if filter_name \<noteq> None \<and> filter_name \<noteq> Some (fi_name info) then
       listing_loop P env filter_name (i + 1) infos entries_sent
     else do {
       line \<leftarrow> format_list_line P info 1024;
       (case line of
          None \<Rightarrow> ret (TRANSFER_STATUS_INTERNAL_ERROR, entries_sent)
        | Some line_buffer \<Rightarrow> do {
            sock \<leftarrow> sget s_data_socket;
            r \<leftarrow> net_send_all P sock line_buffer;
            if r \<noteq> 0 then do {
              env (2 * i + 1);
              st \<leftarrow> failed_status;
              ret (st, entries_sent) }
            else if filter_name \<noteq> None then ret (TRANSFER_STATUS_OK, entries_sent + 1)
            else listing_loop P env filter_name (i + 1) infos (entries_sent + 1) }) } }"

definition send_listing :: "'w posix \<Rightarrow> 'w env \<Rightarrow> string \<Rightarrow> string option \<Rightarrow> ('w, transfer_status_t) sys_m" where
  "send_listing P env dirpath filter_name = do {
     ok \<leftarrow> os (px_malloc P);
     if \<not> ok then ret TRANSFER_STATUS_INTERNAL_ERROR
     else do {
       files \<leftarrow> fs_list_directory P dirpath MAX_DIR_ENTRIES;
       (case files of
          None \<Rightarrow> ret TRANSFER_STATUS_IO_ERROR
        | Some file_list \<Rightarrow> do {
            (st, entries_sent) \<leftarrow> listing_loop P env filter_name 0 file_list 0;
            ret (if st = TRANSFER_STATUS_OK \<and> filter_name \<noteq> None \<and> entries_sent = 0
                 then TRANSFER_STATUS_IO_ERROR else st) }) } }"

definition transfer_send_list :: "'w posix \<Rightarrow> 'w env \<Rightarrow> string \<Rightarrow> ('w, transfer_status_t) sys_m" where
  "transfer_send_list P env path = do {
     d \<leftarrow> sget s_data_socket;
     if d = INVALID_SOCKET_T then ret TRANSFER_STATUS_CONN_ERROR
     else do {
       isdir \<leftarrow> fs_is_directory P path;
       if isdir then send_listing P env path None
       else do {
         exists \<leftarrow> fs_path_exists P path;
         if \<not> exists then ret TRANSFER_STATUS_IO_ERROR
         else
           (let name_part = fs_extract_filename path
            in if name_part = [] then ret TRANSFER_STATUS_INTERNAL_ERROR
               else
                 (case fs_get_parent_directory path SESSION_MAX_PATH of
                    None \<Rightarrow> ret TRANSFER_STATUS_INTERNAL_ERROR
                  | Some parent_dir \<Rightarrow>
                      send_listing P env parent_dir (Some (strncpy_buf SESSION_MAX_PATH name_part)))) } } }"

fun nlst_loop :: "'w posix \<Rightarrow> 'w env \<Rightarrow> nat \<Rightarrow> fs_file_info_t list \<Rightarrow> ('w, transfer_status_t) sys_m" where
  "nlst_loop P env i [] = ret TRANSFER_STATUS_OK"
| "nlst_loop P env i (info # infos) = do {
     env (2 * i);
     aborted \<leftarrow> session_should_abort_transfer;
     if aborted then ret TRANSFER_STATUS_ABORTED
     else do {
       sock \<leftarrow> sget s_data_socket;
       r \<leftarrow> net_send_all P sock (snprintf_buf 512 (fi_name info @ [CR, LF]));
       if r \<noteq> 0 then do {
         env (2 * i + 1);
         failed_status }
       else nlst_loop P env (i + 1) infos } }"

definition transfer_send_nlst :: "'w posix \<Rightarrow> 'w env \<Rightarrow> string \<Rightarrow> ('w, transfer_status_t) sys_m" where
  "transfer_send_nlst P env dirpath = do {
     files \<leftarrow> fs_list_directory P dirpath 1024;
     (case files of
        None \<Rightarrow> ret TRANSFER_STATUS_IO_ERROR
      | Some file_list \<Rightarrow> nlst_loop P env 0 file_list) }"

section \<open>The transfer thread\<close>

definition run_transfer :: "'w posix \<Rightarrow> 'w env \<Rightarrow> nat \<Rightarrow> transfer_params_t \<Rightarrow> ('w, transfer_status_t option) sys_m" where
  "run_transfer P env fuel params =
     (case tp_operation params of
        TRANSFER_OP_SEND_FILE \<Rightarrow>
          (if tp_type params = PROTO_TYPE_ASCII
           then do { st \<leftarrow> transfer_send_file_ascii P env (tp_filepath params) (tp_offset params); ret (Some st) }
           else do { st \<leftarrow> transfer_send_file P env (tp_filepath params) (tp_offset params); ret (Some st) })
      | TRANSFER_OP_RECV_FILE \<Rightarrow>
          (if tp_type params = PROTO_TYPE_ASCII
           then transfer_receive_file_ascii P env fuel (tp_filepath params) (tp_offset params)
           else transfer_receive_file P env fuel (tp_filepath params) (tp_offset params))
      | TRANSFER_OP_SEND_LIST \<Rightarrow> do { st \<leftarrow> transfer_send_list P env (tp_filepath params); ret (Some st) }
      | TRANSFER_OP_SEND_NLST \<Rightarrow> do { st \<leftarrow> transfer_send_nlst P env (tp_filepath params); ret (Some st) })"

definition send_completion :: "'w posix \<Rightarrow> transfer_status_t \<Rightarrow> ('w, unit) sys_m" where
  "send_completion P result =
     (case result of
        TRANSFER_STATUS_OK \<Rightarrow> do {
          session_send_response P PROTO_RESP_CLOSING_DATA ''Transfer complete''; ret () }
      | TRANSFER_STATUS_ABORTED \<Rightarrow> do {
          session_send_response P PROTO_RESP_CLOSING_DATA ''ABOR command successful'';
          session_clear_transfer_should_abort }
      | TRANSFER_STATUS_CONN_ERROR \<Rightarrow> do {
          quit \<leftarrow> sget s_should_quit;
          if \<not> quit then do {
            session_send_response P PROTO_RESP_CONN_CLOSED ''Data connection closed; transfer aborted''; ret () }
          else ret () }
      | TRANSFER_STATUS_IO_ERROR \<Rightarrow> do {
          session_send_response P PROTO_RESP_LOCAL_ERROR ''Failed to read/write file''; ret () }
      | TRANSFER_STATUS_INTERNAL_ERROR \<Rightarrow> do {
          session_send_response P PROTO_RESP_LOCAL_ERROR ''Internal server error during transfer''; ret () })"

definition release_transfer_lock :: "transfer_params_t \<Rightarrow> ('w, unit) sys_m" where
  "release_transfer_lock params =
     (if tp_lock_acquired params then
        (if tp_operation params = TRANSFER_OP_RECV_FILE then unlock_exclusive (tp_filepath params)
         else if tp_operation params = TRANSFER_OP_SEND_FILE then unlock_shared (tp_filepath params)
         else ret ())
      else ret ())"

text \<open>
  What the thread does after the transfer. Its result is \<open>True\<close>: the thread has ended.
\<close>

definition finish_transfer :: "'w posix \<Rightarrow> transfer_params_t \<Rightarrow> transfer_status_t \<Rightarrow> ('w, bool) sys_m" where
  "finish_transfer P params result = do {
     session_close_data_connection P;
     send_completion P result;
     smod (\<lambda>s. s\<lparr>s_transfer_result := result\<rparr>);
     session_clear_transfer_in_progress;
     release_transfer_lock params;
     smod (\<lambda>s. s\<lparr>s_transfer_params := None\<rparr>);
     (if result = TRANSFER_STATUS_ABORTED then session_set_transfer_thread_state TRANSFER_THREAD_ABORTED
      else session_set_transfer_thread_state TRANSFER_THREAD_COMPLETING);
     session_set_transfer_thread_state TRANSFER_THREAD_IDLE;
     ret True }"

text \<open>
  The thread reads the parameters once; without parameters the code follows a null pointer, which
  the ghost flag records.
\<close>

definition transfer_thread_func :: "'w posix \<Rightarrow> 'w env \<Rightarrow> nat \<Rightarrow> ('w, bool) sys_m" where
  "transfer_thread_func P env fuel = do {
     session_set_transfer_thread_state TRANSFER_THREAD_RUNNING;
     session_set_transfer_in_progress;
     p \<leftarrow> sget s_transfer_params;
     (case p of
        None \<Rightarrow> do { give_up; ret False }
      | Some params \<Rightarrow> do {
          r \<leftarrow> run_transfer P env fuel params;
          (case r of
             None \<Rightarrow> ret False
           | Some result \<Rightarrow> finish_transfer P params result) }) }"

end
