(* ===== verification/Transfer_Correct.thy ===== *)
theory Transfer_Correct
  imports Data_Transfer
begin

text \<open>
  What a transfer moves, read off the trace: which bytes at which positions of files are read and
  written, and which bytes pass over the data connection. The statements need no assumption on the
  operating system: they relate what the calls took and returned.
\<close>

section \<open>Reading the trace\<close>

text \<open>Bytes with their positions, from a first position on.\<close>

definition at :: "int \<Rightarrow> string \<Rightarrow> (int \<times> char) list" where
  "at pos bs = zip (map (\<lambda>i. pos + int i) [0..<length bs]) bs"

lemma at_Nil [simp]: "at pos [] = []"
  by (simp add: at_def)

lemma at_append [simp]: "at pos (a @ b) = at pos a @ at (pos + int (length a)) b"
proof -
  have "map (\<lambda>i. pos + int i) [length a..<length a + length b] =
      map (\<lambda>i. pos + int (length a) + int i) [0..<length b]"
    by (rule nth_equalityI) auto
  then have "map (\<lambda>i. pos + int i) [0..<length (a @ b)] =
      map (\<lambda>i. pos + int i) [0..<length a] @ map (\<lambda>i. pos + int (length a) + int i) [0..<length b]"
    by (simp only: length_append upt_add_eq_append [OF le0] add_0 map_append)
  then show ?thesis unfolding at_def by (simp only: zip_append length_map length_upt minus_nat.diff_0)
qed

lemma map_snd_at [simp]: "map snd (at pos bs) = bs"
  by (simp add: at_def)

text \<open>\<open>pos\<close> is the position that the last seek and the calls since then have left.\<close>

fun reads_at :: "int \<Rightarrow> os_event list \<Rightarrow> (int \<times> char) list" where
  "reads_at pos [] = []"
| "reads_at pos (Ev_seek fd off # tr) = reads_at off tr"
| "reads_at pos (Ev_read fd bs # tr) = at pos bs @ reads_at (pos + int (length bs)) tr"
| "reads_at pos (e # tr) = reads_at pos tr"

fun writes_at :: "int \<Rightarrow> os_event list \<Rightarrow> (int \<times> char) list" where
  "writes_at pos [] = []"
| "writes_at pos (Ev_seek fd off # tr) = writes_at off tr"
| "writes_at pos (Ev_write fd bs # tr) = at pos bs @ writes_at (pos + int (length bs)) tr"
| "writes_at pos (e # tr) = writes_at pos tr"

lemma reads_at_append: "(\<And>p. reads_at p b = X) \<Longrightarrow> reads_at pos (a @ b) = reads_at pos a @ X"
  by (induction pos a rule: reads_at.induct) simp_all

lemma writes_at_append: "(\<And>p. writes_at p b = X) \<Longrightarrow> writes_at pos (a @ b) = writes_at pos a @ X"
  by (induction pos a rule: writes_at.induct) simp_all

text \<open>Events that move no data of the transfer on data connection \<open>d\<close>.\<close>

fun data_event :: "int \<Rightarrow> os_event \<Rightarrow> bool" where
  "data_event d (Ev_send fd bs) = (fd = d)"
| "data_event d (Ev_recv fd bs) = (fd = d)"
| "data_event d (Ev_read fd bs) = True"
| "data_event d (Ev_write fd bs) = True"
| "data_event d (Ev_seek fd off) = True"
| "data_event d e = False"

lemma no_data:
  assumes "\<forall>e \<in> set tr. \<not> data_event d e"
  shows "sent d tr = []" "received d tr = []" "reads_at pos tr = []" "writes_at pos tr = []"
proof -
  have "sent d tr = [] \<and> received d tr = [] \<and> reads_at pos tr = [] \<and> writes_at pos tr = []"
    using assms
  proof (induction tr)
    case (Cons e tr)
    then show ?case by (cases e) auto
  qed simp
  then show "sent d tr = []" "received d tr = []" "reads_at pos tr = []" "writes_at pos tr = []" by simp_all
qed

lemma only_sends:
  assumes "set tr \<subseteq> range (Ev_send d)"
  shows "received d tr = []" "reads_at pos tr = []" "writes_at pos tr = []"
  using assms by (induction tr arbitrary: pos) auto

lemma only_reads:
  assumes "set tr \<subseteq> range (Ev_read fd)"
  shows "sent d tr = []" "received d tr = []" "reads_at pos tr = at pos (map snd (reads_at 0 tr))"
proof -
  have "sent d tr = [] \<and> received d tr = [] \<and>
      reads_at pos tr = at pos (map snd (reads_at 0 tr))" if "set tr \<subseteq> range (Ev_read fd)" for pos tr
    using that
  proof (induction tr arbitrary: pos)
    case (Cons e tr)
    then obtain bs where e: "e = Ev_read fd bs" by auto
    have "map snd (reads_at (int (length bs)) tr) = map snd (reads_at 0 tr)"
      using Cons.IH [of "int (length bs)"] Cons.prems by (metis list.set_intros(2) map_snd_at subset_iff)
    then show ?case using Cons.IH [of "pos + int (length bs)"] Cons.prems by (simp add: e)
  qed simp
  note this [OF assms]
  then show "sent d tr = []" "received d tr = []" "reads_at pos tr = at pos (map snd (reads_at 0 tr))" by blast+
qed

lemma only_writes:
  assumes "set tr \<subseteq> range (Ev_write fd)"
  shows "sent d tr = []" "received d tr = []" "writes_at pos tr = at pos (map snd (writes_at 0 tr))"
proof -
  have "sent d tr = [] \<and> received d tr = [] \<and>
      writes_at pos tr = at pos (map snd (writes_at 0 tr))" if "set tr \<subseteq> range (Ev_write fd)" for pos tr
    using that
  proof (induction tr arbitrary: pos)
    case (Cons e tr)
    then obtain bs where e: "e = Ev_write fd bs" by auto
    have "map snd (writes_at (int (length bs)) tr) = map snd (writes_at 0 tr)"
      using Cons.IH [of "int (length bs)"] Cons.prems by (metis list.set_intros(2) map_snd_at subset_iff)
    then show ?case using Cons.IH [of "pos + int (length bs)"] Cons.prems by (simp add: e)
  qed simp
  note this [OF assms]
  then show "sent d tr = []" "received d tr = []" "writes_at pos tr = at pos (map snd (writes_at 0 tr))" by blast+
qed

section \<open>Chunks of files\<close>

text \<open>The bytes that a trace reads, and writes.\<close>

abbreviation read_bytes :: "os_event list \<Rightarrow> string" where
  "read_bytes tr \<equiv> map snd (reads_at 0 tr)"

abbreviation written_bytes :: "os_event list \<Rightarrow> string" where
  "written_bytes tr \<equiv> map snd (writes_at 0 tr)"

lemma run_sys_read:
  obtains e where "run_state (sys_read P fd n) s = (Inl e, s\<lparr>world := snd (run_state (px_read P fd n) (world s))\<rparr>)"
  | bs where "length bs \<le> n" "run_state (sys_read P fd n) s =
      (Inr bs, s\<lparr>world := snd (run_state (px_read P fd n) (world s)), trace := trace s @ [Ev_read fd bs]\<rparr>)"
proof (cases "fst (run_state (px_read P fd n) (world s))")
  case (Inl e)
  then show ?thesis by (intro that(1) [of e]) (auto simp: sys_read_def os_def split: prod.splits)
next
  case (Inr bs)
  then show ?thesis
    by (intro that(2) [of "take n bs"]) (auto simp: sys_read_def os_def emit_def split: prod.splits)
qed

lemma run_sys_write:
  obtains e where "run_state (sys_write P fd bs) s = (Inl e, s\<lparr>world := snd (run_state (px_write P fd bs) (world s))\<rparr>)"
  | n where "n \<le> length bs" "run_state (sys_write P fd bs) s =
      (Inr n, s\<lparr>world := snd (run_state (px_write P fd bs) (world s)), trace := trace s @ [Ev_write fd (take n bs)]\<rparr>)"
proof (cases "fst (run_state (px_write P fd bs) (world s))")
  case (Inl e)
  then show ?thesis by (intro that(1) [of e]) (auto simp: sys_write_def os_def split: prod.splits)
next
  case (Inr n)
  then show ?thesis
    by (intro that(2) [of "min n (length bs)"]) (auto simp: sys_write_def os_def emit_def min_def split: prod.splits)
qed

lemma read_loop_run:
  "\<exists>tr. trace (snd (run_state (read_loop P fd k want out) s)) = trace s @ tr \<and> set tr \<subseteq> range (Ev_read fd) \<and>
     (case fst (run_state (read_loop P fd k want out) s) of None \<Rightarrow> True
      | Some data \<Rightarrow> (\<exists>new. data = out @ new \<and> length new \<le> want \<and> (\<forall>p. reads_at p tr = at p new)))"
proof (induction P fd k want out arbitrary: s rule: read_loop.induct)
  case (1 P fd k want out)
  show ?case
  proof (cases "want = 0")
    case True
    then show ?thesis by (subst (1 2) read_loop.simps) simp
  next
    case False
    show ?thesis
    proof (cases rule: run_sys_read [of P fd want s])
      case (1 e)
      let ?s = "s\<lparr>world := snd (run_state (px_read P fd want) (world s))\<rparr>"
      show ?thesis
      proof (cases "e = EINTR \<and> k \<noteq> 0")
        case True
        then have "run_state (read_loop P fd k want out) s = run_state (read_loop P fd (k - 1) want out) ?s"
          using False 1 by (subst read_loop.simps) simp
        with "1.IH"(1) [OF False refl, of e ?s] True show ?thesis by simp
      next
        case no: False
        then show ?thesis using False 1 by (subst (1 2) read_loop.simps) (auto simp: give_up_def)
      qed
    next
      case (2 bs)
      let ?s = "s\<lparr>world := snd (run_state (px_read P fd want) (world s)), trace := trace s @ [Ev_read fd bs]\<rparr>"
      show ?thesis
      proof (cases "bs = []")
        case True
        with False 2 show ?thesis
          by (subst (1 2) read_loop.simps) (auto intro!: exI [of _ "[Ev_read fd []]"])
      next
        case bs: False
        then have run: "run_state (read_loop P fd k want out) s =
            run_state (read_loop P fd k (want - length bs) (out @ bs)) ?s"
          using False 2 by (subst read_loop.simps) simp
        obtain tr where tr: "trace (snd (run_state (read_loop P fd k (want - length bs) (out @ bs)) ?s)) = trace ?s @ tr"
          "set tr \<subseteq> range (Ev_read fd)"
          "case fst (run_state (read_loop P fd k (want - length bs) (out @ bs)) ?s) of None \<Rightarrow> True
           | Some data \<Rightarrow> (\<exists>new. data = (out @ bs) @ new \<and> length new \<le> want - length bs \<and> (\<forall>p. reads_at p tr = at p new))"
          using "1.IH"(2) [OF False refl, of bs ?s] bs by auto
        have "case fst (run_state (read_loop P fd k want out) s) of None \<Rightarrow> True
           | Some data \<Rightarrow> (\<exists>new. data = out @ new \<and> length new \<le> want \<and> (\<forall>p. reads_at p (Ev_read fd bs # tr) = at p new))"
        proof (cases "fst (run_state (read_loop P fd k want out) s)")
          case (Some data)
          with tr(3) run obtain new where "data = (out @ bs) @ new" "length new \<le> want - length bs" "\<forall>p. reads_at p tr = at p new"
            by auto
          with 2(1) show ?thesis by (auto simp: Some intro!: exI [of _ "bs @ new"])
        qed simp
        with tr(1,2) run show ?thesis by (intro exI [of _ "Ev_read fd bs # tr"]) auto
      qed
    qed
  qed
qed

lemma write_loop_run:
  "\<exists>tr n. trace (snd (run_state (write_loop P fd k todo) s)) = trace s @ tr \<and> set tr \<subseteq> range (Ev_write fd) \<and>
     (\<forall>p. writes_at p tr = at p (take n todo)) \<and>
     (fst (run_state (write_loop P fd k todo) s) \<longrightarrow> n = length todo)"
proof (induction P fd k todo arbitrary: s rule: write_loop.induct)
  case (1 P fd k todo)
  show ?case
  proof (cases "todo = []")
    case True
    then show ?thesis by (subst (1 2) write_loop.simps) simp
  next
    case False
    show ?thesis
    proof (cases rule: run_sys_write [of P fd todo s])
      case (1 e)
      let ?s = "s\<lparr>world := snd (run_state (px_write P fd todo) (world s))\<rparr>"
      show ?thesis
      proof (cases "e = EINTR \<and> k \<noteq> 0")
        case True
        then have "run_state (write_loop P fd k todo) s = run_state (write_loop P fd (k - 1) todo) ?s"
          using False 1 by (subst write_loop.simps) simp
        with "1.IH"(1) [OF False refl, of e ?s] True show ?thesis by simp
      next
        case no: False
        then show ?thesis using False 1
          by (subst (1 2) write_loop.simps) (auto simp: give_up_def intro!: exI [of _ "0::nat"])
      qed
    next
      case (2 n)
      let ?s = "s\<lparr>world := snd (run_state (px_write P fd todo) (world s)), trace := trace s @ [Ev_write fd (take n todo)]\<rparr>"
      let ?m = "if n = 0 then write_loop P fd (k - 1) todo else write_loop P fd k (drop n todo)"
      show ?thesis
      proof (cases "n = 0 \<and> k = 0")
        case True
        with False 2 show ?thesis
          by (subst (1 2) write_loop.simps)
            (auto simp: give_up_def intro!: exI [of _ "0::nat"] exI [of _ "[Ev_write fd []]"])
      next
        case go: False
        then have run: "run_state (write_loop P fd k todo) s = run_state ?m ?s"
          using False 2 by (subst write_loop.simps) auto
        obtain tr m where tr: "trace (snd (run_state ?m ?s)) = trace ?s @ tr" "set tr \<subseteq> range (Ev_write fd)"
          "\<forall>p. writes_at p tr = at p (take m (drop n todo))" "fst (run_state ?m ?s) \<longrightarrow> m = length todo - n"
        proof (cases "n = 0")
          case True
          with go "1.IH"(2) [OF False refl, of n ?s] that show ?thesis by auto
        next
          case n: False
          with "1.IH"(3) [OF False refl, of n ?s] that show ?thesis by auto
        qed
        have "take (n + m) todo = take n todo @ take m (drop n todo)" by (simp add: take_add)
        with run tr 2(1) show ?thesis
          by (intro exI [of _ "Ev_write fd (take n todo) # tr"] exI [of _ "n + m"]) auto
      qed
    qed
  qed
qed

lemma run_calls:
  "run_state (sys_open P path k) s = (fst (run_state (px_open P path k) (world s)),
     s\<lparr>world := snd (run_state (px_open P path k) (world s)), trace := trace s @ [Ev_path (Op_open k) path]\<rparr>)"
  "run_state (sys_lseek P fd off) s = (fst (run_state (px_lseek P fd off) (world s)),
     s\<lparr>world := snd (run_state (px_lseek P fd off) (world s)), trace := trace s @ [Ev_seek fd off]\<rparr>)"
  "run_state (sys_close P fd) s = ((),
     s\<lparr>world := snd (run_state (px_close P fd) (world s)), trace := trace s @ [Ev_close fd]\<rparr>)"
  by (simp_all add: sys_defs emit_def run_os)

lemma read_chunk_run:
  "\<exists>tr data. trace (snd (run_state (fs_read_file_chunk P path off len) s)) = trace s @ tr \<and>
     sent d tr = [] \<and> received d tr = [] \<and> (\<forall>p. reads_at p tr = at off data) \<and>
     (case fst (run_state (fs_read_file_chunk P path off len) s) of None \<Rightarrow> True
      | Some bs \<Rightarrow> bs = data \<and> length bs \<le> len)" (is "\<exists>tr data. ?Q tr data")
proof (cases "off < 0 \<or> len = 0")
  case True
  then have "?Q [] []" by (auto simp: fs_read_file_chunk_def)
  then show ?thesis by blast
next
  case False
  define fd where "fd = fst (run_state (px_open P path O_read) (world s))"
  let ?s1 = "snd (run_state (sys_open P path O_read) s)"
  let ?s2 = "snd (run_state (sys_lseek P fd off) ?s1)"
  show ?thesis
  proof (cases "fd < 0")
    case True
    with False have "?Q [Ev_path (Op_open O_read) path] []" by (simp add: fs_read_file_chunk_def run_calls fd_def)
    then show ?thesis by blast
  next
    case fd: False
    show ?thesis
    proof (cases "fst (run_state (sys_lseek P fd off) ?s1)")
      case no: False
      with False fd have "?Q [Ev_path (Op_open O_read) path, Ev_seek fd off, Ev_close fd] []"
        by (auto simp: fs_read_file_chunk_def run_calls fd_def)
      then show ?thesis by blast
    next
      case True
      let ?R = "run_state (read_loop P fd (px_patience P) len []) ?s2"
      have run: "fst (run_state (fs_read_file_chunk P path off len) s) = fst ?R"
        "trace (snd (run_state (fs_read_file_chunk P path off len) s)) = trace (snd ?R) @ [Ev_close fd]"
        using False fd True by (auto simp: fs_read_file_chunk_def run_calls fd_def case_prod_beta)
      from read_loop_run [of P fd "px_patience P" len "[]" ?s2] obtain tr where
        tr: "trace (snd ?R) = trace ?s2 @ tr" "set tr \<subseteq> range (Ev_read fd)"
        "case fst ?R of None \<Rightarrow> True | Some data \<Rightarrow> (\<exists>new. data = [] @ new \<and> length new \<le> len \<and> (\<forall>p. reads_at p tr = at p new))"
        by blast
      let ?data = "read_bytes tr" and ?tr = "Ev_path (Op_open O_read) path # Ev_seek fd off # tr @ [Ev_close fd]"
      have "reads_at off (tr @ [Ev_close fd]) = at off ?data"
        using reads_at_append [of "[Ev_close fd]" "[]" off tr] only_reads(3) [OF tr(2), of off] by simp
      then have "\<forall>p. reads_at p ?tr = at off ?data" by simp
      moreover have "sent d ?tr = []" "received d ?tr = []"
        using only_reads(1,2) [OF tr(2), of d] by simp_all
      moreover have "case fst ?R of None \<Rightarrow> True | Some bs \<Rightarrow> bs = ?data \<and> length bs \<le> len"
        using tr(3) by (auto split: option.splits)
      moreover have "trace (snd (run_state (fs_read_file_chunk P path off len) s)) = trace s @ ?tr"
        using run(2) tr(1) by (simp add: run_calls)
      ultimately show ?thesis unfolding run(1) by blast
    qed
  qed
qed

lemma write_chunk_run:
  "\<exists>tr n. trace (snd (run_state (fs_write_file_chunk P path buf off) s)) = trace s @ tr \<and>
     sent d tr = [] \<and> received d tr = [] \<and> (\<forall>p. writes_at p tr = at off (take n buf)) \<and>
     (fst (run_state (fs_write_file_chunk P path buf off) s) = int (length buf) \<longrightarrow> n = length buf)"
     (is "\<exists>tr n. ?Q tr n")
proof (cases "off < 0")
  case True
  then have "?Q [] 0" by (auto simp: fs_write_file_chunk_def)
  then show ?thesis by blast
next
  case False
  define fd where "fd = fst (run_state (px_open P path O_write_create) (world s))"
  let ?s1 = "snd (run_state (sys_open P path O_write_create) s)"
  let ?s2 = "snd (run_state (sys_lseek P fd off) ?s1)"
  show ?thesis
  proof (cases "fd < 0")
    case True
    with False have "?Q [Ev_path (Op_open O_write_create) path] 0" by (simp add: fs_write_file_chunk_def run_calls fd_def)
    then show ?thesis by blast
  next
    case fd: False
    show ?thesis
    proof (cases "fst (run_state (sys_lseek P fd off) ?s1)")
      case no: False
      with False fd have "?Q [Ev_path (Op_open O_write_create) path, Ev_seek fd off, Ev_close fd] 0"
        by (auto simp: fs_write_file_chunk_def run_calls fd_def)
      then show ?thesis by blast
    next
      case True
      let ?R = "run_state (write_loop P fd (px_patience P) buf) ?s2"
      have run: "fst (run_state (fs_write_file_chunk P path buf off) s) = (if fst ?R then int (length buf) else -1)"
        "trace (snd (run_state (fs_write_file_chunk P path buf off) s)) = trace (snd ?R) @ [Ev_close fd]"
        using False fd True by (auto simp: fs_write_file_chunk_def run_calls run_os fd_def case_prod_beta)
      from write_loop_run [of P fd "px_patience P" buf ?s2] obtain tr n where
        tr: "trace (snd ?R) = trace ?s2 @ tr" "set tr \<subseteq> range (Ev_write fd)"
        "\<forall>p. writes_at p tr = at p (take n buf)" "fst ?R \<longrightarrow> n = length buf"
        by blast
      let ?tr = "Ev_path (Op_open O_write_create) path # Ev_seek fd off # tr @ [Ev_close fd]"
      have "\<forall>p. writes_at p ?tr = at off (take n buf)"
        using writes_at_append [of "[Ev_close fd]" "[]" off tr] tr(3) by simp
      moreover have "sent d ?tr = []" "received d ?tr = []"
        using only_writes(1,2) [OF tr(2), of d] by simp_all
      moreover have "trace (snd (run_state (fs_write_file_chunk P path buf off) s)) = trace s @ ?tr"
        using run(2) tr(1) by (simp add: run_calls)
      moreover have "fst (run_state (fs_write_file_chunk P path buf off) s) = int (length buf) \<longrightarrow> n = length buf"
        using run(1) tr(4) by auto
      ultimately show ?thesis by blast
    qed
  qed
qed

section \<open>What a download sends\<close>

text \<open>
  The control thread in the background: it neither replaces the data socket nor moves data on it or
  on files.
\<close>

definition background :: "int \<Rightarrow> 'w env \<Rightarrow> bool" where
  "background d env \<longleftrightarrow> (\<forall>i s. s_data_socket (sess s) = d \<longrightarrow>
     s_data_socket (sess (snd (run_state (env i) s))) = d \<and>
     (\<exists>tr. trace (snd (run_state (env i) s)) = trace s @ tr \<and> (\<forall>e \<in> set tr. \<not> data_event d e)))"

lemma background_step:
  assumes "background d env" "s_data_socket (sess s) = d"
  obtains tr where "s_data_socket (sess (snd (run_state (env i) s))) = d"
    "trace (snd (run_state (env i) s)) = trace s @ tr" "sent d tr = []" "received d tr = []"
    "\<forall>p. reads_at p tr = []" "\<forall>p. writes_at p tr = []"
  using assms no_data unfolding background_def by metis

text \<open>
  \<open>delivered\<close>: the trace reads, at consecutive positions from \<open>off\<close> on, data whose conversion by \<open>f\<close>
  is what is sent, all of it and \<open>remaining\<close> bytes when the status is OK, else a prefix.
\<close>

definition delivered :: "int \<Rightarrow> (string \<Rightarrow> string) \<Rightarrow> int \<Rightarrow> int \<Rightarrow> os_event list \<Rightarrow> transfer_status_t \<Rightarrow> bool" where
  "delivered d f off remaining tr st \<longleftrightarrow> (\<exists>data n. (\<forall>p. reads_at p tr = at off data) \<and> sent d tr = take n (f data) \<and>
     (if st = TRANSFER_STATUS_OK then n = length (f data) \<and> int (length data) = remaining else True))"

lemma delivered_failed:
  "\<forall>p. reads_at p tr = at off data \<Longrightarrow> sent d tr = take n (f data) \<Longrightarrow> st \<noteq> TRANSFER_STATUS_OK \<Longrightarrow>
   delivered d f off remaining tr st"
  by (auto simp: delivered_def)

lemma delivered_append:
  assumes "\<forall>p. reads_at p a = at off bs" "sent d a = f bs" "\<And>x y. f (x @ y) = f x @ f y"
    and b: "delivered d f (off + int (length bs)) (remaining - int (length bs)) b st"
  shows "delivered d f off remaining (a @ b) st"
proof -
  from b obtain data n where d: "\<forall>p. reads_at p b = at (off + int (length bs)) data" "sent d b = take n (f data)"
    "if st = TRANSFER_STATUS_OK then n = length (f data) \<and> int (length data) = remaining - int (length bs) else True"
    by (auto simp: delivered_def)
  have "\<forall>p. reads_at p (a @ b) = at off (bs @ data)" using assms(1) d(1) by (simp add: reads_at_append)
  moreover have "sent d (a @ b) = take (length (f bs) + n) (f (bs @ data))" using assms(2,3) d(2) by simp
  ultimately show ?thesis
    unfolding delivered_def using d(3) assms(3)
    by (intro exI [of _ "bs @ data"] exI [of _ "length (f bs) + n"]) auto
qed

lemma sess_frames:
  fixes s :: "'w sys"
  shows "sess (snd (run_state (fs_read_file_chunk P path off len) s)) = sess s"
    "sess (snd (run_state (fs_write_file_chunk P path buf off) s)) = sess s"
    "sess (snd (run_state (net_send_all P sock data) s)) = sess s"
    "sess (snd (run_state (net_receive P sock n) s)) = sess s"
  by (rule does_more(1) [OF does_chunks(1)] does_more(1) [OF does_chunks(2)]
      does_more(1) [OF does_net_send_all [OF subset_refl]] does_more(1) [OF does_net(1) [OF subset_refl]])+

lemma run_bind: "run_state (State_Monad.bind m f) s = run_state (f (fst (run_state m s))) (snd (run_state m s))"
  by (simp add: case_prod_beta)

lemma run_abort: "run_state session_should_abort_transfer s = (s_transfer_should_abort (sess s), s)"
  "run_state failed_status s =
     (if s_transfer_should_abort (sess s) then TRANSFER_STATUS_ABORTED else TRANSFER_STATUS_CONN_ERROR, s)"
  "run_state (sget g) s = (g (sess s), s)"
  by (simp_all add: failed_status_def session_should_abort_transfer_def sget_def)

text \<open>
  The conversions of line ends that the loops take: \<open>f\<close> is what \<open>conv\<close> makes of a chunk that fits
  the buffer. For a download cutting a text into chunks does not matter; for an upload it does.
\<close>

locale chunk_conversion =
  fixes conv :: "string \<Rightarrow> string option" and f :: "string \<Rightarrow> string"
  assumes conv: "length bs \<le> TRANSFER_BUFFER_SIZE \<Longrightarrow> conv bs = Some (f bs)"

locale text_conversion = chunk_conversion conv f for conv f +
  assumes f_Nil: "f [] = []" and f_append: "f (x @ y) = f x @ f y"

context chunk_conversion
begin

text \<open>A chunk that has been read: it is sent, or the loop ends.\<close>

lemma send_chunk:
  fixes s :: "'w sys"
  assumes env: "background d env" and d: "s_data_socket (sess s) = d"
    and R: "R = run_state (do {
       sock \<leftarrow> sget s_data_socket;
       r \<leftarrow> net_send_all P sock (f bs);
       if r \<noteq> 0 then do { env j; st \<leftarrow> failed_status; ret (st, tot) } else next_turn }) s"
  obtains (failed) tr n where "fst (fst R) \<noteq> TRANSFER_STATUS_OK" "trace (snd R) = trace s @ tr" "\<forall>p. reads_at p tr = []"
      "sent d tr = take n (f bs)"
  | (sent_all) tr s' where "R = run_state next_turn s'" "s_data_socket (sess s') = d" "trace s' = trace s @ tr"
      "\<forall>p. reads_at p tr = []" "sent d tr = f bs"
proof -
  define s1 where "s1 = snd (run_state (net_send_all P d (f bs)) s)"
  define r where "r = fst (run_state (net_send_all P d (f bs)) s)"
  obtain tr n where e: "trace s1 = trace s @ tr" "set tr \<subseteq> range (Ev_send d)" "sent d tr = take n (f bs)"
    "r = 0 \<and> n = length (f bs) \<or> r = -1 \<and> n < length (f bs)"
    using net_send_all_run [of P d "f bs" s] s1_def r_def by metis
  have d1: "s_data_socket (sess s1) = d" by (simp add: s1_def sess_frames d)
  have run: "R = run_state (if r \<noteq> 0 then do { env j; st \<leftarrow> failed_status; ret (st, tot) } else next_turn) s1"
    unfolding R by (simp add: run_abort d s1_def r_def case_prod_beta)
  show ?thesis
  proof (cases "r = 0")
    case True
    then show ?thesis using sent_all [of s1 tr] run d1 e only_sends(2) [OF e(2)] by simp
  next
    case False
    define s2 where "s2 = snd (run_state (env j) s1)"
    obtain tr2 where e2: "trace s2 = trace s1 @ tr2" "sent d tr2 = []" "\<forall>p. reads_at p tr2 = []"
      using background_step [OF env d1, of j] s2_def by metis
    have "R = ((if s_transfer_should_abort (sess s2) then TRANSFER_STATUS_ABORTED else TRANSFER_STATUS_CONN_ERROR, tot), s2)"
      unfolding run using False by (simp add: run_abort s2_def case_prod_beta)
    moreover have "\<forall>p. reads_at p (tr @ tr2) = []" using only_sends(2) [OF e(2)] e2(3) by (simp add: reads_at_append)
    ultimately show ?thesis using failed [of "tr @ tr2" n] e e2 by auto
  qed
qed

text \<open>What a turn of the loop of a download does: it is the last one, or a chunk has been sent.\<close>

lemma send_loop_turn:
  fixes s :: "'w sys"
  assumes "remaining > 0" "run_state (env (2 * i)) s = (u, s1)"
    and "run_state (fs_read_file_chunk P path off (nat (min remaining (int TRANSFER_BUFFER_SIZE)))) s1 = (r, s2)"
  shows "run_state (send_loop P env conv path i off remaining tot) s =
     (if s_transfer_should_abort (sess s1) then ((TRANSFER_STATUS_ABORTED, tot), s1)
      else run_state (case r of None \<Rightarrow> ret (TRANSFER_STATUS_IO_ERROR, tot)
       | Some bs \<Rightarrow> if length bs = 0 then ret (TRANSFER_STATUS_IO_ERROR, tot)
           else (case conv bs of None \<Rightarrow> ret (TRANSFER_STATUS_INTERNAL_ERROR, tot)
              | Some out \<Rightarrow> do {
                  sock \<leftarrow> sget s_data_socket;
                  r \<leftarrow> net_send_all P sock out;
                  if r \<noteq> 0 then do { env (2 * i + 1); st \<leftarrow> failed_status; ret (st, tot) }
                  else send_loop P env conv path (i + 1) (off + int (length bs)) (remaining - int (length bs)) (tot + length out) })) s2)"
  using assms(1) by (subst send_loop.simps)
    (simp only: run_bind run_abort assms(2,3) fst_conv snd_conv if_False not_True_eq_False split: if_split, simp)

lemma send_turn:
  fixes s :: "'w sys"
  assumes env: "background d env" and d: "s_data_socket (sess s) = d" and rem: "remaining > 0"
    and R: "R = run_state (send_loop P env conv path i off remaining tot) s"
  obtains (last) tr data n where "fst (fst R) \<noteq> TRANSFER_STATUS_OK" "trace (snd R) = trace s @ tr"
      "\<forall>p. reads_at p tr = at off data" "sent d tr = take n (f data)"
  | (chunk) tr bs s' where
      "R = run_state (send_loop P env conv path (i + 1) (off + int (length bs)) (remaining - int (length bs)) (tot + length (f bs))) s'"
      "bs \<noteq> []" "int (length bs) \<le> remaining" "s_data_socket (sess s') = d" "trace s' = trace s @ tr"
      "\<forall>p. reads_at p tr = at off bs" "sent d tr = f bs"
proof -
  let ?len = "nat (min remaining (int TRANSFER_BUFFER_SIZE))"
  obtain u s1 where s1: "run_state (env (2 * i)) s = (u, s1)" by (cases "run_state (env (2 * i)) s")
  obtain r2 s2 where s2: "run_state (fs_read_file_chunk P path off ?len) s1 = (r2, s2)"
    by (cases "run_state (fs_read_file_chunk P path off ?len) s1")
  obtain tr1 where e1: "s_data_socket (sess s1) = d" "trace s1 = trace s @ tr1" "sent d tr1 = []" "\<forall>p. reads_at p tr1 = []"
    using background_step [OF env d, of "2 * i"] s1 by (metis snd_conv)
  obtain tr2 data where e2: "trace s2 = trace s1 @ tr2" "sent d tr2 = []" "\<forall>p. reads_at p tr2 = at off data"
    "case r2 of None \<Rightarrow> True | Some bs \<Rightarrow> bs = data \<and> length bs \<le> ?len"
    using read_chunk_run [of P path off ?len s1 d] s2 by (metis fst_conv snd_conv)
  have d2: "s_data_socket (sess s2) = d" using sess_frames(1) [of P path off ?len s1] s2 e1(1) by simp
  have reads: "\<forall>p. reads_at p (tr1 @ tr2) = at off data" using e1(4) e2(3) by (simp add: reads_at_append)
  note run = R [unfolded send_loop_turn [where env = env and i = i, OF rem s1 s2]]
  consider (aborted) "s_transfer_should_abort (sess s1)" | (io) "\<not> s_transfer_should_abort (sess s1)" "r2 = None \<or> r2 = Some []"
    | (data) "\<not> s_transfer_should_abort (sess s1)" "r2 = Some data" "data \<noteq> []"
    using e2(4) by (cases r2) auto
  then show ?thesis
  proof cases
    case aborted
    then show ?thesis using last [of tr1 "[]" 0] run e1 by simp
  next
    case io
    then show ?thesis using last [of "tr1 @ tr2" data 0] run e1 e2 reads by auto
  next
    case data
    then have le: "length data \<le> TRANSFER_BUFFER_SIZE" "int (length data) \<le> remaining" using e2(4) rem by auto
    have R': "R = run_state (do {
        sock \<leftarrow> sget s_data_socket;
        r \<leftarrow> net_send_all P sock (f data);
        if r \<noteq> 0 then do { env (2 * i + 1); st \<leftarrow> failed_status; ret (st, tot) }
        else send_loop P env conv path (i + 1) (off + int (length data)) (remaining - int (length data)) (tot + length (f data)) }) s2"
      using run data conv [OF le(1)] by simp
    show ?thesis
    proof (rule send_chunk [OF env d2 R'], goal_cases)
      case (1 tr n)
      moreover have "\<forall>p. reads_at p ((tr1 @ tr2) @ tr) = at off data"
        using reads_at_append [of tr "[]"] 1(3) reads by (metis append_Nil2)
      ultimately show ?thesis using last [of "(tr1 @ tr2) @ tr" data n] e1 e2 by simp
    next
      case (2 tr s')
      moreover have "\<forall>p. reads_at p ((tr1 @ tr2) @ tr) = at off data"
        using reads_at_append [of tr "[]"] 2(4) reads by (metis append_Nil2)
      ultimately show ?thesis using chunk [of data s' "(tr1 @ tr2) @ tr"] data(3) le(2) e1 e2 by simp
    qed
  qed
qed

end

context text_conversion
begin

lemma send_loop_run:
  fixes s :: "'w sys"
  assumes env: "background d env" and "s_data_socket (sess s) = d" "0 \<le> remaining"
  shows "\<exists>tr. trace (snd (run_state (send_loop P env conv path i off remaining tot) s)) = trace s @ tr \<and>
     delivered d f off remaining tr (fst (fst (run_state (send_loop P env conv path i off remaining tot) s)))"
  using assms(2,3)
proof (induction "nat remaining" arbitrary: s i off remaining tot rule: less_induct)
  case less
  let ?R = "run_state (send_loop P env conv path i off remaining tot) s"
  show ?case
  proof (cases "remaining > 0")
    case False
    then have "?R = ((TRANSFER_STATUS_OK, tot), s)" by (subst send_loop.simps) simp
    moreover have "remaining = 0" using False less.prems(2) by simp
    ultimately show ?thesis using f_Nil by (auto simp: delivered_def intro!: exI [of _ "[] :: string"])
  next
    case True
    show ?thesis
    proof (rule send_turn [OF env less.prems(1) True refl, of P path i off tot], goal_cases)
      case (1 tr data n)
      then show ?thesis using delivered_failed by blast
    next
      case (2 tr bs s')
      then have "nat (remaining - int (length bs)) < nat remaining" "0 \<le> remaining - int (length bs)" using True by auto
      from less.hyps [OF this(1) 2(4) this(2)] 2(1) obtain tr' where
        "trace (snd ?R) = trace s' @ tr'" "delivered d f (off + int (length bs)) (remaining - int (length bs)) tr' (fst (fst ?R))"
        by (metis (no_types, lifting))
      with delivered_append [OF 2(6,7) f_append] 2(5) show ?thesis by auto
    qed
  qed
qed

lemma download_body:
  fixes s :: "'w sys"
  assumes "background d env" "s_data_socket (sess s) = d" "0 \<le> remaining"
    and R: "R = run_state (do {
       (st, total_sent) \<leftarrow> send_loop P env conv path 0 off remaining 0;
       (if st = TRANSFER_STATUS_OK then count_download total_sent else ret ());
       ret st }) s"
  shows "\<exists>tr. trace (snd R) = trace s @ tr \<and> delivered d f off remaining tr (fst R)"
proof -
  let ?L = "run_state (send_loop P env conv path 0 off remaining 0) s"
  have "trace (snd R) = trace (snd ?L)" "fst R = fst (fst ?L)"
    unfolding R by (simp_all add: case_prod_beta count_download_def smod_def)
  with send_loop_run [where P = P and path = path and i = 0 and off = off and tot = 0, OF assms(1-3)] show ?thesis by simp
qed

end

lemma run_file_size: "run_state (fs_get_file_size P path) s =
    (case fst (run_state (px_stat P path) (world s)) of None \<Rightarrow> -1
     | Some st \<Rightarrow> if \<not> S_ISREG (st_mode st) then -1 else st_size st,
     s\<lparr>world := snd (run_state (px_stat P path) (world s)), trace := trace s @ [Ev_path Op_stat path]\<rparr>)"
  by (simp add: fs_get_file_size_def sys_defs emit_def run_os)

text \<open>Before the loop a download looks at the file and allocates its buffers.\<close>

context text_conversion
begin

lemma download_run:
  fixes s :: "'w sys" and alloc :: "('w, bool) sys_m"
  assumes env: "background d env" and d: "s_data_socket (sess s) = d"
    and alloc: "does {} alloc"
    and R: "R = run_state (do {
       d \<leftarrow> sget s_data_socket;
       if d = INVALID_SOCKET_T then ret TRANSFER_STATUS_CONN_ERROR
       else do {
         file_size \<leftarrow> fs_get_file_size P path;
         if file_size < 0 then ret TRANSFER_STATUS_IO_ERROR
         else if off > file_size then ret TRANSFER_STATUS_IO_ERROR
         else do {
           ok \<leftarrow> alloc;
           if \<not> ok then ret TRANSFER_STATUS_INTERNAL_ERROR
           else do {
             (st, total_sent) \<leftarrow> send_loop P env conv path 0 off (file_size - off) 0;
             (if st = TRANSFER_STATUS_OK then count_download total_sent else ret ());
             ret st } } } }) s"
  shows "\<exists>tr. trace (snd R) = trace s @ tr \<and>
     delivered d f off (fst (run_state (fs_get_file_size P path) s) - off) tr (fst R)"
proof -
  let ?size = "fst (run_state (fs_get_file_size P path) s)"
  define s1 where "s1 = snd (run_state (fs_get_file_size P path) s)"
  define s2 where "s2 = snd (run_state alloc s1)"
  have t1: "trace s1 = trace s @ [Ev_path Op_stat path]" "s_data_socket (sess s1) = d"
    using d by (simp_all add: s1_def run_file_size)
  have t2: "trace s2 = trace s1" "s_data_socket (sess s2) = d"
    using alloc does_more(1) [OF alloc, of s1] t1(2) by (auto simp: s2_def does_def)
  have none: "delivered d f off r [] st" "delivered d f off r [Ev_path Op_stat path] st"
    if "st \<noteq> TRANSFER_STATUS_OK" for r st
    using that delivered_failed [of "[]" off "[]" d 0 f] delivered_failed [of "[Ev_path Op_stat path]" off "[]" d 0 f] by auto
  show ?thesis
  proof (cases "d = INVALID_SOCKET_T")
    case True
    then have "R = (TRANSFER_STATUS_CONN_ERROR, s)" unfolding R using d by (simp add: run_abort)
    with none show ?thesis by auto
  next
    case valid: False
    show ?thesis
    proof (cases "?size < 0 \<or> off > ?size")
      case True
      then have "R = (TRANSFER_STATUS_IO_ERROR, s1)" unfolding R using d valid
        by (auto simp: run_abort s1_def case_prod_beta)
      with none t1 show ?thesis by auto
    next
      case False
      then have size: "\<not> ?size < 0" "\<not> off > ?size" by simp_all
      show ?thesis
      proof (cases "fst (run_state alloc s1)")
        case False
        then have "R = (TRANSFER_STATUS_INTERNAL_ERROR, s2)" unfolding R using d valid size
          by (simp only: run_bind [of "sget s_data_socket"] run_bind [of "fs_get_file_size P path"] run_bind [of alloc]
            run_abort fst_conv snd_conv s1_def [symmetric] s2_def [symmetric] if_False) simp
        with none t1 t2 show ?thesis by auto
      next
        case True
        have "R = run_state (do {
             (st, total_sent) \<leftarrow> send_loop P env conv path 0 off (?size - off) 0;
             (if st = TRANSFER_STATUS_OK then count_download total_sent else ret ());
             ret st }) s2"
          unfolding R using d valid size True
          by (simp only: run_bind [of "sget s_data_socket"] run_bind [of "fs_get_file_size P path"] run_bind [of alloc]
            run_abort fst_conv snd_conv s1_def [symmetric] s2_def [symmetric] if_False) simp
        from download_body [OF env t2(2) _ this] size obtain tr where
          "trace (snd R) = trace s2 @ tr" "delivered d f off (?size - off) tr (fst R)" by auto
        moreover from this(2) have "delivered d f off (?size - off) ([Ev_path Op_stat path] @ tr) (fst R)"
          using delivered_append [of "[Ev_path Op_stat path]" off "[]" d f "?size - off" tr] f_Nil f_append by auto
        ultimately show ?thesis using t1 t2 by auto
      qed
    qed
  qed
qed

end

section \<open>Downloads\<close>

lemma net_text_conv: "length bs \<le> TRANSFER_BUFFER_SIZE \<Longrightarrow>
    lf_to_crlf bs (int TRANSFER_BUFFER_SIZE * 2) = Some (net_text bs)"
  using length_net_text_le [of bs] by (simp add: lf_to_crlf_eq TRANSFER_BUFFER_SIZE_def)

interpretation binary: text_conversion Some id
  by unfold_locales simp_all

interpretation to_net: text_conversion "\<lambda>bs. lf_to_crlf bs (int TRANSFER_BUFFER_SIZE * 2)" net_text
  by unfold_locales (simp_all add: net_text_conv)

lemma send_binary_run:
  fixes s :: "'w sys"
  assumes "background (s_data_socket (sess s)) env"
  shows "\<exists>tr. trace (snd (run_state (transfer_send_file P env path off) s)) = trace s @ tr \<and>
     delivered (s_data_socket (sess s)) id off (fst (run_state (fs_get_file_size P path) s) - off) tr
       (fst (run_state (transfer_send_file P env path off) s))"
  by (rule binary.download_run [OF assms, where alloc = "os (px_malloc P)"])
    (simp_all add: does_os transfer_send_file_def)

lemma send_ascii_run:
  fixes s :: "'w sys"
  assumes "background (s_data_socket (sess s)) env"
  shows "\<exists>tr. trace (snd (run_state (transfer_send_file_ascii P env path off) s)) = trace s @ tr \<and>
     delivered (s_data_socket (sess s)) net_text off (fst (run_state (fs_get_file_size P path) s) - off) tr
       (fst (run_state (transfer_send_file_ascii P env path off) s))"
proof (rule to_net.download_run [OF assms])
  let ?alloc = "do { ok1 \<leftarrow> os (px_malloc P); ok2 \<leftarrow> os (px_malloc P); ret (ok1 \<and> ok2) } :: ('w, bool) sys_m"
  show "does {} ?alloc" by (intro doing)
qed (simp_all add: transfer_send_file_ascii_def cong: if_cong)

lemma background_idle: "background d (\<lambda>_. ret ())"
  by (simp add: background_def)

lemma delivered_data:
  assumes "delivered d f off remaining tr st"
  shows "reads_at 0 tr = at off (read_bytes tr) \<and>
     (if st = TRANSFER_STATUS_OK then sent d tr = f (read_bytes tr) \<and> int (length (read_bytes tr)) = remaining
      else \<exists>n. sent d tr = take n (f (read_bytes tr)))"
proof -
  from assms obtain data n where d: "reads_at 0 tr = at off data" "sent d tr = take n (f data)"
    "if st = TRANSFER_STATUS_OK then n = length (f data) \<and> int (length data) = remaining else True"
    by (auto simp: delivered_def)
  from d(1) have "read_bytes tr = data" by simp
  with d show ?thesis by (auto split: if_splits)
qed





section \<open>Uploads\<close>

text \<open>
  \<open>stored\<close>: the trace receives \<open>chunks\<close>, and what it writes, at consecutive positions from \<open>off\<close> on,
  is the conversion of these chunks one by one, complete when the status is OK, else a prefix.
\<close>

definition stored :: "int \<Rightarrow> (string \<Rightarrow> string) \<Rightarrow> int \<Rightarrow> os_event list \<Rightarrow> transfer_status_t option \<Rightarrow> bool" where
  "stored d f off tr st \<longleftrightarrow> (\<exists>chunks n. received d tr = concat chunks \<and>
     (\<forall>p. writes_at p tr = at off (take n (concat (map f chunks)))) \<and>
     (if st = Some TRANSFER_STATUS_OK then n = length (concat (map f chunks)) else True))"

lemma storedI:
  "received d tr = concat chunks \<Longrightarrow> \<forall>p. writes_at p tr = at off (take n (concat (map f chunks))) \<Longrightarrow>
   st = Some TRANSFER_STATUS_OK \<longrightarrow> n = length (concat (map f chunks)) \<Longrightarrow> stored d f off tr st"
  unfolding stored_def by (intro exI [of _ chunks] exI [of _ n]) simp

lemma stored_append:
  assumes "received d a = bs" "\<forall>p. writes_at p a = at off (f bs)"
    and "stored d f (off + int (length (f bs))) b st"
  shows "stored d f off (a @ b) st"
proof -
  from assms(3) obtain chunks n where c: "received d b = concat chunks"
    "\<forall>p. writes_at p b = at (off + int (length (f bs))) (take n (concat (map f chunks)))"
    "if st = Some TRANSFER_STATUS_OK then n = length (concat (map f chunks)) else True"
    by (auto simp: stored_def)
  have "\<forall>p. writes_at p (a @ b) = at off (take (length (f bs) + n) (concat (map f (bs # chunks))))"
    using assms(2) c(2) by (simp add: writes_at_append)
  with assms(1) c(1,3) show ?thesis
    by (intro storedI [where chunks = "bs # chunks" and n = "length (f bs) + n"]) auto
qed

context chunk_conversion
begin

text \<open>A chunk that has been received: it is written, or the loop ends.\<close>

lemma write_turn:
  fixes s :: "'w sys"
  assumes d: "s_data_socket (sess s) = d"
    and R: "R = run_state (do {
       bytes_written \<leftarrow> fs_write_file_chunk P path (f bs) pos;
       if bytes_written \<noteq> int (length (f bs)) then ret (Some (TRANSFER_STATUS_IO_ERROR, a, b)) else next_turn }) s"
  obtains (failed) tr n where "map_option fst (fst R) = Some TRANSFER_STATUS_IO_ERROR" "trace (snd R) = trace s @ tr"
      "received d tr = []" "\<forall>p. writes_at p tr = at pos (take n (f bs))"
  | (written) tr s' where "R = run_state next_turn s'" "s_data_socket (sess s') = d" "trace s' = trace s @ tr"
      "received d tr = []" "\<forall>p. writes_at p tr = at pos (f bs)"
proof -
  define s1 where "s1 = snd (run_state (fs_write_file_chunk P path (f bs) pos) s)"
  define r where "r = fst (run_state (fs_write_file_chunk P path (f bs) pos) s)"
  obtain tr n where e: "trace s1 = trace s @ tr" "received d tr = []" "\<forall>p. writes_at p tr = at pos (take n (f bs))"
    "r = int (length (f bs)) \<longrightarrow> n = length (f bs)"
    using write_chunk_run [of P path "f bs" pos s d] s1_def r_def by metis
  have d1: "s_data_socket (sess s1) = d" by (simp add: s1_def sess_frames d)
  have run: "R = run_state (if r \<noteq> int (length (f bs)) then ret (Some (TRANSFER_STATUS_IO_ERROR, a, b)) else next_turn) s1"
    unfolding R by (simp add: s1_def r_def case_prod_beta)
  show ?thesis
  proof (cases "r = int (length (f bs))")
    case True
    then show ?thesis using written [of s1 tr] run d1 e by simp
  next
    case False
    then show ?thesis using failed [of tr n] run e by simp
  qed
qed

text \<open>What a turn of the loop of an upload does, and what its reception leaves in the trace.\<close>

lemma receive_loop_turn:
  fixes s :: "'w sys"
  assumes "run_state (env (2 * i)) s = (u, s1)" "run_state (net_receive P (s_data_socket (sess s1)) TRANSFER_BUFFER_SIZE) s1 = (r, s2)"
    and "run_state (env (2 * i + 1)) s2 = (u', s3)"
  shows "run_state (receive_loop P env conv path (Suc fuel) i off totr totw) s =
     (if s_transfer_should_abort (sess s1) then (Some (TRANSFER_STATUS_ABORTED, totr, totw), s1)
      else run_state (case r of
        Inl err \<Rightarrow> do { st \<leftarrow> failed_status; ret (Some (st, totr, totw)) }
      | Inr bs \<Rightarrow>
          if length bs = 0 then do {
            aborted \<leftarrow> session_should_abort_transfer;
            ret (Some (if aborted then TRANSFER_STATUS_ABORTED else TRANSFER_STATUS_OK, totr, totw)) }
          else
            (case conv bs of
               None \<Rightarrow> ret (Some (TRANSFER_STATUS_INTERNAL_ERROR, totr + length bs, totw))
             | Some data \<Rightarrow> do {
                 bytes_written \<leftarrow> fs_write_file_chunk P path data (off + int totw);
                 if bytes_written \<noteq> int (length data) then
                   ret (Some (TRANSFER_STATUS_IO_ERROR, totr + length bs, totw))
                 else receive_loop P env conv path fuel (i + 1) off (totr + length bs) (totw + length data) })) s3)"
  by (simp only: receive_loop.simps run_bind run_abort assms fst_conv snd_conv not_True_eq_False
      split: if_split) simp

lemma receive_events:
  fixes s :: "'w sys"
  assumes env: "background d env" and d: "s_data_socket (sess s) = d"
    and r: "run_state (net_receive P d TRANSFER_BUFFER_SIZE) s = (r, s2)" and s3: "run_state (env j) s2 = (u, s3)"
  obtains tr where "s_data_socket (sess s3) = d" "trace s3 = trace s @ tr" "\<forall>p. writes_at p tr = []"
    "received d tr = (case r of Inl e \<Rightarrow> [] | Inr bs \<Rightarrow> bs)"
    "case r of Inl e \<Rightarrow> True | Inr bs \<Rightarrow> length bs \<le> TRANSFER_BUFFER_SIZE"
proof -
  have d2: "s_data_socket (sess s2) = d" using sess_frames(4) [of P d TRANSFER_BUFFER_SIZE s] r d by simp
  obtain tr2 where e2: "trace s2 = trace s @ tr2" "\<forall>p. writes_at p tr2 = []"
    "received d tr2 = (case r of Inl e \<Rightarrow> [] | Inr bs \<Rightarrow> bs)"
    "case r of Inl e \<Rightarrow> True | Inr bs \<Rightarrow> length bs \<le> TRANSFER_BUFFER_SIZE"
  proof (cases rule: run_receive [of P d TRANSFER_BUFFER_SIZE s])
    case (1 e)
    with r show ?thesis by (intro that [of "[]"]) auto
  next
    case (2 bs)
    with r show ?thesis by (intro that [of "[Ev_recv d bs]"]) auto
  qed
  obtain tr3 where "s_data_socket (sess s3) = d" "trace s3 = trace s2 @ tr3" "received d tr3 = []" "\<forall>p. writes_at p tr3 = []"
    using background_step [OF env d2, of j] s3 by (metis snd_conv)
  with e2 that [of "tr2 @ tr3"] show ?thesis by (simp add: writes_at_append)
qed

text \<open>A turn of the loop: it is the last one, or a chunk has been received and written.\<close>

lemma receive_turn:
  fixes s :: "'w sys"
  assumes env: "background d env" and d: "s_data_socket (sess s) = d"
    and R: "R = run_state (receive_loop P env conv path (Suc fuel) i off totr totw) s"
  obtains (last) tr where "trace (snd R) = trace s @ tr" "received d tr = []" "\<forall>p. writes_at p tr = []"
  | (failed) tr bs n where "map_option fst (fst R) = Some TRANSFER_STATUS_IO_ERROR" "trace (snd R) = trace s @ tr"
      "received d tr = bs" "\<forall>p. writes_at p tr = at (off + int totw) (take n (f bs))"
  | (chunk) tr bs s' where
      "R = run_state (receive_loop P env conv path fuel (i + 1) off (totr + length bs) (totw + length (f bs))) s'"
      "s_data_socket (sess s') = d" "trace s' = trace s @ tr" "received d tr = bs"
      "\<forall>p. writes_at p tr = at (off + int totw) (f bs)"
proof -
  obtain u s1 where s1: "run_state (env (2 * i)) s = (u, s1)" by (cases "run_state (env (2 * i)) s")
  obtain r2 s2 where s2: "run_state (net_receive P d TRANSFER_BUFFER_SIZE) s1 = (r2, s2)"
    by (cases "run_state (net_receive P d TRANSFER_BUFFER_SIZE) s1")
  obtain u' s3 where s3: "run_state (env (2 * i + 1)) s2 = (u', s3)" by (cases "run_state (env (2 * i + 1)) s2")
  obtain tr1 where e1: "s_data_socket (sess s1) = d" "trace s1 = trace s @ tr1" "received d tr1 = []" "\<forall>p. writes_at p tr1 = []"
    using background_step [OF env d, of "2 * i"] s1 by (metis snd_conv)
  obtain tr2 where e3: "s_data_socket (sess s3) = d" "trace s3 = trace s1 @ tr2" "\<forall>p. writes_at p tr2 = []"
    "received d tr2 = (case r2 of Inl e \<Rightarrow> [] | Inr bs \<Rightarrow> bs)"
    "case r2 of Inl e \<Rightarrow> True | Inr bs \<Rightarrow> length bs \<le> TRANSFER_BUFFER_SIZE"
    by (rule receive_events [OF env e1(1) s2 s3])
  let ?tr = "tr1 @ tr2"
  have t3: "trace s3 = trace s @ ?tr" "received d ?tr = (case r2 of Inl e \<Rightarrow> [] | Inr bs \<Rightarrow> bs)" "\<forall>p. writes_at p ?tr = []"
    using e1 e3 by (simp_all add: writes_at_append)
  note run = R [unfolded receive_loop_turn [OF s1 s2 [folded e1(1)] s3]]
  consider (aborted) "s_transfer_should_abort (sess s1)"
    | (over) "\<not> s_transfer_should_abort (sess s1)" "(\<exists>e. r2 = Inl e) \<or> r2 = Inr []"
    | (data) bs where "\<not> s_transfer_should_abort (sess s1)" "r2 = Inr bs" "bs \<noteq> []"
    by (cases r2) auto
  then show ?thesis
  proof cases
    case aborted
    then show ?thesis using last [of tr1] run e1 by simp
  next
    case over
    then have "snd R = s3" using run by (auto simp: run_abort)
    then show ?thesis using last [of ?tr] t3 over(2) by auto
  next
    case (data bs)
    then have le: "length bs \<le> TRANSFER_BUFFER_SIZE" using e3(5) by simp
    have R': "R = run_state (do {
        bytes_written \<leftarrow> fs_write_file_chunk P path (f bs) (off + int totw);
        if bytes_written \<noteq> int (length (f bs)) then ret (Some (TRANSFER_STATUS_IO_ERROR, totr + length bs, totw))
        else receive_loop P env conv path fuel (i + 1) off (totr + length bs) (totw + length (f bs)) }) s3"
      using run data conv [OF le] by simp
    have app: "\<forall>p. writes_at p (?tr @ tr) = X" if "\<forall>p. writes_at p tr = X" for tr X
      using writes_at_append [of tr X _ ?tr] that t3(3) by simp
    show ?thesis
    proof (rule write_turn [OF e3(1) R'], goal_cases)
      case (1 tr n)
      then show ?thesis using failed [of "?tr @ tr" bs n] app t3 data(2) by simp
    next
      case (2 tr s')
      then show ?thesis using chunk [of bs s' "?tr @ tr"] app t3 data(2) by simp
    qed
  qed
qed

lemma receive_loop_run:
  fixes s :: "'w sys"
  assumes env: "background d env" and "s_data_socket (sess s) = d"
  shows "\<exists>tr. trace (snd (run_state (receive_loop P env conv path fuel i off totr totw) s)) = trace s @ tr \<and>
     stored d f (off + int totw) tr
       (map_option fst (fst (run_state (receive_loop P env conv path fuel i off totr totw) s)))"
  using assms(2)
proof (induction fuel arbitrary: s i totr totw)
  case 0
  then show ?case by (auto intro!: storedI [where chunks = "[]" and n = 0])
next
  case (Suc fuel)
  let ?R = "run_state (receive_loop P env conv path (Suc fuel) i off totr totw) s"
  show ?case
  proof (rule receive_turn [OF env Suc.prems refl, of P path fuel i off totr totw], goal_cases)
    case (1 tr)
    then show ?thesis using storedI [of d tr "[]" "off + int totw" 0 f] by auto
  next
    case (2 tr bs n)
    then show ?thesis using storedI [of d tr "[bs]" "off + int totw" n f] by auto
  next
    case (3 tr bs s')
    from Suc.IH [OF 3(2), of "i + 1" "totr + length bs" "totw + length (f bs)"] 3(1) obtain tr' where
      tr': "trace (snd ?R) = trace s' @ tr'" "stored d f (off + int (totw + length (f bs))) tr' (map_option fst (fst ?R))"
      by metis
    have "stored d f (off + int totw) (tr @ tr') (map_option fst (fst ?R))"
      by (rule stored_append [OF 3(4)]) (use tr'(2) 3(5) in \<open>simp_all add: add.assoc\<close>)
    with tr'(1) 3(3) show ?thesis by auto
  qed
qed

end

lemma unix_text_conv: "length bs \<le> TRANSFER_BUFFER_SIZE \<Longrightarrow>
    crlf_to_lf bs (int TRANSFER_BUFFER_SIZE) = Some (unix_text bs)"
  using length_unix_text [of bs] by (simp add: crlf_to_lf_eq TRANSFER_BUFFER_SIZE_def)

lemma stored_none: "stored d f off [] st \<longleftrightarrow> True"
  by (simp add: storedI [where chunks = "[]" and n = 0])

text \<open>Before and behind the loop an upload moves nothing.\<close>

context chunk_conversion
begin

lemma upload_run:
  fixes s :: "'w sys" and alloc :: "('w, bool) sys_m"
  assumes env: "background d env"
    and d: "s_data_socket (sess s) = d" and alloc: "does {} alloc"
    and R: "R = run_state (do {
       d \<leftarrow> sget s_data_socket;
       if d = INVALID_SOCKET_T then ret (Some TRANSFER_STATUS_CONN_ERROR)
       else do {
         ok \<leftarrow> alloc;
         if \<not> ok then ret (Some TRANSFER_STATUS_INTERNAL_ERROR)
         else do {
           r \<leftarrow> receive_loop P env conv path fuel 0 off 0 0;
           (case r of
              None \<Rightarrow> ret None
            | Some (st, total_received, _) \<Rightarrow> do {
                (if st = TRANSFER_STATUS_OK then count_upload total_received else ret ());
                ret (Some st) }) } } }) s"
  shows "\<exists>tr. trace (snd R) = trace s @ tr \<and> stored d f off tr (fst R)"
proof -
  define s1 where "s1 = snd (run_state alloc s)"
  have t1: "trace s1 = trace s" "s_data_socket (sess s1) = d"
    using alloc does_more(1) [OF alloc, of s] d by (auto simp: s1_def does_def)
  let ?L = "run_state (receive_loop P env conv path fuel 0 off 0 0) s1"
  show ?thesis
  proof (cases "d = INVALID_SOCKET_T \<or> \<not> fst (run_state alloc s)")
    case True
    then have "trace (snd R) = trace s @ []" unfolding R using d t1 by (auto simp: run_abort s1_def case_prod_beta)
    then show ?thesis using stored_none by blast
  next
    case False
    then have "R = run_state (do {
           r \<leftarrow> receive_loop P env conv path fuel 0 off 0 0;
           (case r of
              None \<Rightarrow> ret None
            | Some (st, total_received, _) \<Rightarrow> do {
                (if st = TRANSFER_STATUS_OK then count_upload total_received else ret ());
                ret (Some st) }) }) s1"
      unfolding R using d by (simp only: run_bind [of "sget s_data_socket"] run_bind [of alloc] run_abort fst_conv snd_conv
          s1_def [symmetric] de_Morgan_disj not_not if_False) simp
    then have "trace (snd R) = trace (snd ?L)" "fst R = map_option fst (fst ?L)"
      by (auto simp: count_upload_def smod_def case_prod_beta split: option.splits)
    with receive_loop_run [where P = P and path = path and i = 0 and off = off and fuel = fuel and totr = 0 and totw = 0,
        OF env t1(2)] t1(1) show ?thesis by simp
  qed
qed

end

interpretation from_net: chunk_conversion "\<lambda>bs. crlf_to_lf bs (int TRANSFER_BUFFER_SIZE)" unix_text
  by unfold_locales (rule unix_text_conv)

lemma receive_binary_run:
  fixes s :: "'w sys"
  assumes "background (s_data_socket (sess s)) env"
  shows "\<exists>tr. trace (snd (run_state (transfer_receive_file P env fuel path off) s)) = trace s @ tr \<and>
     stored (s_data_socket (sess s)) id off tr (fst (run_state (transfer_receive_file P env fuel path off) s))"
  by (rule binary.upload_run [OF assms, where alloc = "os (px_malloc P)"])
    (simp_all add: does_os transfer_receive_file_def)

lemma receive_ascii_run:
  fixes s :: "'w sys"
  assumes "background (s_data_socket (sess s)) env"
  shows "\<exists>tr. trace (snd (run_state (transfer_receive_file_ascii P env fuel path off) s)) = trace s @ tr \<and>
     stored (s_data_socket (sess s)) unix_text off tr (fst (run_state (transfer_receive_file_ascii P env fuel path off) s))"
proof (rule from_net.upload_run [OF assms])
  let ?alloc = "do { ok1 \<leftarrow> os (px_malloc P); ok2 \<leftarrow> os (px_malloc P); ret (ok1 \<and> ok2) } :: ('w, bool) sys_m"
  show "does {} ?alloc" by (intro doing)
qed (simp_all add: transfer_receive_file_ascii_def cong: if_cong)



text \<open>
  An ASCII upload converts chunk by chunk. What \<open>transfer_receive_file_ascii\<close> writes, at
  consecutive positions from the offset on, is the concatenation of the converted chunks in which
  the data arrived, a prefix of it when it fails.
\<close>

theorem ascii_upload_correct:
  assumes "background (s_data_socket (sess s)) env"
  shows "\<exists>tr chunks n. trace (snd (run_state (transfer_receive_file_ascii P env fuel path off) s)) = trace s @ tr \<and>
     received (s_data_socket (sess s)) tr = concat chunks \<and>
     writes_at 0 tr = at off (take n (concat (map unix_text chunks))) \<and>
     (if fst (run_state (transfer_receive_file_ascii P env fuel path off) s) = Some TRANSFER_STATUS_OK
      then n = length (concat (map unix_text chunks)) else True)"
  using receive_ascii_run [OF assms, of P fuel path off] unfolding stored_def by blast

lemma ascii_upload_correct_witness:
  "\<exists>tr chunks n. trace (snd (run_state (transfer_receive_file_ascii plain_posix (\<lambda>_. ret ()) 3 ''/srv/ftp/f'' 0)
       (plain_sys (plain_session\<lparr>s_data_socket := 5\<rparr>)))) = tr \<and> received 5 tr = concat chunks \<and>
     writes_at 0 tr = at 0 (take n (concat (map unix_text chunks)))"
  using ascii_upload_correct [of "plain_sys (plain_session\<lparr>s_data_socket := 5\<rparr>)" "\<lambda>_. ret ()" plain_posix 3 "''/srv/ftp/f''" 0]
    background_idle
  by (simp add: plain_sys_def) blast

end
