(* ===== verification/Transfer_Contents.thy ===== *)
theory Transfer_Contents
  imports Transfer_Correct File_Contents_Win32
begin

text \<open>
  Transfers end to end: what an upload makes of the contents of a file, and what a download sends
  of them. \<open>Transfer_Correct\<close> relates the calls of a transfer to each other, whatever they do;
  here the system keeps its documentation (\<open>files_posix\<close> for files, \<open>data_posix\<close> for the other calls
  a transfer makes), and what the control thread does meanwhile leaves the file alone.
\<close>

section \<open>The system and the control thread\<close>

definition data_posix :: "'w posix \<Rightarrow> ('w \<Rightarrow> store) \<Rightarrow> bool" where
  "data_posix P view \<longleftrightarrow>
     (\<forall>fd n v. leads (\<lambda>w. view w = v) (px_recv P fd n) (\<lambda>_ w. view w = v)) \<and>
     (\<forall>fd bs v. leads (\<lambda>w. view w = v) (px_send P fd bs) (\<lambda>_ w. view w = v)) \<and>
     (\<forall>v. leads (\<lambda>w. view w = v) (px_malloc P) (\<lambda>_ w. view w = v)) \<and>
     (\<forall>fd how v. leads (\<lambda>w. view w = v) (px_shutdown P fd how) (\<lambda>_ w. view w = v)) \<and>
     (\<forall>path v. leads (\<lambda>w. view w = v) (px_stat P path) (\<lambda>r w. view w = v \<and>
        (\<forall>st. r = Some st \<longrightarrow> S_ISREG (st_mode st) \<longrightarrow> (\<exists>c. files v path = Some c \<and> st_size st = int (length c)))))"

abbreviation contents :: "('w \<Rightarrow> store) \<Rightarrow> string \<Rightarrow> ('w, 'z) os_scheme \<Rightarrow> string option" where
  "contents view path s \<equiv> files (view (world s)) path"

definition leaves_file :: "('w \<Rightarrow> store) \<Rightarrow> string \<Rightarrow> 'w env \<Rightarrow> bool" where
  "leaves_file view path env \<longleftrightarrow> (\<forall>i c. keeps (\<lambda>s. contents view path s = c) (env i) any)"

lemma leaves_file_idle: "leaves_file view path (\<lambda>_. ret ())"
  by (simp add: leaves_file_def keeps_def)

lemma observes_os: "(\<And>v. leads (\<lambda>w. view w = v) m (\<lambda>_ w. view w = v)) \<Longrightarrow> observes view (os m)"
  unfolding observes_def by (intro allI store_os)

lemma observes_ret: "observes view (ret a)"
  by (simp add: observes_def leads_def)

lemma observes_emit: "observes view (emit e)"
  by (simp add: observes_def leads_def emit_def)

lemma observes_bind: "observes view m \<Longrightarrow> (\<And>a. observes view (f a)) \<Longrightarrow> observes view (State_Monad.bind m f)"
  unfolding observes_def by (blast intro: leads_seq)

lemma observes_send_all:
  assumes "\<And>fd bs. observes view (os (px_send P fd bs) :: ('w, 'z, errno + nat) os_m)"
  shows "observes view (net_send_all P fd bs :: ('w, 'z, int) os_m)"
  using assms
proof (induction P fd bs rule: net_send_all.induct)
  case (1 P fd bs)
  have "observes view (net_send P fd bs :: ('w, 'z, errno + nat) os_m)" unfolding net_send_def sys_send_def
    by (intro observes_bind 1(2)) (auto intro: observes_bind observes_emit observes_ret split: sum.split)
  with 1 show ?case
    by (subst net_send_all.simps) (auto intro!: observes_bind observes_ret split: sum.split)
qed

lemma observes_net:
  assumes "data_posix P view"
  shows "observes view (os (px_malloc P))" "observes view (net_receive P fd n)" "observes view (net_send_all P fd bs)"
proof -
  show "observes view (os (px_malloc P))"
    using assms unfolding data_posix_def by (intro observes_os) blast
  have "observes view (os (px_recv P fd n))"
    using assms unfolding data_posix_def by (intro observes_os) blast
  then show "observes view (net_receive P fd n)" unfolding net_receive_def sys_recv_def
    by (rule observes_bind) (auto intro: observes_bind observes_emit observes_ret split: sum.split)
  show "observes view (net_send_all P fd bs)"
    using assms unfolding data_posix_def by (intro observes_send_all observes_os) blast
qed

lemma keeps_contents: "observes view m \<Longrightarrow> keeps (\<lambda>s. contents view path s = c) m any"
  by (simp add: observes_def leads_def keeps_def)

text \<open>
  What both directions keep track of: the data connection is \<open>d\<close>, the file holds \<open>c\<close>, and since the
  trace was \<open>tr0\<close> the bytes \<open>inn\<close> have been received and \<open>out\<close> sent on \<open>d\<close>.
\<close>

definition passed :: "('w \<Rightarrow> store) \<Rightarrow> string \<Rightarrow> int \<Rightarrow> os_event list \<Rightarrow> string option \<Rightarrow> string \<Rightarrow> string \<Rightarrow> 'w sys \<Rightarrow> bool" where
  "passed view path d tr0 c inn out s \<longleftrightarrow> s_data_socket (sess s) = d \<and> contents view path s = c \<and>
     (\<exists>tr. trace s = tr0 @ tr \<and> received d tr = inn \<and> sent d tr = out)"

lemma passed_start: "passed view path (s_data_socket (sess s)) (trace s) (contents view path s) [] [] s"
  by (simp add: passed_def)

lemma passed_step:
  assumes "passed view path d tr0 c inn out s" "s_data_socket (sess s') = d" "contents view path s' = c'"
    "trace s' = trace s @ tr" "received d tr = inn'" "sent d tr = out'"
  shows "passed view path d tr0 c' (inn @ inn') (out @ out') s'"
  using assms unfolding passed_def by auto

lemma passed_env:
  assumes "background d env" "leaves_file view path env"
  shows "keeps (passed view path d tr0 c inn out) (env i) any"
proof (rule keepsI)
  fix s assume p: "passed view path d tr0 c inn out s"
  then have d: "s_data_socket (sess s) = d" and c: "contents view path s = c" by (simp_all add: passed_def)
  obtain tr where "s_data_socket (sess (snd (run_state (env i) s))) = d"
    "trace (snd (run_state (env i) s)) = trace s @ tr" "received d tr = []" "sent d tr = []"
    using background_step [OF assms(1) d] by metis
  moreover have "contents view path (snd (run_state (env i) s)) = c"
    using assms(2) c unfolding leaves_file_def keeps_def by blast
  ultimately show "passed view path d tr0 c inn out (snd (run_state (env i) s)) \<and> any (fst (run_state (env i) s))"
    using passed_step [OF p] by fastforce
qed

lemma passed_does:
  assumes "does A m" "observes view m" and silent: "\<And>tr. set tr \<subseteq> A \<Longrightarrow> received d tr = [] \<and> sent d tr = []"
  shows "keeps (passed view path d tr0 c inn out) m any"
proof (rule keepsI)
  fix s assume p: "passed view path d tr0 c inn out s"
  let ?s = "snd (run_state m s)"
  obtain tr where "trace ?s = trace s @ tr" "set tr \<subseteq> A" using assms(1) unfolding does_def by blast
  moreover have "sess ?s = sess s" by (rule does_more(1) [OF assms(1)])
  moreover have "contents view path ?s = contents view path s"
    using keeps_contents [OF assms(2)] unfolding keeps_def by blast
  ultimately show "passed view path d tr0 c inn out ?s \<and> any (fst (run_state m s))"
    using passed_step [OF p, of ?s c tr "[]" "[]"] silent p by (simp add: passed_def)
qed

lemma passed_sess:
  assumes "\<And>s. s_data_socket (g s) = s_data_socket s"
  shows "keeps (passed view path d tr0 c inn out) (smod g) any"
  using assms by (simp add: keeps_def passed_def smod_def)

section \<open>Uploads\<close>

text \<open>
  What the texts \<open>ts\<close>, written one behind the other from the offset on, make of a file. An upload
  that writes nothing does not open the file.
\<close>

definition filled :: "nat \<Rightarrow> string list \<Rightarrow> string option \<Rightarrow> string option" where
  "filled off ts c0 = (if ts = [] then c0 else Some (overwrite off (concat ts) (old_contents c0)))"

lemma filled_Nil [simp]: "filled off [] c0 = c0"
  by (simp add: filled_def)

lemma filled_snoc: "filled off (ts @ [t]) c0 =
    Some (overwrite (off + length (concat ts)) t (old_contents (filled off ts c0)))"
  by (simp add: filled_def old_contents_def overwrite_append)

text \<open>The invariant of the loop: the file holds the chunks received but \<open>pend\<close>, which is still to be written.\<close>

definition uploaded :: "('w \<Rightarrow> store) \<Rightarrow> string \<Rightarrow> int \<Rightarrow> (string \<Rightarrow> string) \<Rightarrow> nat \<Rightarrow> string option \<Rightarrow> os_event list \<Rightarrow>
    string \<Rightarrow> string list \<Rightarrow> 'w sys \<Rightarrow> bool" where
  "uploaded view path d f off c0 tr0 pend chunks s \<longleftrightarrow> [] \<notin> set chunks \<and>
     passed view path d tr0 (filled off (map f chunks) c0) (concat chunks @ pend) [] s"

lemma uploaded_keeps:
  assumes "\<And>c inn. keeps (passed view path d tr0 c inn []) m any"
  shows "keeps (uploaded view path d f off c0 tr0 pend chunks) m any"
  using assms unfolding uploaded_def keeps_def by blast

lemma uploaded_env:
  "background d env \<Longrightarrow> leaves_file view path env \<Longrightarrow> keeps (uploaded view path d f off c0 tr0 pend chunks) (env i) any"
  by (intro uploaded_keeps passed_env)

lemma uploaded_receive:
  assumes D: "data_posix P view"
  shows "leads (uploaded view path d f off c0 tr0 [] chunks) (net_receive P d n)
    (\<lambda>r s. uploaded view path d f off c0 tr0 (case r of Inl _ \<Rightarrow> [] | Inr bs \<Rightarrow> bs) chunks s \<and>
       (case r of Inl _ \<Rightarrow> True | Inr bs \<Rightarrow> length bs \<le> n))"
  unfolding leads_def
proof (intro allI impI)
  fix s :: "'a sys" assume u: "uploaded view path d f off c0 tr0 [] chunks s"
  then have p: "passed view path d tr0 (filled off (map f chunks) c0) (concat chunks) [] s" "[] \<notin> set chunks"
    by (simp_all add: uploaded_def)
  let ?R = "run_state (net_receive P d n) s"
  have c: "contents view path (snd ?R) = filled off (map f chunks) c0"
    using keeps_contents [OF observes_net(2) [OF D]] p(1) unfolding keeps_def passed_def by blast
  have d: "s_data_socket (sess (snd ?R)) = d" using p(1) by (simp add: sess_frames passed_def)
  show "uploaded view path d f off c0 tr0 (case fst ?R of Inl _ \<Rightarrow> [] | Inr bs \<Rightarrow> bs) chunks (snd ?R) \<and>
      (case fst ?R of Inl _ \<Rightarrow> True | Inr bs \<Rightarrow> length bs \<le> n)"
  proof (cases rule: run_receive [of P d n s])
    case (1 e)
    then show ?thesis using passed_step [OF p(1) d c, of "[]"] p(2) by (simp add: uploaded_def)
  next
    case (2 bs)
    then show ?thesis using passed_step [OF p(1) d c, of "[Ev_recv d bs]" bs] p(2) by (simp add: uploaded_def)
  qed
qed

lemma uploaded_write:
  assumes F: "files_posix P view" and t: "t = f bs" and bs: "bs \<noteq> []"
    and pos: "pos = int off + int (length (concat (map f chunks)))"
  shows "leads (uploaded view path d f off c0 tr0 bs chunks) (fs_write_file_chunk P path t pos)
    (\<lambda>r s. r = int (length t) \<longrightarrow> uploaded view path d f off c0 tr0 [] (chunks @ [bs]) s)"
  unfolding leads_def
proof (intro allI impI)
  fix s :: "'a sys"
  let ?R = "run_state (fs_write_file_chunk P path t pos) s"
  assume u: "uploaded view path d f off c0 tr0 bs chunks s" and ok: "fst ?R = int (length t)"
  then have p: "passed view path d tr0 (filled off (map f chunks) c0) (concat chunks @ bs) [] s" "[] \<notin> set chunks"
    by (simp_all add: uploaded_def)
  have d: "s_data_socket (sess (snd ?R)) = d" using p(1) by (simp add: sess_frames passed_def)
  have "has_stored view (view (world s)) path (overwrite (nat pos) t (old_contents (contents view path s)))
      (int (length t)) (fst ?R) (snd ?R)"
    using leadsD [OF write_chunk_contents [OF F]] by blast
  with ok have "contents view path (snd ?R) = Some (overwrite (nat pos) t (old_contents (contents view path s)))"
    by (auto simp: has_stored_def)
  then have c: "contents view path (snd ?R) = filled off (map f (chunks @ [bs])) c0"
    using p(1) t pos filled_snoc [of off "map f chunks" "f bs" c0] by (simp add: passed_def nat_add_distrib nat_int_add)
  obtain tr where tr: "trace (snd ?R) = trace s @ tr" "received d tr = []" "sent d tr = []"
    using write_chunk_run [of P path t pos s d] by blast
  show "uploaded view path d f off c0 tr0 [] (chunks @ [bs]) (snd ?R)"
    using passed_step [OF p(1) d c tr] p(2) bs by (simp add: uploaded_def)
qed

text \<open>Where the upload ends: after an \<open>IO_ERROR\<close> the file may hold anything.\<close>

definition upload_ends :: "('w \<Rightarrow> store) \<Rightarrow> string \<Rightarrow> int \<Rightarrow> (string \<Rightarrow> string) \<Rightarrow> nat \<Rightarrow> string option \<Rightarrow> os_event list \<Rightarrow>
    transfer_status_t option \<Rightarrow> 'w sys \<Rightarrow> bool" where
  "upload_ends view path d f off c0 tr0 st s \<longleftrightarrow>
     st = Some TRANSFER_STATUS_IO_ERROR \<or> (\<exists>chunks. uploaded view path d f off c0 tr0 [] chunks s)"

lemma keeps_abort: "keeps I session_should_abort_transfer any" "keeps I failed_status any" "keeps I (sget g) any"
  by (simp_all add: keeps_def run_abort)

lemma sget_then:
  assumes "\<And>s. I s \<Longrightarrow> g (sess s) = x" "leads I (f x) J"
  shows "leads I (do { a \<leftarrow> sget g; f a }) J"
  using assms by (auto simp: leads_def run_abort)

lemma uploaded_write_then:
  assumes F: "files_posix P view" and bs: "bs \<noteq> []"
    and rest: "leads (uploaded view path d f off c0 tr0 [] (chunks @ [bs])) rest J" and fail: "\<And>s. J e s"
  shows "leads (uploaded view path d f off c0 tr0 bs chunks) (do {
      n \<leftarrow> fs_write_file_chunk P path (f bs) (int off + int (length (concat (map f chunks))));
      if n \<noteq> int (length (f bs)) then ret e else rest }) J"
proof (rule leads_seq [OF uploaded_write [OF F refl bs refl]])
  fix n
  show "leads (\<lambda>s. n = int (length (f bs)) \<longrightarrow> uploaded view path d f off c0 tr0 [] (chunks @ [bs]) s)
     (if n \<noteq> int (length (f bs)) then ret e else rest) J"
    using rest fail by (cases "n = int (length (f bs))") (simp_all add: leads_def)
qed

context chunk_conversion
begin

lemma upload_loop:
  fixes J :: "(transfer_status_t \<times> nat \<times> nat) option \<Rightarrow> 'w sys \<Rightarrow> bool" and view :: "'w \<Rightarrow> store"
    and off :: nat and c0 :: "string option" and tr0 :: "os_event list"
  assumes F: "files_posix P view" and D: "data_posix P view" and B: "background d env" and L: "leaves_file view path env"
  defines "J \<equiv> \<lambda>r. upload_ends view path d f off c0 tr0 (map_option fst r)"
  shows "leads (uploaded view path d f off c0 tr0 [] chunks)
    (receive_loop P env conv path fuel i (int off) totr (length (concat (map f chunks)))) J"
proof (induction fuel arbitrary: i totr chunks)
  case 0
  show ?case unfolding receive_loop.simps J_def upload_ends_def by (rule leads_ret) blast
next
  case (Suc fuel)
  let ?I = "uploaded view path d f off c0 tr0"
  have stop: "leads (?I [] chunks) (ret (r :: (transfer_status_t \<times> nat \<times> nat) option)) J" for r
    unfolding J_def upload_ends_def by (rule leads_ret) blast
  show ?case unfolding receive_loop.simps
  proof (rule leads_bind [OF uploaded_env [OF B L]], rule leads_bind [OF keeps_abort(1)], rule leads_if [OF stop],
      rule sget_then [where x = d], goal_cases)
    case 2
    show ?case
    proof (rule leads_const [OF uploaded_receive [OF D]], rule leads_bind [OF uploaded_env [OF B L]], goal_cases)
      case (1 r)
      show ?case
      proof (cases r)
        case (Inl e)
        then show ?thesis using leads_bind [OF keeps_abort(2) stop] by simp
      next
        case (Inr bs)
        show ?thesis
        proof (cases "bs = []")
          case True
          then show ?thesis using leads_bind [OF keeps_abort(1) stop] Inr by simp
        next
          case False
          have fail: "J (Some (TRANSFER_STATUS_IO_ERROR, totr + length bs, length (concat (map f chunks)))) s" for s
            by (simp add: J_def upload_ends_def)
          have rest: "leads (?I [] (chunks @ [bs])) (receive_loop P env conv path fuel (i + 1) (int off)
              (totr + length bs) (length (concat (map f chunks)) + length (f bs))) J"
            using Suc.IH [of "chunks @ [bs]" "i + 1" "totr + length bs"] by simp
          show ?thesis using uploaded_write_then [OF F False rest fail] Inr False conv [of bs] 1 by simp
        qed
      qed
    qed
  qed (simp add: uploaded_def passed_def)
qed

end

text \<open>Around the loop an upload checks the data connection, allocates its buffers and counts.\<close>

lemma passed_silent: "does {} m \<Longrightarrow> observes view m \<Longrightarrow> keeps (passed view path d tr0 c inn out) m any"
  by (rule passed_does) auto

lemma uploaded_silent:
  "does {} m \<Longrightarrow> observes view m \<Longrightarrow> keeps (uploaded view path d f off c0 tr0 pend chunks) m any"
  by (intro uploaded_keeps passed_silent)

lemma uploaded_count: "keeps (uploaded view path d f off c0 tr0 pend chunks) (count_upload n) any"
  unfolding count_upload_def by (intro uploaded_keeps passed_sess) simp

context chunk_conversion
begin

lemma upload_contents:
  fixes alloc :: "('w, bool) sys_m" and view :: "'w \<Rightarrow> store"
  assumes F: "files_posix P view" and D: "data_posix P view" and B: "background d env" and L: "leaves_file view path env"
    and A: "does {} alloc" "observes view alloc"
  shows "leads (uploaded view path d f off c0 tr0 [] []) (do {
       d \<leftarrow> sget s_data_socket;
       if d = INVALID_SOCKET_T then ret (Some TRANSFER_STATUS_CONN_ERROR)
       else do {
         ok \<leftarrow> alloc;
         if \<not> ok then ret (Some TRANSFER_STATUS_INTERNAL_ERROR)
         else do {
           r \<leftarrow> receive_loop P env conv path fuel 0 (int off) 0 0;
           (case r of
              None \<Rightarrow> ret None
            | Some (st, total_received, _) \<Rightarrow> do {
                (if st = TRANSFER_STATUS_OK then count_upload total_received else ret ());
                ret (Some st) }) } } })
    (upload_ends view path d f off c0 tr0)" (is "leads ?I _ ?J")
proof -
  have stop: "leads ?I (ret r) ?J" for r by (rule leads_ret) (auto simp: upload_ends_def)
  have count: "keeps (?J r) (count_upload n) any" for r n
    using uploaded_count [of view path d f off c0 tr0 "[]" _ n] unfolding upload_ends_def keeps_def by auto
  show ?thesis
    by (rule leads_bind [OF keeps_abort(3)], rule leads_if [OF stop], rule leads_bind [OF uploaded_silent [OF A]],
        rule leads_if [OF stop], rule leads_seq [OF upload_loop [OF F D B L, where chunks = "[]", simplified]])
      (auto split: option.split intro!: leads_ret leads_bind [OF count])
qed

end

lemma upload_starts: "uploaded view path (s_data_socket (sess s)) f off (contents view path s) (trace s) [] [] s"
  by (simp add: uploaded_def passed_start)

lemma receive_binary_contents:
  fixes s :: "'w sys"
  assumes "files_posix P view" "data_posix P view" "background (s_data_socket (sess s)) env" "leaves_file view path env"
  shows "upload_ends view path (s_data_socket (sess s)) id off (contents view path s) (trace s)
    (fst (run_state (transfer_receive_file P env fuel path (int off)) s))
    (snd (run_state (transfer_receive_file P env fuel path (int off)) s))"
  unfolding transfer_receive_file_def
  by (rule leadsD [OF binary.upload_contents [OF assms does_os observes_net(1) [OF assms(2)]] upload_starts])

lemma receive_ascii_contents:
  fixes s :: "'w sys"
  assumes "files_posix P view" "data_posix P view" "background (s_data_socket (sess s)) env" "leaves_file view path env"
  shows "upload_ends view path (s_data_socket (sess s)) unix_text off (contents view path s) (trace s)
    (fst (run_state (transfer_receive_file_ascii P env fuel path (int off)) s))
    (snd (run_state (transfer_receive_file_ascii P env fuel path (int off)) s))"
proof -
  let ?alloc = "do { ok1 \<leftarrow> os (px_malloc P); ok2 \<leftarrow> os (px_malloc P); ret (ok1 \<and> ok2) } :: ('w, bool) sys_m"
  have "does {} ?alloc" by (intro doing)
  moreover have "observes view ?alloc" by (intro observes_bind observes_ret observes_net(1) [OF assms(2)])
  ultimately show ?thesis
    using leadsD [OF from_net.upload_contents [OF assms, of ?alloc] upload_starts]
    by (simp add: transfer_receive_file_ascii_def cong: if_cong)
qed

section \<open>Downloads\<close>

lemma passed_read:
  assumes F: "files_posix P view"
  shows "leads (passed view path d tr0 (Some c) inn out) (fs_read_file_chunk P path (int pos) len)
    (\<lambda>r s. passed view path d tr0 (Some c) inn out s \<and> (\<forall>bs. r = Some bs \<longrightarrow> bs = take len (drop pos c)))"
  unfolding leads_def
proof (intro allI impI)
  fix s :: "'a sys"
  let ?R = "run_state (fs_read_file_chunk P path (int pos) len) s"
  assume p: "passed view path d tr0 (Some c) inn out s"
  have h: "has_contents view (view (world s)) path pos len (fst ?R) (snd ?R)"
    using leadsD [OF read_chunk_contents [OF F]] by (metis nat_int)
  then have c: "contents view path (snd ?R) = Some c" using p by (simp add: has_contents_def passed_def)
  have d: "s_data_socket (sess (snd ?R)) = d" using p by (simp add: sess_frames passed_def)
  obtain tr where tr: "trace (snd ?R) = trace s @ tr" "received d tr = []" "sent d tr = []"
    using read_chunk_run [of P path "int pos" len s d] by blast
  show "passed view path d tr0 (Some c) inn out (snd ?R) \<and> (\<forall>bs. fst ?R = Some bs \<longrightarrow> bs = take len (drop pos c))"
    using passed_step [OF p d c tr] h p by (simp add: has_contents_def passed_def)
qed

lemma passed_send:
  assumes D: "data_posix P view"
  shows "leads (passed view path d tr0 c inn out) (net_send_all P d t)
    (\<lambda>r s. \<exists>n. passed view path d tr0 c inn (out @ take n t) s \<and> (r = 0 \<longrightarrow> n = length t))"
  unfolding leads_def
proof (intro allI impI)
  fix s :: "'a sys"
  let ?R = "run_state (net_send_all P d t) s"
  assume p: "passed view path d tr0 c inn out s"
  have c: "contents view path (snd ?R) = c"
    using keeps_contents [OF observes_net(3) [OF D]] p unfolding keeps_def passed_def by blast
  have d: "s_data_socket (sess (snd ?R)) = d" using p by (simp add: sess_frames passed_def)
  obtain tr n where tr: "trace (snd ?R) = trace s @ tr" "set tr \<subseteq> range (Ev_send d)" "sent d tr = take n t"
    "fst ?R = 0 \<longrightarrow> n = length t"
    using net_send_all_run [of P d t s] by fastforce
  show "\<exists>n. passed view path d tr0 c inn (out @ take n t) (snd ?R) \<and> (fst ?R = 0 \<longrightarrow> n = length t)"
    using passed_step [OF p d c tr(1) only_sends(1) [OF tr(2)] tr(3)] tr(4) by auto
qed

text \<open>Where the download ends: a prefix of the text has been sent, all of it when the status is OK.\<close>

definition download_ends :: "('w \<Rightarrow> store) \<Rightarrow> string \<Rightarrow> int \<Rightarrow> os_event list \<Rightarrow> string \<Rightarrow> string \<Rightarrow> transfer_status_t \<Rightarrow> 'w sys \<Rightarrow> bool" where
  "download_ends view path d tr0 c whole st s \<longleftrightarrow>
     (\<exists>n. passed view path d tr0 (Some c) [] (take n whole) s \<and> (st = TRANSFER_STATUS_OK \<longrightarrow> length whole \<le> n))"

lemma download_fails:
  "st \<noteq> TRANSFER_STATUS_OK \<Longrightarrow> passed view path d tr0 (Some c) [] (take n whole) s \<Longrightarrow> download_ends view path d tr0 c whole st s"
  unfolding download_ends_def by blast

lemma failed_status_fails: "leads I failed_status (\<lambda>st s. I s \<and> st \<noteq> TRANSFER_STATUS_OK)"
  by (simp add: leads_def run_abort)

context text_conversion
begin

lemma f_take: "f (take k x) = take (length (f (take k x))) (f x)"
  using f_append [of "take k x" "drop k x"] by (metis append_eq_conv_conj append_take_drop_id)

lemma send_then:
  assumes D: "data_posix P view" and B: "background d env" and L: "leaves_file view path env"
    and whole: "whole = out @ t @ later"
    and rest: "leads (passed view path d tr0 (Some c) [] (out @ t)) rest (\<lambda>r. download_ends view path d tr0 c whole (fst r))"
  shows "leads (passed view path d tr0 (Some c) [] out) (do {
      sock \<leftarrow> sget s_data_socket;
      r \<leftarrow> net_send_all P sock t;
      if r \<noteq> 0 then do { env j; st \<leftarrow> failed_status; ret (st, tot) } else rest })
    (\<lambda>r. download_ends view path d tr0 c whole (fst r))" (is "leads _ _ ?J")
proof (rule sget_then [where x = d], goal_cases)
  case 2
  show ?case
  proof (rule leads_seq [OF passed_send [OF D]])
    fix r
    have stop: "leads (passed view path d tr0 (Some c) [] (out @ take n t)) (do { env j; st \<leftarrow> failed_status; ret (st, tot) }) ?J" for n
    proof (rule leads_bind [OF passed_env [OF B L]], rule leads_seq [OF failed_status_fails], rule leads_ret)
      fix st s assume "passed view path d tr0 (Some c) [] (out @ take n t) s \<and> st \<noteq> TRANSFER_STATUS_OK"
      moreover have "out @ take n t = take (length out + min n (length t)) whole" unfolding whole by (simp add: min_def)
      ultimately show "?J (st, tot) s" by (metis download_fails fst_conv)
    qed
    show "leads (\<lambda>s. \<exists>n. passed view path d tr0 (Some c) [] (out @ take n t) s \<and> (r = 0 \<longrightarrow> n = length t))
        (if r \<noteq> 0 then do { env j; st \<leftarrow> failed_status; ret (st, tot) } else rest) ?J"
      using stop rest by (cases "r = 0") (auto simp: leads_def)
  qed
qed (simp add: passed_def)

lemma download_loop:
  fixes view :: "'w \<Rightarrow> store" and P :: "'w posix" and tr0 :: "os_event list"
  assumes F: "files_posix P view" and D: "data_posix P view" and B: "background d env" and L: "leaves_file view path env"
    and "off + k \<le> length c"
  shows "leads (passed view path d tr0 (Some c) [] (f (take k (drop off c))))
    (send_loop P env conv path i (int off + int k) (int (length c) - int off - int k) tot)
    (\<lambda>r. download_ends view path d tr0 c (f (drop off c)) (fst r))"
  using assms(5)
proof (induction "length c - k" arbitrary: i k tot rule: less_induct)
  case less
  let ?I = "passed view path d tr0 (Some c) [] (f (take k (drop off c)))" and ?J = "\<lambda>r. download_ends view path d tr0 c (f (drop off c)) (fst r)"
  let ?rem = "int (length c) - int off - int k"
  have part: "f (take k (drop off c)) = take (length (f (take k (drop off c)))) (f (drop off c))" by (rule f_take)
  have stop: "leads ?I (ret (st, n)) ?J" if "st \<noteq> TRANSFER_STATUS_OK" for st and n :: nat
    using that part by (intro leads_ret) (metis download_fails fst_conv)
  show ?case
  proof (cases "?rem > 0")
    case False
    then have "take k (drop off c) = drop off c" using less.prems by simp
    then have "\<And>s. ?I s \<Longrightarrow> ?J (TRANSFER_STATUS_OK, tot) s"
      unfolding download_ends_def by (auto intro!: exI [of _ "length (f (drop off c))"])
    then show ?thesis using False by (subst send_loop.simps) (simp add: leads_def)
  next
    case True
    let ?len = "nat (min ?rem (int TRANSFER_BUFFER_SIZE))"
    have "leads ?I (do {
        r \<leftarrow> fs_read_file_chunk P path (int off + int k) ?len;
        (case r of
           None \<Rightarrow> ret (TRANSFER_STATUS_IO_ERROR, tot)
         | Some bs \<Rightarrow> if length bs = 0 then ret (TRANSFER_STATUS_IO_ERROR, tot)
             else (case conv bs of
                None \<Rightarrow> ret (TRANSFER_STATUS_INTERNAL_ERROR, tot)
              | Some out \<Rightarrow> do {
                  sock \<leftarrow> sget s_data_socket;
                  r \<leftarrow> net_send_all P sock out;
                  if r \<noteq> 0 then do { env (2 * i + 1); st \<leftarrow> failed_status; ret (st, tot) }
                  else send_loop P env conv path (i + 1) (int off + int k + int (length bs))
                         (?rem - int (length bs)) (tot + length out) })) }) ?J"
    proof (rule leads_const [OF passed_read [OF F, where pos = "off + k", unfolded of_nat_add]], goal_cases)
      case (1 r)
      show ?case
      proof (cases "r = None \<or> r = Some []")
        case True
        then show ?thesis using stop by auto
      next
        case False
        then obtain bs where r: "r = Some bs" "bs \<noteq> []" by auto
        then have bs: "bs = take ?len (drop (off + k) c)" using 1 by simp
        have le: "length bs \<le> TRANSFER_BUFFER_SIZE" "off + (k + length bs) \<le> length c" using bs less.prems by auto
        have dec: "length c - (k + length bs) < length c - k" using True r(2) by (simp add: diff_less_mono2)
        have take: "take (k + length bs) (drop off c) = take k (drop off c) @ bs"
          using bs by (simp add: take_add add.commute)
        have whole: "f (drop off c) = f (take k (drop off c)) @ f bs @ f (drop (k + length bs) (drop off c))"
          by (metis append_assoc append_take_drop_id f_append take)
        have "leads (passed view path d tr0 (Some c) [] (f (take k (drop off c)) @ f bs))
            (send_loop P env conv path (i + 1) (int off + int k + int (length bs)) (?rem - int (length bs)) (tot + length (f bs))) ?J"
          using less.hyps [OF dec le(2), of "i + 1" "tot + length (f bs)"]
          by (simp add: take f_append algebra_simps)
        note send_then [OF D B L whole this]
        then show ?thesis using r conv [OF le(1)] by simp
      qed
    qed
    then show ?thesis using True
      by (subst send_loop.simps) (auto intro!: leads_bind [OF passed_env [OF B L]] leads_bind [OF keeps_abort(1)] stop)
  qed
qed

end

text \<open>Before the loop a download looks at the file and allocates its buffers.\<close>

lemma passed_file_size:
  assumes D: "data_posix P view"
  shows "leads (passed view path d tr0 c0 inn out) (fs_get_file_size P path)
    (\<lambda>n s. passed view path d tr0 c0 inn out s \<and> (0 \<le> n \<longrightarrow> (\<exists>c. c0 = Some c \<and> n = int (length c))))"
  unfolding leads_def
proof (intro allI impI)
  fix s :: "'a sys"
  let ?st = "run_state (px_stat P path) (world s)" and ?R = "run_state (fs_get_file_size P path) s"
  assume p: "passed view path d tr0 c0 inn out s"
  have st: "view (snd ?st) = view (world s)" "\<forall>st. fst ?st = Some st \<longrightarrow> S_ISREG (st_mode st) \<longrightarrow>
      (\<exists>c. files (view (world s)) path = Some c \<and> st_size st = int (length c))"
    using D unfolding data_posix_def leads_def by blast+
  have "passed view path d tr0 c0 (inn @ []) (out @ []) (snd ?R)"
    by (rule passed_step [OF p, of _ _ "[Ev_path Op_stat path]"]) (use p st(1) in \<open>simp_all add: run_file_size passed_def\<close>)
  then show "passed view path d tr0 c0 inn out (snd ?R) \<and> (0 \<le> fst ?R \<longrightarrow> (\<exists>c. c0 = Some c \<and> fst ?R = int (length c)))"
    using p st(2) by (auto simp: run_file_size passed_def split: option.splits)
qed

definition downloaded :: "('w \<Rightarrow> store) \<Rightarrow> string \<Rightarrow> int \<Rightarrow> (string \<Rightarrow> string) \<Rightarrow> nat \<Rightarrow> string option \<Rightarrow> os_event list \<Rightarrow>
    transfer_status_t \<Rightarrow> 'w sys \<Rightarrow> bool" where
  "downloaded view path d f off c0 tr0 st s \<longleftrightarrow>
     (\<exists>n. passed view path d tr0 c0 [] (take n (f (drop off (old_contents c0)))) s \<and>
        (st = TRANSFER_STATUS_OK \<longrightarrow> (\<exists>c. c0 = Some c \<and> off \<le> length c \<and> length (f (drop off c)) \<le> n)))"

context text_conversion
begin

lemma download_contents:
  fixes alloc :: "('w, bool) sys_m" and view :: "'w \<Rightarrow> store"
  assumes F: "files_posix P view" and D: "data_posix P view" and B: "background d env" and L: "leaves_file view path env"
    and A: "does {} alloc" "observes view alloc"
  shows "leads (passed view path d tr0 c0 [] []) (do {
       d \<leftarrow> sget s_data_socket;
       if d = INVALID_SOCKET_T then ret TRANSFER_STATUS_CONN_ERROR
       else do {
         file_size \<leftarrow> fs_get_file_size P path;
         if file_size < 0 then ret TRANSFER_STATUS_IO_ERROR
         else if int off > file_size then ret TRANSFER_STATUS_IO_ERROR
         else do {
           ok \<leftarrow> alloc;
           if \<not> ok then ret TRANSFER_STATUS_INTERNAL_ERROR
           else do {
             (st, total_sent) \<leftarrow> send_loop P env conv path 0 (int off) (file_size - int off) 0;
             (if st = TRANSFER_STATUS_OK then count_download total_sent else ret ());
             ret st } } } })
    (downloaded view path d f off c0 tr0)" (is "leads ?I _ ?J")
proof -
  have stop: "leads ?I (ret st) ?J" if "st \<noteq> TRANSFER_STATUS_OK" for st
    using that by (intro leads_ret) (auto simp: downloaded_def intro!: exI [of _ "0 :: nat"])
  have loop: "leads (passed view path d tr0 (Some c) [] []) (do {
        (st, total_sent) \<leftarrow> send_loop P env conv path 0 (int off) (int (length c) - int off) 0;
        (if st = TRANSFER_STATUS_OK then count_download total_sent else ret ());
        ret st }) (downloaded view path d f off (Some c) tr0)" if le: "off \<le> length c" for c
  proof (rule leads_seq)
    show "leads (passed view path d tr0 (Some c) [] []) (send_loop P env conv path 0 (int off) (int (length c) - int off) 0)
        (\<lambda>r. download_ends view path d tr0 c (f (drop off c)) (fst r))"
      using download_loop [OF F D B L, of off 0 c] le f_Nil by simp
    fix r :: "transfer_status_t \<times> nat"
    have count: "keeps (download_ends view path d tr0 c whole st) (count_download n) any" for whole st n
      using passed_sess [of "\<lambda>s. s\<lparr>s_bytes_downloaded := s_bytes_downloaded s + of_nat n, s_files_downloaded := s_files_downloaded s + 1\<rparr>"
          view path d tr0 "Some c" "[]"]
      unfolding count_download_def download_ends_def keeps_def by fastforce
    have fin: "leads (download_ends view path d tr0 c (f (drop off c)) st) (ret st) (downloaded view path d f off (Some c) tr0)" for st
      using le by (intro leads_ret) (auto simp: downloaded_def download_ends_def old_contents_def)
    show "leads (download_ends view path d tr0 c (f (drop off c)) (fst r)) (case r of (st, total_sent) \<Rightarrow> do {
        (if st = TRANSFER_STATUS_OK then count_download total_sent else ret ()); ret st })
        (downloaded view path d f off (Some c) tr0)"
      by (cases r) (auto intro: leads_bind [OF count fin] fin)
  qed
  show ?thesis
  proof (rule leads_bind [OF keeps_abort(3)], rule leads_if [OF stop], simp, rule leads_const [OF passed_file_size [OF D]], goal_cases)
    case (1 x n)
    show ?case
    proof (cases "n < 0 \<or> int off > n")
      case True
      then show ?thesis using stop [of TRANSFER_STATUS_IO_ERROR] by auto
    next
      case False
      with 1 obtain c where c: "c0 = Some c" "n = int (length c)" by auto
      then show ?thesis using False loop [of c] stop [of TRANSFER_STATUS_INTERNAL_ERROR]
        by (auto intro!: leads_bind [OF passed_silent [OF A]] leads_if)
    qed
  qed
qed

end

lemma send_binary_contents:
  fixes s :: "'w sys"
  assumes "files_posix P view" "data_posix P view" "background (s_data_socket (sess s)) env" "leaves_file view path env"
  shows "downloaded view path (s_data_socket (sess s)) id off (contents view path s) (trace s)
    (fst (run_state (transfer_send_file P env path (int off)) s)) (snd (run_state (transfer_send_file P env path (int off)) s))"
  unfolding transfer_send_file_def
  by (rule leadsD [OF binary.download_contents [OF assms does_os observes_net(1) [OF assms(2)]] passed_start])

lemma send_ascii_contents:
  fixes s :: "'w sys"
  assumes "files_posix P view" "data_posix P view" "background (s_data_socket (sess s)) env" "leaves_file view path env"
  shows "downloaded view path (s_data_socket (sess s)) net_text off (contents view path s) (trace s)
    (fst (run_state (transfer_send_file_ascii P env path (int off)) s))
    (snd (run_state (transfer_send_file_ascii P env path (int off)) s))"
proof -
  let ?alloc = "do { ok1 \<leftarrow> os (px_malloc P); ok2 \<leftarrow> os (px_malloc P); ret (ok1 \<and> ok2) } :: ('w, bool) sys_m"
  have "does {} ?alloc" by (intro doing)
  moreover have "observes view ?alloc" by (intro observes_bind observes_ret observes_net(1) [OF assms(2)])
  ultimately show ?thesis
    using leadsD [OF to_net.download_contents [OF assms, of ?alloc] passed_start]
    by (simp add: transfer_send_file_ascii_def cong: if_cong)
qed

section \<open>The transfer thread\<close>

lemma run_transfer_uploads:
  assumes "files_posix P view" "data_posix P view" "background (s_data_socket (sess s)) env" "leaves_file view path env"
    and p: "tp_operation p = TRANSFER_OP_RECV_FILE" "tp_filepath p = path" "tp_offset p = int off"
  shows "upload_ends view path (s_data_socket (sess s)) (if tp_type p = PROTO_TYPE_ASCII then unix_text else id) off
    (contents view path s) (trace s) (fst (run_state (run_transfer P env fuel p) s)) (snd (run_state (run_transfer P env fuel p) s))"
  using receive_binary_contents [OF assms(1-4), of off fuel] receive_ascii_contents [OF assms(1-4), of off fuel] p
  by (simp add: run_transfer_def)

lemma run_transfer_downloads:
  assumes "files_posix P view" "data_posix P view" "background (s_data_socket (sess s)) env" "leaves_file view path env"
    and p: "tp_operation p = TRANSFER_OP_SEND_FILE" "tp_filepath p = path" "tp_offset p = int off"
  obtains st where "fst (run_state (run_transfer P env fuel p) s) = Some st"
    "downloaded view path (s_data_socket (sess s)) (if tp_type p = PROTO_TYPE_ASCII then net_text else id) off
      (contents view path s) (trace s) st (snd (run_state (run_transfer P env fuel p) s))"
  using send_binary_contents [OF assms(1-4), of off] send_ascii_contents [OF assms(1-4), of off] p
  by (cases "tp_type p = PROTO_TYPE_ASCII") (simp_all add: run_transfer_def case_prod_beta)

text \<open>Once the transfer is over, the thread closes the data connection and answers.\<close>

definition on_file :: "('w \<Rightarrow> store) \<Rightarrow> string \<Rightarrow> int \<Rightarrow> os_event list \<Rightarrow> string option \<Rightarrow> string \<Rightarrow> 'w sys \<Rightarrow> bool" where
  "on_file view path d tr0 c inn s \<longleftrightarrow> contents view path s = c \<and> (\<exists>tr. trace s = tr0 @ tr \<and> received d tr = inn)"

lemma on_file_does:
  assumes "does A m" "keeps (\<lambda>s. contents view path s = c) m any" "A \<subseteq> range (\<lambda>(fd, bs). Ev_send fd bs) \<union> range Ev_close"
  shows "keeps (on_file view path d tr0 c inn) m any"
proof (rule keepsI)
  fix s assume h: "on_file view path d tr0 c inn s"
  obtain tr where tr: "trace (snd (run_state m s)) = trace s @ tr" "set tr \<subseteq> A" using assms(1) unfolding does_def by blast
  have "received d tr = []" using subset_trans [OF tr(2) assms(3)] by (induction tr) auto
  moreover have "contents view path (snd (run_state m s)) = c" using assms(2) h unfolding keeps_def on_file_def by blast
  ultimately show "on_file view path d tr0 c inn (snd (run_state m s)) \<and> any (fst (run_state m s))"
    using h tr(1) by (auto simp: on_file_def)
qed

lemma on_file_free: "keeps (on_file view path d tr0 c inn) (smod g) any" "keeps (on_file view path d tr0 c inn) (sget k) any"
  "keeps (on_file view path d tr0 c inn) (unlock_exclusive q) any" "keeps (on_file view path d tr0 c inn) (unlock_shared q) any"
  "keeps (on_file view path d tr0 c inn) (ret a) any"
  by (simp_all add: keeps_def on_file_def smod_def sget_def unlock_exclusive_def unlock_shared_def)

lemma on_file_bind:
  "keeps (on_file view path d tr0 c inn) m any \<Longrightarrow> (\<And>a. keeps (on_file view path d tr0 c inn) (f a) any) \<Longrightarrow>
    keeps (on_file view path d tr0 c inn) (State_Monad.bind m f) any"
  by (rule keeps_bind)

lemma on_file_calls:
  assumes F: "files_posix P view" and D: "data_posix P view"
  shows "keeps (on_file view path d tr0 c inn) (session_close_data_connection P) any"
    "keeps (on_file view path d tr0 c inn) (session_send_response P code msg) any"
proof -
  have "observes view (os (px_shutdown P fd Shut_rdwr) :: ('a, 'b, bool) os_m)" for fd
    using D unfolding data_posix_def by (intro observes_os) blast
  then have "keeps (\<lambda>s. contents view path s = c) (net_shutdown_both P fd :: ('a, int) sys_m) any" for fd
    unfolding net_shutdown_both_def by (intro keeps_contents observes_bind observes_ret)
  then have shutdown: "keeps (on_file view path d tr0 c inn) (net_shutdown_both P fd :: ('a, int) sys_m) any" for fd
    by (intro on_file_does [where A = "{}"]) (auto intro!: doing)
  have "keeps (\<lambda>s. contents view path s = c) (net_close_socket P fd :: ('a, unit) sys_m) any" for fd
    unfolding net_close_socket_def
  proof (rule keepsI)
    fix s :: "'a sys" assume "contents view path s = c"
    moreover have "closes view fd (sys_close P fd :: ('a, unit) sys_m)" by (rule posix_others(2) [OF F])
    ultimately show "contents view path (snd (run_state (sys_close P fd) s)) = c \<and> any (fst (run_state (sys_close P fd) s))"
      unfolding closes_def leads_def by (metis store_simps(5))
  qed
  then have close: "keeps (on_file view path d tr0 c inn) (net_close_socket P fd :: ('a, unit) sys_m) any" for fd
    by (intro on_file_does [where A = "{Ev_close fd}"]) (auto intro!: doing)
  show "keeps (on_file view path d tr0 c inn) (session_close_data_connection P) any"
    unfolding session_close_data_connection_def by (intro on_file_bind keeps_if on_file_free shutdown close)
  show "keeps (on_file view path d tr0 c inn) (session_send_response P code msg) any"
    unfolding session_send_response_def
    by (intro keeps_option on_file_bind on_file_free,
        rule on_file_does [OF does_net_send_all [OF subset_refl] keeps_contents [OF observes_net(3) [OF D]]]) auto
qed

lemma finish_holds:
  assumes F: "files_posix P view" and D: "data_posix P view"
  shows "leads (on_file view path d tr0 c inn) (finish_transfer P p st)
    (\<lambda>_ s. on_file view path d tr0 c inn s \<and> s_transfer_result (sess s) = st)"
proof -
  let ?I = "on_file view path d tr0 c inn" and ?J = "\<lambda>s. on_file view path d tr0 c inn s \<and> s_transfer_result (sess s) = st"
  have reply: "keeps ?I (send_completion P st) any"
    unfolding send_completion_def session_clear_transfer_should_abort_def
    by (cases st) (auto intro!: on_file_bind keeps_if on_file_free on_file_calls [OF F D])
  have result: "leads ?I (smod (\<lambda>s. s\<lparr>s_transfer_result := st\<rparr>)) (\<lambda>_. ?J)"
    by (simp add: leads_def on_file_def smod_def)
  have rest: "keeps ?J session_clear_transfer_in_progress any" "keeps ?J (release_transfer_lock p) any"
    "keeps ?J (smod (\<lambda>s. s\<lparr>s_transfer_params := None\<rparr>)) any" "keeps ?J (session_set_transfer_thread_state x) any" for x
    by (auto simp: keeps_def on_file_def smod_def session_clear_transfer_in_progress_def release_transfer_lock_def
        unlock_exclusive_def unlock_shared_def session_set_transfer_thread_state_def)
  show ?thesis unfolding finish_transfer_def
    by (rule leads_bind [OF on_file_calls(1) [OF F D]], rule leads_bind [OF reply], rule leads_seq [OF result],
        (rule leads_bind [OF rest(1)] leads_bind [OF rest(2)] leads_bind [OF rest(3)] leads_bind [OF keeps_if [OF rest(4) rest(4)]]
          leads_bind [OF rest(4)])+, rule leads_ret) simp
qed

lemma thread_uploads:
  assumes F: "files_posix P view" and D: "data_posix P view" and B: "background (s_data_socket (sess s)) env"
    and L: "leaves_file view path env"
    and p: "s_transfer_params (sess s) = Some p" "tp_operation p = TRANSFER_OP_RECV_FILE" "tp_filepath p = path" "tp_offset p = int off"
    and run: "run_state (transfer_thread_func P env fuel) s = (True, s')" and ok: "s_transfer_result (sess s') \<noteq> TRANSFER_STATUS_IO_ERROR"
  obtains chunks where "[] \<notin> set chunks" "on_file view path (s_data_socket (sess s)) (trace s)
    (filled off (map (if tp_type p = PROTO_TYPE_ASCII then unix_text else id) chunks) (contents view path s)) (concat chunks) s'"
proof -
  define s1 where "s1 = s\<lparr>sess := (sess s)\<lparr>s_transfer_thread_state := TRANSFER_THREAD_RUNNING, s_transfer_in_progress := True\<rparr>\<rparr>"
  let ?R = "run_state (run_transfer P env fuel p) s1"
  have same: "s_data_socket (sess s1) = s_data_socket (sess s)" "world s1 = world s" "trace s1 = trace s"
    by (simp_all add: s1_def)
  have "run_state (transfer_thread_func P env fuel) s = (case fst ?R of None \<Rightarrow> (False, snd ?R)
      | Some st \<Rightarrow> run_state (finish_transfer P p st) (snd ?R))"
    using p(1) by (simp add: transfer_thread_func_def session_set_transfer_thread_state_def session_set_transfer_in_progress_def
        smod_def run_abort s1_def case_prod_beta split: option.split)
  with run obtain st where st: "fst ?R = Some st" "run_state (finish_transfer P p st) (snd ?R) = (True, s')"
    by (cases "fst ?R") auto
  have fin: "on_file view path d tr0 c inn (snd ?R) \<Longrightarrow> on_file view path d tr0 c inn s' \<and> s_transfer_result (sess s') = st" for d tr0 c inn
    using leadsD [OF finish_holds [OF F D]] st(2) by (metis (no_types, lifting) snd_conv)
  have "on_file view path 0 (trace (snd ?R)) (contents view path (snd ?R)) [] (snd ?R)" by (simp add: on_file_def)
  then have "st \<noteq> TRANSFER_STATUS_IO_ERROR" using fin ok by blast
  then obtain chunks where "uploaded view path (s_data_socket (sess s))
      (if tp_type p = PROTO_TYPE_ASCII then unix_text else id) off (contents view path s) (trace s) [] chunks (snd ?R)"
    using run_transfer_uploads [OF F D _ L p(2-4), of s1 fuel] B st(1) by (auto simp: upload_ends_def same)
  then have "[] \<notin> set chunks" and "on_file view path (s_data_socket (sess s)) (trace s)
      (filled off (map (if tp_type p = PROTO_TYPE_ASCII then unix_text else id) chunks) (contents view path s)) (concat chunks) (snd ?R)"
    unfolding uploaded_def passed_def on_file_def by auto
  then show ?thesis using that fin by blast
qed

text \<open>
  C4: an acknowledged upload is stored. Let the system keep its documentation and the control thread
  leave the data connection and the file alone. When the thread of an upload has ended with a status
  other than \<open>IO_ERROR\<close>, in particular when it has answered 226, the file holds what it held before,
  overwritten from the offset on by the chunks received on the data connection, in ASCII each
  converted for itself; an upload that received nothing leaves the file as it was.
\<close>

theorem upload_stored:
  assumes "files_posix P view" "data_posix P view" "background (s_data_socket (sess s)) env"
    and "leaves_file view (tp_filepath p) env"
    and "s_transfer_params (sess s) = Some p" "tp_operation p = TRANSFER_OP_RECV_FILE" "tp_offset p = int off"
    and "run_state (transfer_thread_func P env fuel) s = (True, s')" "s_transfer_result (sess s') \<noteq> TRANSFER_STATUS_IO_ERROR"
  shows "\<exists>tr chunks. trace s' = trace s @ tr \<and> received (s_data_socket (sess s)) tr = concat chunks \<and> [] \<notin> set chunks \<and>
     contents view (tp_filepath p) s' =
       (if chunks = [] then contents view (tp_filepath p) s
        else Some (overwrite off (concat (map (if tp_type p = PROTO_TYPE_ASCII then unix_text else id) chunks))
               (old_contents (contents view (tp_filepath p) s))))"
proof -
  from thread_uploads [OF assms(1-6) refl assms(7-9)] obtain chunks where
    "[] \<notin> set chunks" "on_file view (tp_filepath p) (s_data_socket (sess s)) (trace s)
      (filled off (map (if tp_type p = PROTO_TYPE_ASCII then unix_text else id) chunks) (contents view (tp_filepath p) s))
      (concat chunks) s'" .
  then show ?thesis unfolding on_file_def filled_def by auto
qed

text \<open>
  C5: a download sends the contents of the file. Under the same assumptions, what a download sends on
  the data connection is a prefix of the contents of the file from the offset on, in ASCII of their
  conversion, and all of it when the status is OK; the file is then at least as long as the
  offset. The file stays as it is, and nothing is received.
\<close>

theorem download_delivered:
  assumes "files_posix P view" "data_posix P view" "background (s_data_socket (sess s)) env"
    and "leaves_file view (tp_filepath p) env"
    and "tp_operation p = TRANSFER_OP_SEND_FILE" "tp_offset p = int off"
  shows "case run_state (run_transfer P env fuel p) s of (r, s') \<Rightarrow>
     contents view (tp_filepath p) s' = contents view (tp_filepath p) s \<and>
     (\<exists>tr n st. r = Some st \<and> trace s' = trace s @ tr \<and> received (s_data_socket (sess s)) tr = [] \<and>
        sent (s_data_socket (sess s)) tr = take n ((if tp_type p = PROTO_TYPE_ASCII then net_text else id)
          (drop off (old_contents (contents view (tp_filepath p) s)))) \<and>
        (if st = TRANSFER_STATUS_OK then
           (\<exists>c. contents view (tp_filepath p) s = Some c \<and> off \<le> length c \<and>
             sent (s_data_socket (sess s)) tr = (if tp_type p = PROTO_TYPE_ASCII then net_text else id) (drop off c))
         else True))"
proof -
  obtain st where st: "fst (run_state (run_transfer P env fuel p) s) = Some st"
    "downloaded view (tp_filepath p) (s_data_socket (sess s)) (if tp_type p = PROTO_TYPE_ASCII then net_text else id) off
      (contents view (tp_filepath p) s) (trace s) st (snd (run_state (run_transfer P env fuel p) s))"
    by (rule run_transfer_downloads [OF assms(1-5) refl assms(6)])
  from st(2) show ?thesis unfolding case_prod_beta st(1) downloaded_def passed_def
    by (force simp: old_contents_def)
qed

text \<open>
  C19: what has been uploaded is downloaded. A file that did not exist is uploaded in binary by one
  session; any other session that later downloads it in binary with success, the file having been
  left alone since, sends exactly the bytes that were received.
\<close>

theorem upload_download_roundtrip:
  assumes "files_posix P view" "data_posix P view"
    and "background (s_data_socket (sess s)) env" "leaves_file view (tp_filepath p) env"
    and "s_transfer_params (sess s) = Some p" "tp_operation p = TRANSFER_OP_RECV_FILE" "tp_type p = PROTO_TYPE_BINARY" "tp_offset p = 0"
    and "contents view (tp_filepath p) s = None"
    and "run_state (transfer_thread_func P env fuel) s = (True, s1)" "s_transfer_result (sess s1) = TRANSFER_STATUS_OK"
    and "contents view (tp_filepath p) s2 = contents view (tp_filepath p) s1"
    and "background (s_data_socket (sess s2)) env'" "leaves_file view (tp_filepath q) env'"
    and "tp_operation q = TRANSFER_OP_SEND_FILE" "tp_type q = PROTO_TYPE_BINARY" "tp_offset q = 0" "tp_filepath q = tp_filepath p"
    and "run_state (run_transfer P env' fuel' q) s2 = (Some TRANSFER_STATUS_OK, s3)"
  shows "\<exists>tr1 tr3. trace s1 = trace s @ tr1 \<and> trace s3 = trace s2 @ tr3 \<and>
     sent (s_data_socket (sess s2)) tr3 = received (s_data_socket (sess s)) tr1"
proof -
  have bin: "PROTO_TYPE_BINARY \<noteq> PROTO_TYPE_ASCII" by simp
  from thread_uploads [OF assms(1-6) refl _ assms(10), of 0] assms(8,11) obtain chunks where
    "on_file view (tp_filepath p) (s_data_socket (sess s)) (trace s)
      (filled 0 (map (if tp_type p = PROTO_TYPE_ASCII then unix_text else id) chunks) None) (concat chunks) s1"
    unfolding assms(9) by auto
  then obtain tr1 where up: "trace s1 = trace s @ tr1" "received (s_data_socket (sess s)) tr1 = concat chunks"
    "contents view (tp_filepath p) s1 = (if chunks = [] then None else Some (concat chunks))"
    using assms(7) bin by (auto simp: on_file_def filled_def old_contents_def overwrite_all)
  obtain st where "fst (run_state (run_transfer P env' fuel' q) s2) = Some st"
    "downloaded view (tp_filepath q) (s_data_socket (sess s2)) (if tp_type q = PROTO_TYPE_ASCII then net_text else id) 0
      (contents view (tp_filepath q) s2) (trace s2) st (snd (run_state (run_transfer P env' fuel' q) s2))"
    by (rule run_transfer_downloads [OF assms(1,2,13-15) refl]) (use assms(17) in simp)
  then have "downloaded view (tp_filepath q) (s_data_socket (sess s2)) id 0 (contents view (tp_filepath p) s1) (trace s2) TRANSFER_STATUS_OK s3"
    using assms(12,16,18,19) bin by simp
  then obtain tr3 where "trace s3 = trace s2 @ tr3" "sent (s_data_socket (sess s2)) tr3 = concat chunks"
    unfolding up(3) downloaded_def passed_def by (force simp: old_contents_def split: if_splits)
  with up(1,2) show ?thesis by auto
qed

section \<open>A system with files and a client\<close>

text \<open>The calls of \<open>store_posix\<close> on the files of the world; what the client still sends is its other part.\<close>

definition on_store :: "(store, 'a) state \<Rightarrow> (store \<times> string list, 'a) state" where
  "on_store m = State (\<lambda>(v, q). case run_state m v of (a, v') \<Rightarrow> (a, (v', q)))"

definition next_bytes :: "(store \<times> string list, errno + string) state" where
  "next_bytes = State (\<lambda>(v, q). case q of [] \<Rightarrow> (Inr [], (v, [])) | bs # q' \<Rightarrow> (Inr bs, (v, q')))"

definition regular :: "string \<Rightarrow> (store, stat_t option) state" where
  "regular path = gets (\<lambda>v. map_option (\<lambda>c. plain_stat\<lparr>st_mode := 0x8000, st_size := int (length c)\<rparr>) (files v path))"

definition wire_posix :: "(store \<times> string list) posix" where
  "wire_posix = plain_posix
     \<lparr>px_stat := \<lambda>path. on_store (regular path),
      px_open := (\<lambda>path k. on_store (px_open store_posix path k)),
      px_read := (\<lambda>fd n. on_store (px_read store_posix fd n)),
      px_write := (\<lambda>fd bs. on_store (px_write store_posix fd bs)),
      px_lseek := (\<lambda>fd off. on_store (px_lseek store_posix fd off)),
      px_fstat := (\<lambda>fd. on_store (px_fstat store_posix fd)),
      px_fsync := (\<lambda>fd. on_store (px_fsync store_posix fd)),
      px_close := (\<lambda>fd. on_store (px_close store_posix fd)),
      px_recv := (\<lambda>fd n. next_bytes)\<rparr>"

lemma leads_on_store: "leads I (on_store m) J \<longleftrightarrow> (\<forall>q. leads (\<lambda>v. I (v, q)) m (\<lambda>a v. J a (v, q)))"
  by (fastforce simp: leads_def on_store_def split: prod.splits)

lemma wire_posix_files: "files_posix wire_posix fst"
  using store_posix_files unfolding files_posix_def wire_posix_def by (simp add: leads_on_store cong: sum.case_cong if_cong)

lemma wire_posix_data: "data_posix wire_posix fst"
  by (auto simp: data_posix_def wire_posix_def plain_posix_def leads_def on_store_def next_bytes_def regular_def
      S_ISREG_def split: prod.splits list.splits)

definition some_params :: "transfer_operation_t \<Rightarrow> transfer_params_t" where
  "some_params op = \<lparr>tp_operation = op, tp_filepath = ''/n'', tp_offset = 0, tp_type = PROTO_TYPE_BINARY,
     tp_lock_acquired = False\<rparr>"

definition wire_sys :: "string list \<Rightarrow> (string \<Rightarrow> string option) \<Rightarrow> transfer_params_t \<Rightarrow> (store \<times> string list) sys" where
  "wire_sys incoming fs p = \<lparr>world = (\<lparr>files = fs, handles = Map.empty\<rparr>, incoming), trace = [], stuck = False, locks = [],
     auth = auth_state0, sess = plain_session\<lparr>s_data_socket := 5, s_transfer_params := Some p\<rparr>\<rparr>"

lemmas wire_defs = wire_posix_def on_store_def next_bytes_def regular_def store_posix_def one_open_def
  slow_read_def slow_write_def set_position_def length_of_def as_errno_def opened_def plain_posix_def

lemma wire_write: "world s = (\<lparr>files = Map.empty, handles = Map.empty\<rparr>, q) \<Longrightarrow>
    run_state (fs_write_file_chunk wire_posix ''/n'' ''ab'' 0) s =
  (2, s\<lparr>world := (\<lparr>files = [''/n'' \<mapsto> ''ab''], handles = Map.empty\<rparr>, q),
     trace := trace s @ [Ev_path (Op_open O_write_create) ''/n'', Ev_seek 3 0, Ev_write 3 ''ab'', Ev_close 3]\<rparr>)"
  by (simp add: fs_write_file_chunk_def run_calls run_os wire_defs write_loop.simps sys_write_def emit_def Let_def overwrite_def
     move_def put_def shut_def old_contents_def)

lemma wire_read: "world s = (\<lparr>files = [''/n'' \<mapsto> ''ab''], handles = Map.empty\<rparr>, q) \<Longrightarrow>
    run_state (fs_read_file_chunk wire_posix ''/n'' 0 2) s =
  (Some ''ab'', s\<lparr>world := (\<lparr>files = [''/n'' \<mapsto> ''ab''], handles = Map.empty\<rparr>, q),
     trace := trace s @ [Ev_path (Op_open O_read) ''/n'', Ev_seek 3 0, Ev_read 3 ''ab'', Ev_close 3]\<rparr>)"
  by (simp add: fs_read_file_chunk_def run_calls run_os wire_defs read_loop.simps sys_read_def emit_def Let_def
     move_def put_def shut_def)

lemma wire_socket:
  "world s = (v, bs # q) \<Longrightarrow> run_state (net_receive wire_posix d n) s =
     (Inr (take n bs), s\<lparr>world := (v, q), trace := trace s @ [Ev_recv d (take n bs)]\<rparr>)"
  "world s = (v, []) \<Longrightarrow> run_state (net_receive wire_posix d n) s =
     (Inr [], s\<lparr>world := (v, []), trace := trace s @ [Ev_recv d []]\<rparr>)"
  "t \<noteq> [] \<Longrightarrow> run_state (net_send_all wire_posix d t) s = (0, s\<lparr>trace := trace s @ [Ev_send d t]\<rparr>)"
  "run_state (os (px_malloc wire_posix)) s = (True, s)"
  "run_state (net_shutdown_both wire_posix d) s = (0, s)"
  "run_state (px_stat wire_posix path) (v, q) =
     (map_option (\<lambda>c. plain_stat\<lparr>st_mode := 0x8000, st_size := int (length c)\<rparr>) (files v path), (v, q))"
  by (simp_all add: net_receive_def sys_recv_def emit_def run_os wire_posix_def next_bytes_def plain_posix_def
     net_send_all.simps net_send_def sys_send_def net_shutdown_both_def status_def on_store_def regular_def)

definition some_upload :: "bool \<times> (store \<times> string list) sys" where
  "some_upload = run_state (transfer_thread_func wire_posix (\<lambda>_. ret ()) (Suc (Suc 0)))
     (wire_sys [''ab''] Map.empty (some_params TRANSFER_OP_RECV_FILE))"

lemma wire_finish:
  "fst (run_state (finish_transfer wire_posix p st) s) = True"
  "s_transfer_result (sess (snd (run_state (finish_transfer wire_posix p st) s))) = st"
  "contents fst path (snd (run_state (finish_transfer wire_posix p st) s)) = contents fst path s"
proof -
  show "fst (run_state (finish_transfer wire_posix p st) s) = True" by (simp add: finish_transfer_def case_prod_beta)
  have "on_file fst path 0 (trace s) (contents fst path s) [] s" by (simp add: on_file_def)
  from leadsD [OF finish_holds [OF wire_posix_files wire_posix_data] this]
  show "s_transfer_result (sess (snd (run_state (finish_transfer wire_posix p st) s))) = st"
    "contents fst path (snd (run_state (finish_transfer wire_posix p st) s)) = contents fst path s"
    unfolding on_file_def by blast+
qed

lemma some_upload_ends: "fst some_upload = True" "s_transfer_result (sess (snd some_upload)) = TRANSFER_STATUS_OK"
  "contents fst ''/n'' (snd some_upload) = Some ''ab''"
  by (simp_all add: some_upload_def transfer_thread_func_def session_set_transfer_thread_state_def
      session_set_transfer_in_progress_def smod_def run_abort wire_sys_def some_params_def run_transfer_def
      transfer_receive_file_def wire_write wire_socket count_upload_def wire_finish TRANSFER_BUFFER_SIZE_def
      INVALID_SOCKET_T_def plain_session_def session_reset_state_def)

definition some_download :: "transfer_status_t option \<times> (store \<times> string list) sys" where
  "some_download = run_state (run_transfer wire_posix (\<lambda>_. ret ()) 0 (some_params TRANSFER_OP_SEND_FILE))
     (wire_sys [] [''/n'' \<mapsto> ''ab''] (some_params TRANSFER_OP_SEND_FILE))"

lemma some_download_ends: "fst some_download = Some TRANSFER_STATUS_OK"
  by (simp add: some_download_def
    run_abort wire_sys_def some_params_def run_transfer_def transfer_send_file_def run_file_size send_loop.simps wire_read wire_socket S_ISREG_def S_IFMT_def count_download_def smod_def
    TRANSFER_BUFFER_SIZE_def INVALID_SOCKET_T_def plain_session_def session_reset_state_def)

lemma upload_stored_witness:
  "\<exists>tr chunks. trace (snd some_upload) = tr \<and> received 5 tr = concat chunks \<and> [] \<notin> set chunks \<and>
     contents fst ''/n'' (snd some_upload) = (if chunks = [] then None else Some (concat chunks))"
proof -
  have run: "run_state (transfer_thread_func wire_posix (\<lambda>_. ret ()) (Suc (Suc 0)))
      (wire_sys [''ab''] Map.empty (some_params TRANSFER_OP_RECV_FILE)) = (True, snd some_upload)"
    using some_upload_ends(1) unfolding some_upload_def by (metis prod.collapse)
  show ?thesis
    using upload_stored [OF wire_posix_files wire_posix_data background_idle leaves_file_idle _ _ _ run, of "some_params TRANSFER_OP_RECV_FILE" 0]
      some_upload_ends(2) by (force simp: wire_sys_def some_params_def old_contents_def overwrite_all)
qed

lemma download_delivered_witness:
  "\<exists>tr. trace (snd some_download) = tr \<and> sent 5 tr = ''ab''"
  using download_delivered [OF wire_posix_files wire_posix_data background_idle leaves_file_idle, of "some_params TRANSFER_OP_SEND_FILE"
      0 "wire_sys [] [''/n'' \<mapsto> ''ab''] (some_params TRANSFER_OP_SEND_FILE)" 0] some_download_ends
  unfolding some_download_def by (auto simp: wire_sys_def some_params_def split: prod.splits)

lemma upload_download_roundtrip_witness:
  "\<exists>tr1 tr3. trace (snd some_upload) = tr1 \<and> trace (snd some_download) = tr3 \<and> sent 5 tr3 = received 5 tr1"
proof -
  have run: "run_state (transfer_thread_func wire_posix (\<lambda>_. ret ()) (Suc (Suc 0)))
      (wire_sys [''ab''] Map.empty (some_params TRANSFER_OP_RECV_FILE)) = (True, snd some_upload)"
    using some_upload_ends(1) unfolding some_upload_def by (metis prod.collapse)
  have run': "run_state (run_transfer wire_posix (\<lambda>_. ret ()) 0 (some_params TRANSFER_OP_SEND_FILE))
      (wire_sys [] [''/n'' \<mapsto> ''ab''] (some_params TRANSFER_OP_SEND_FILE)) = (Some TRANSFER_STATUS_OK, snd some_download)"
    using some_download_ends unfolding some_download_def by (metis prod.collapse)
  show ?thesis
    using upload_download_roundtrip [OF wire_posix_files wire_posix_data background_idle leaves_file_idle _ _ _ _ _ run _ _
        background_idle leaves_file_idle _ _ _ _ run'] some_upload_ends(2,3)
    by (force simp: wire_sys_def some_params_def)
qed

end
