(* ===== verification/Listings.thy ===== *)
theory Listings
  imports Transfer_Contents Filesys_Tree
begin

text \<open>
  Directory listings: what LIST and NLST send of a directory. Under the documented behaviour of the
  calls on a tree that nobody changes while it is read, the reader returns the entries of the
  directory, and each of them has its line on the data connection.
\<close>

section \<open>Reading a directory\<close>

definition entries :: "tree \<Rightarrow> string \<Rightarrow> string set" where
  "entries v p = {n. component posix_sep n \<and> \<not> is_dot n \<and> v (joined_posix p n) \<noteq> None}"

text \<open>What a listing needs of the system besides: \<open>stat\<close> knows directories, and reading a link is no change.\<close>

definition listing_posix :: "'w posix \<Rightarrow> ('w \<Rightarrow> tree) \<Rightarrow> bool" where
  "listing_posix P view \<longleftrightarrow> tree_posix P view \<and> reliable P view \<and>
     (\<forall>p v. leads (\<lambda>w. view w = v) (px_readlink P p) (\<lambda>_ w. view w = v)) \<and>
     (\<forall>p v. v p = Some Fdir \<longrightarrow> leads (\<lambda>w. view w = v) (px_stat P p)
        (\<lambda>r w. view w = v \<and> (\<exists>st. r = Some st \<and> S_ISDIR (st_mode st)))) \<and>
     (\<forall>v. leads (\<lambda>w. view w = v) (px_malloc P) (\<lambda>_ w. view w = v))"

text \<open>Names and paths that fit the buffers.\<close>

definition names_fit :: "tree \<Rightarrow> string \<Rightarrow> bool" where
  "names_fit v p \<longleftrightarrow> (\<forall>n\<in>entries v p. length n < MAX_FILENAME_LEN \<and> length (joined_posix p n) < PATH_MAX)"

text \<open>What the code says of the entry \<open>n\<close>, with the answer of \<open>lstat\<close>.\<close>

definition describes :: "tree \<Rightarrow> string \<Rightarrow> fs_file_info_t \<Rightarrow> string \<Rightarrow> bool" where
  "describes v p info n \<longleftrightarrow> (\<exists>st t. info = file_info n st t \<and> v (joined_posix p n) = Some (posix_node st))"

abbreviation proper :: "string list \<Rightarrow> string list" where
  "proper names \<equiv> List.filter (\<lambda>n. \<not> is_dot n) names"

lemma list_loop_reads:
  assumes L: "listing_posix P view" and fit: "names_fit v p"
    and "\<forall>n\<in>set names. is_dot n \<or> n \<in> entries v p" "list_all2 (describes v p) got seen"
  shows "leads (sees view v) (list_directory_loop P p m names got :: ('w, 'z, fs_file_info_t list) os_m)
    (\<lambda>r s. sees view v s \<and> list_all2 (describes v p) r (seen @ take (m - length got) (proper names)))"
  using assms(3,4)
proof (induction names arbitrary: got seen)
  case Nil
  then show ?case by (simp add: leads_def)
next
  case (Cons n names)
  show ?case
  proof (cases "length got < m \<and> \<not> is_dot n")
    case False
    then show ?thesis using Cons by (auto simp: leads_ret)
  next
    case True
    define c where "c = joined_posix p n"
    have c: "v c \<noteq> None" "fs_join_path PATH_MAX p n = Some c"
      using Cons.prems(1) True fit by (auto simp: entries_def names_fit_def c_def fs_join_path_joined)
    have rest: "leads (sees view v) (list_directory_loop P p m names (got @ [file_info n st t]) :: ('w, 'z, fs_file_info_t list) os_m)
        (\<lambda>r s. sees view v s \<and> list_all2 (describes v p) r (seen @ take (m - length got) (n # proper names)))"
      if "v c = Some (posix_node st)" for st t
    proof -
      have new: "list_all2 (describes v p) (got @ [file_info n st t]) (seen @ [n])"
        using that by (intro list_all2_appendI Cons.prems(2)) (auto simp: describes_def c_def)
      have "take (m - length got) (n # proper names) = n # take (m - Suc (length got)) (proper names)"
        using True by (simp add: take_Cons' Suc_diff_Suc)
      then show ?thesis
        using Cons.IH [OF _ new] Cons.prems(1) True by simp
    qed
    have link: "leads (sees view v) (sys_readlink P c :: ('w, 'z, string option) os_m) (\<lambda>_. sees view v)"
      using L unfolding listing_posix_def sys_readlink_def by (intro leads_path_call) blast
    have T: "tree_posix P view" "reliable P view" using L by (simp_all add: listing_posix_def)
    show ?thesis
      unfolding list_directory_loop.simps c(2) option.case
      using True
      by (auto intro!: leads_const [OF reliable_calls(1) [where v = v and p = c, OF T c(1)]] rest leads_seq [OF link])
  qed
qed

lemma list_directory_reads:
  assumes L: "listing_posix P view" and fit: "names_fit v p" and d: "v p = Some Fdir" and "0 < m"
  shows "leads (sees view v) (fs_list_directory P p m :: ('w, 'z, fs_file_info_t list option) os_m) (\<lambda>r s. sees view v s \<and> (\<exists>infos names.
    r = Some infos \<and> list_all2 (describes v p) infos names \<and> distinct names \<and> set names \<subseteq> entries v p \<and>
    length names = min m (card (entries v p))))"
proof -
  have T: "tree_posix P view" "reliable P view" using L by (simp_all add: listing_posix_def)
  show ?thesis
    unfolding fs_list_directory_def if_not_P [OF less_imp_neq [OF \<open>0 < m\<close>, symmetric]]
  proof (rule leads_const [OF reliable_calls(2) [where v = v and p = p, OF T d]])
    fix r assume "\<exists>names. r = Some names \<and> lists posix_sep joined_posix v p names"
    then obtain names where r: "r = Some names" and l: "lists posix_sep joined_posix v p names" by blast
    then have all: "set (proper names) = entries v p" "distinct (proper names)" "\<forall>n\<in>set names. is_dot n \<or> n \<in> entries v p"
      by (auto simp: lists_def entries_def)
    have "length (proper names) = card (entries v p)" using all(1,2) by (metis distinct_card)
    then have few: "length (take m (proper names)) = min m (card (entries v p))" by simp
    have some: "distinct (take m (proper names))" "set (take m (proper names)) \<subseteq> entries v p"
      using all by (auto dest: in_set_takeD)
    have loop: "leads (sees view v) (list_directory_loop P p m names [] :: ('w, 'z, fs_file_info_t list) os_m)
        (\<lambda>r s. sees view v s \<and> list_all2 (describes v p) r (take m (proper names)))"
      using list_loop_reads [OF L fit all(3), of "[]" "[]" m] by simp
    show "leads (sees view v) ((case r of None \<Rightarrow> ret None
        | Some names \<Rightarrow> do { got \<leftarrow> list_directory_loop P p m names []; ret (Some got) }) :: ('w, 'z, fs_file_info_t list option) os_m)
      (\<lambda>r s. sees view v s \<and> (\<exists>infos names. r = Some infos \<and> list_all2 (describes v p) infos names \<and> distinct names \<and>
         set names \<subseteq> entries v p \<and> length names = min m (card (entries v p))))"
      unfolding r option.case by (rule leads_seq [OF loop], rule leads_ret) (use few some in blast)
  qed
qed

section \<open>Sending the lines\<close>

text \<open>\<open>telling\<close>: since the trace \<open>tr0\<close>, the data connection \<open>d\<close> has been sent \<open>out\<close>.\<close>

definition telling :: "int \<Rightarrow> os_event list \<Rightarrow> string \<Rightarrow> 'w sys \<Rightarrow> bool" where
  "telling d tr0 out s \<longleftrightarrow> s_data_socket (sess s) = d \<and> (\<exists>tr. trace s = tr0 @ tr \<and> sent d tr = out)"

text \<open>
  \<open>told\<close>: beyond \<open>out\<close> a prefix of the lines of the first of \<open>infos\<close> has gone out, and with the status
  OK the lines of all of them. \<open>R info l\<close> says that \<open>l\<close> is a line for \<open>info\<close>.
\<close>

definition told :: "('i \<Rightarrow> string \<Rightarrow> bool) \<Rightarrow> int \<Rightarrow> os_event list \<Rightarrow> string \<Rightarrow> 'i list \<Rightarrow> transfer_status_t \<Rightarrow> 'w sys \<Rightarrow> bool" where
  "told R d tr0 out infos st s \<longleftrightarrow> (\<exists>lines n. length lines \<le> length infos \<and> list_all2 R (take (length lines) infos) lines \<and>
     telling d tr0 (out @ take n (concat lines)) s \<and>
     (st = TRANSFER_STATUS_OK \<longrightarrow> length lines = length infos \<and> n = length (concat lines)))"

lemma told_stop: "st \<noteq> TRANSFER_STATUS_OK \<Longrightarrow> telling d tr0 out s \<Longrightarrow> told R d tr0 out infos st s"
  unfolding told_def by (intro exI [of _ "[]"] exI [of _ 0]) simp

lemma told_all: "telling d tr0 out s \<Longrightarrow> told R d tr0 out [] st s"
  unfolding told_def by (intro exI [of _ "[]"] exI [of _ 0]) simp

lemma told_part:
  assumes "st \<noteq> TRANSFER_STATUS_OK" "R info l" "telling d tr0 (out @ take n l) s"
  shows "told R d tr0 out (info # infos) st s"
  using assms unfolding told_def by (intro exI [of _ "[l]"] exI [of _ n]) simp

lemma told_more:
  assumes "R info l" "told R d tr0 (out @ l) infos st s"
  shows "told R d tr0 out (info # infos) st s"
proof -
  from assms(2) obtain lines n where "length lines \<le> length infos" "list_all2 R (take (length lines) infos) lines"
    "telling d tr0 ((out @ l) @ take n (concat lines)) s"
    "st = TRANSFER_STATUS_OK \<longrightarrow> length lines = length infos \<and> n = length (concat lines)"
    unfolding told_def by blast
  with assms(1) show ?thesis
    unfolding told_def by (intro exI [of _ "l # lines"] exI [of _ "length l + n"]) simp
qed

lemma telling_step:
  assumes "telling d tr0 out s" "s_data_socket (sess s') = d" "trace s' = trace s @ tr" "sent d tr = t"
  shows "telling d tr0 (out @ t) s'"
  using assms by (auto simp: telling_def)

lemma telling_env:
  fixes env :: "'w env"
  assumes "background d env"
  shows "keeps (telling d tr0 out) (env i) any"
proof (rule keepsI)
  fix s :: "'w sys" assume p: "telling d tr0 out s"
  then have d: "s_data_socket (sess s) = d" by (simp add: telling_def)
  obtain tr where "s_data_socket (sess (snd (run_state (env i) s))) = d" "trace (snd (run_state (env i) s)) = trace s @ tr"
    "sent d tr = []"
    using background_step [OF assms d] by metis
  then show "telling d tr0 out (snd (run_state (env i) s)) \<and> any (fst (run_state (env i) s))"
    using telling_step [OF p] by fastforce
qed

lemma telling_does:
  fixes m :: "('w, 'a) sys_m"
  assumes "does A m" "\<forall>e\<in>A. \<not> data_event d e"
  shows "keeps (telling d tr0 out) m any"
proof (rule keepsI)
  fix s :: "'w sys" assume p: "telling d tr0 out s"
  obtain tr where tr: "trace (snd (run_state m s)) = trace s @ tr" "set tr \<subseteq> A" using assms(1) by (auto simp: does_def)
  have "sent d tr = []" using no_data(1) [of tr d] tr(2) assms(2) by blast
  moreover have "s_data_socket (sess (snd (run_state m s))) = d"
    using does_more(1) [OF assms(1)] p by (simp add: telling_def)
  ultimately show "telling d tr0 out (snd (run_state m s)) \<and> any (fst (run_state m s))"
    using telling_step [OF p _ tr(1)] by fastforce
qed

lemma telling_send:
  "leads (telling d tr0 out) (net_send_all P d t) (\<lambda>r s. \<exists>n. telling d tr0 (out @ take n t) s \<and> (r = 0 \<longrightarrow> n = length t))"
  unfolding leads_def
proof (intro allI impI)
  fix s :: "'a sys" assume p: "telling d tr0 out s"
  have d: "s_data_socket (sess (snd (run_state (net_send_all P d t) s))) = d"
    using p by (simp add: sess_frames telling_def)
  obtain tr n where "trace (snd (run_state (net_send_all P d t) s)) = trace s @ tr" "sent d tr = take n t"
    "fst (run_state (net_send_all P d t) s) = 0 \<longrightarrow> n = length t"
    using net_send_all_run [of P d t s] by fastforce
  with telling_step [OF p d] show "\<exists>n. telling d tr0 (out @ take n t) (snd (run_state (net_send_all P d t) s)) \<and>
      (fst (run_state (net_send_all P d t) s) = 0 \<longrightarrow> n = length t)" by metis
qed

text \<open>One line: when it is sent, \<open>rest\<close> goes on; else \<open>stop\<close> reports a failure, with the status \<open>g r\<close>.\<close>

lemma send_line:
  assumes B: "background d env" and l: "R info l"
    and rest: "leads (telling d tr0 (out @ l)) rest (\<lambda>r. told R d tr0 (out @ l) infos (g r))"
    and stop: "\<And>I. leads I stop (\<lambda>r s. I s \<and> g r \<noteq> TRANSFER_STATUS_OK)"
  shows "leads (telling d tr0 out) (do {
      sock \<leftarrow> sget s_data_socket;
      r \<leftarrow> net_send_all P sock l;
      if r \<noteq> 0 then do { env j; stop } else rest })
    (\<lambda>r. told R d tr0 out (info # infos) (g r))"
proof (rule sget_then [where x = d], goal_cases)
  case 2
  have fails: "leads (telling d tr0 (out @ take n l)) (do { env j; stop }) (\<lambda>r. told R d tr0 out (info # infos) (g r))" for n
    by (rule leads_bind [OF telling_env [OF B]], rule leads_weaken [OF stop [of "telling d tr0 (out @ take n l)"]])
      (auto intro: told_part l)
  have goes: "leads (telling d tr0 (out @ l)) rest (\<lambda>r. told R d tr0 out (info # infos) (g r))"
    by (rule leads_weaken [OF rest]) (auto intro: told_more l)
  show ?case
  proof (rule leads_seq [OF telling_send])
    fix r
    show "leads (\<lambda>s. \<exists>n. telling d tr0 (out @ take n l) s \<and> (r = 0 \<longrightarrow> n = length l))
        (if r \<noteq> 0 then do { env j; stop } else rest) (\<lambda>r. told R d tr0 out (info # infos) (g r))"
      using fails goes by (cases "r = 0") (auto simp: leads_def)
  qed
qed (simp add: telling_def)

text \<open>The two loops. A line of NLST is the name; one of LIST is what \<open>format_list_line\<close> makes of the entry.\<close>

definition name_line :: "fs_file_info_t \<Rightarrow> string \<Rightarrow> bool" where
  "name_line info l \<longleftrightarrow> l = snprintf_buf 512 (fi_name info @ [CR, LF])"

definition long_line :: "'w posix \<Rightarrow> fs_file_info_t \<Rightarrow> string \<Rightarrow> bool" where
  "long_line P info l \<longleftrightarrow> (\<exists>s. fst (run_state (format_list_line P info 1024) (s :: 'w sys)) = Some l)"

lemma nlst_loop_tells:
  assumes B: "background d env"
  shows "leads (telling d tr0 out) (nlst_loop P env i infos) (told name_line d tr0 out infos)"
proof (induction infos arbitrary: i out)
  case Nil
  show ?case by (simp add: leads_ret told_all)
next
  case (Cons info infos)
  let ?l = "snprintf_buf 512 (fi_name info @ [CR, LF])"
  have turn: "leads (telling d tr0 out) (do {
      sock \<leftarrow> sget s_data_socket;
      r \<leftarrow> net_send_all P sock ?l;
      if r \<noteq> 0 then do { env (2 * i + 1); failed_status } else nlst_loop P env (i + 1) infos })
    (told name_line d tr0 out (info # infos))"
    by (rule send_line [where g = id, unfolded id_apply, OF B _ Cons.IH failed_status_fails]) (simp add: name_line_def)
  show ?case unfolding nlst_loop.simps
    by (intro leads_bind [OF telling_env [OF B]] leads_bind [OF keeps_abort(1)] leads_if leads_ret turn told_stop) simp_all
qed

lemma does_format: "does {} (format_list_line P info n)"
  unfolding format_list_line_def Let_def by (intro doing)

lemma listing_loop_tells:
  fixes P :: "'w posix"
  assumes B: "background d env"
  shows "leads (telling d tr0 out) (listing_loop P env None i infos k) (\<lambda>r. told (long_line P) d tr0 out infos (fst r))"
proof (induction infos arbitrary: i out k)
  case Nil
  show ?case by (simp add: leads_ret told_all)
next
  case (Cons info infos)
  have stop: "leads I (do { st \<leftarrow> failed_status; ret (st, k) }) (\<lambda>r s. I s \<and> fst r \<noteq> TRANSFER_STATUS_OK)" for I
    by (rule leads_seq [OF failed_status_fails], rule leads_ret) simp
  have turn: "leads (telling d tr0 out) (do {
      sock \<leftarrow> sget s_data_socket;
      r \<leftarrow> net_send_all P sock l;
      if r \<noteq> 0 then do { env (2 * i + 1); st \<leftarrow> failed_status; ret (st, k) } else listing_loop P env None (i + 1) infos (k + 1) })
    (\<lambda>r. told (long_line P) d tr0 out (info # infos) (fst r))" if "long_line P info l" for l
    by (rule send_line [OF B that Cons.IH stop])
  have format: "leads (telling d tr0 out) (format_list_line P info 1024)
      (\<lambda>r s. telling d tr0 out s \<and> (\<forall>l. r = Some l \<longrightarrow> long_line P info l))"
    using telling_does [OF does_format, of d tr0 out P info 1024] by (auto simp: leads_def keeps_def long_line_def)
  show ?case unfolding listing_loop.simps simp_thms if_False
    by (intro leads_bind [OF telling_env [OF B]] leads_bind [OF keeps_abort(1)] leads_if leads_ret leads_const [OF format]
        leads_option turn told_stop) simp_all
qed

section \<open>The two commands\<close>

definition directory_told ::
  "(fs_file_info_t \<Rightarrow> string \<Rightarrow> bool) \<Rightarrow> tree \<Rightarrow> string \<Rightarrow> int \<Rightarrow> os_event list \<Rightarrow> transfer_status_t \<Rightarrow> 'w sys \<Rightarrow> bool" where
  "directory_told R v p d tr0 st s \<longleftrightarrow> (\<exists>infos names. list_all2 (describes v p) infos names \<and> distinct names \<and>
     set names \<subseteq> entries v p \<and> (st = TRANSFER_STATUS_OK \<longrightarrow> length names = min 1024 (card (entries v p))) \<and>
     told R d tr0 [] infos st s)"

lemma directory_told_stop: "st \<noteq> TRANSFER_STATUS_OK \<Longrightarrow> telling d tr0 [] s \<Longrightarrow> directory_told R v p d tr0 st s"
  unfolding directory_told_def by (intro exI [of _ "[]"]) (simp add: told_stop)

abbreviation silent :: "os_event set" where
  "silent \<equiv> {e. \<forall>d. \<not> data_event d e}"

lemma silent_list_directory: "does silent (fs_list_directory P path n)"
proof -
  have "does silent (list_directory_loop P path n names got)" for names got
    by (induction P path n names got rule: list_directory_loop.induct) (auto intro!: doing)
  then show ?thesis unfolding fs_list_directory_def by (auto intro!: doing)
qed

lemma list_directory_then:
  assumes L: "listing_posix P view" "names_fit v p" "v p = Some Fdir"
    and loop: "\<And>infos. leads (telling d tr0 []) (rest infos) (told R d tr0 [] infos)"
  shows "leads (\<lambda>s. telling d tr0 [] s \<and> sees view v s)
    (do { got \<leftarrow> fs_list_directory P p 1024; (case got of None \<Rightarrow> ret TRANSFER_STATUS_IO_ERROR | Some infos \<Rightarrow> rest infos) })
    (directory_told R v p d tr0)"
proof -
  let ?F = "\<lambda>r. \<exists>infos names. r = Some infos \<and> list_all2 (describes v p) infos names \<and> distinct names \<and>
    set names \<subseteq> entries v p \<and> length names = min 1024 (card (entries v p))"
  have "leads (\<lambda>s. telling d tr0 [] s \<and> sees view v s) (fs_list_directory P p 1024) (\<lambda>r s. telling d tr0 [] s \<and> ?F r)"
    using telling_does [OF silent_list_directory, of d tr0 "[]" P p 1024] list_directory_reads [OF L, of 1024]
    by (auto simp: leads_def keeps_def)
  then show ?thesis
  proof (rule leads_const, elim exE conjE)
    fix r infos names
    assume r: "r = Some infos" and n: "list_all2 (describes v p) infos names" "distinct names" "set names \<subseteq> entries v p"
      "length names = min 1024 (card (entries v p))"
    show "leads (telling d tr0 []) (case r of None \<Rightarrow> ret TRANSFER_STATUS_IO_ERROR | Some infos \<Rightarrow> rest infos)
        (directory_told R v p d tr0)"
      unfolding r option.case by (rule leads_weaken [OF loop]) (use n in \<open>auto simp: directory_told_def\<close>)
  qed
qed

lemma nlst_tells:
  assumes L: "listing_posix P view" "names_fit v p" "v p = Some Fdir" and B: "background d env"
  shows "leads (\<lambda>s. telling d tr0 [] s \<and> sees view v s) (transfer_send_nlst P env p) (directory_told name_line v p d tr0)"
  unfolding transfer_send_nlst_def by (rule list_directory_then [OF L nlst_loop_tells [OF B]])

lemma list_tells:
  assumes L: "listing_posix P view" "names_fit v p" "v p = Some Fdir" and B: "background d env"
  shows "leads (\<lambda>s. telling d tr0 [] s \<and> sees view v s) (transfer_send_list P env p) (directory_told (long_line P) v p d tr0)"
proof -
  let ?I = "\<lambda>s. telling d tr0 [] s \<and> sees view v s"
  have loop: "leads (telling d tr0 []) (do { (st, k) \<leftarrow> listing_loop P env None 0 infos 0; ret st })
      (told (long_line P) d tr0 [] infos)" for infos
    by (rule leads_seq [OF listing_loop_tells [OF B]]) (auto intro!: leads_ret split: prod.splits)
  have malloc: "leads ?I (os (px_malloc P)) (\<lambda>_. ?I)"
    using L(1) by (auto simp: listing_posix_def leads_def run_os telling_def)
  have isdir: "leads ?I (fs_is_directory P p) (\<lambda>r s. ?I s \<and> r)"
    using L(1,3) by (fastforce simp: listing_posix_def leads_def fs_is_directory_def sys_stat_def path_call_def emit_def run_os telling_def)
  have list: "leads ?I (send_listing P env p None) (directory_told (long_line P) v p d tr0)"
    unfolding send_listing_def MAX_DIR_ENTRIES_def simp_thms if_False
    by (intro leads_seq [OF malloc] leads_if leads_ret list_directory_then [OF L loop] directory_told_stop) simp_all
  show ?thesis
    unfolding transfer_send_list_def
  proof (rule sget_then [where x = d], goal_cases)
    case 2
    show ?case
      by (rule leads_if, rule leads_ret, rule directory_told_stop) (auto intro!: leads_const [OF isdir] list)
  qed (simp add: telling_def)
qed

text \<open>In terms of what is sent; the lines of NLST are the names.\<close>

lemma name_lines:
  assumes "list_all2 (describes v p) infos names" "list_all2 name_line infos lines" "\<forall>n\<in>set names. length n < MAX_FILENAME_LEN"
  shows "lines = map (\<lambda>n. n @ [CR, LF]) names"
  using assms
proof (induction infos names arbitrary: lines rule: list_all2_induct)
  case (Cons info infos n names)
  then obtain l ls where "lines = l # ls" "name_line info l" "list_all2 name_line infos ls" by (auto simp: list_all2_Cons1)
  with Cons show ?case
    by (auto simp: describes_def file_info_def name_line_def strncpy_buf_def snprintf_buf_def MAX_FILENAME_LEN_def)
qed simp

lemma directory_told_sent:
  assumes "directory_told R v p d tr0 st s"
  obtains infos names lines n tr where "trace s = tr0 @ tr" "list_all2 (describes v p) infos names" "distinct names"
    "set names \<subseteq> entries v p" "list_all2 R infos lines" "sent d tr = take n (concat lines)"
    "st = TRANSFER_STATUS_OK \<longrightarrow> length names = min 1024 (card (entries v p)) \<and> sent d tr = concat lines"
proof -
  from assms obtain infos names lines n tr where a: "list_all2 (describes v p) infos names" "distinct names"
    "set names \<subseteq> entries v p" "st = TRANSFER_STATUS_OK \<longrightarrow> length names = min 1024 (card (entries v p))"
    "list_all2 R (take (length lines) infos) lines" "trace s = tr0 @ tr" "sent d tr = [] @ take n (concat lines)"
    "st = TRANSFER_STATUS_OK \<longrightarrow> length lines = length infos \<and> n = length (concat lines)"
    unfolding directory_told_def told_def telling_def by blast
  show ?thesis
  proof (rule that [of tr "take (length lines) infos" "take (length lines) names" lines n])
    show "set (take (length lines) names) \<subseteq> entries v p" using a(3) by (auto dest: in_set_takeD)
    show "st = TRANSFER_STATUS_OK \<longrightarrow> length (take (length lines) names) = min 1024 (card (entries v p)) \<and> sent d tr = concat lines"
      using a(4,7,8) list_all2_lengthD [OF a(1)] by auto
  qed (use a in simp_all)
qed

text \<open>
  C15: a directory listing names the entries of the directory. Let the system keep its documentation on
  the tree, names and paths fit their buffers, and the control thread leave the data connection alone.
  What LIST or NLST of a directory sends is a prefix of lines for distinct entries of the directory,
  other than \<open>.\<close> and \<open>..\<close>, and with the status OK all of these lines, one for each entry, up to the
  1024 entries for which the code has room. The lines of NLST are the names.
\<close>

theorem directory_listed:
  assumes "listing_posix P view" "background (s_data_socket (sess s)) env"
    and "view (world s) (tp_filepath q) = Some Fdir" "names_fit (view (world s)) (tp_filepath q)"
    and "tp_operation q \<in> {TRANSFER_OP_SEND_LIST, TRANSFER_OP_SEND_NLST}"
  shows "case run_state (run_transfer P env fuel q) s of (r, s') \<Rightarrow> \<exists>st infos names lines n tr.
     r = Some st \<and> trace s' = trace s @ tr \<and>
     list_all2 (describes (view (world s)) (tp_filepath q)) infos names \<and> distinct names \<and>
     set names \<subseteq> entries (view (world s)) (tp_filepath q) \<and>
     (if tp_operation q = TRANSFER_OP_SEND_NLST then lines = map (\<lambda>n. n @ [CR, LF]) names
      else list_all2 (long_line P) infos lines) \<and>
     sent (s_data_socket (sess s)) tr = take n (concat lines) \<and>
     (st = TRANSFER_STATUS_OK \<longrightarrow> length names = min 1024 (card (entries (view (world s)) (tp_filepath q))) \<and>
        sent (s_data_socket (sess s)) tr = concat lines)"
proof -
  define v p d where "v = view (world s)" and "p = tp_filepath q" and "d = s_data_socket (sess s)"
  note a = assms [folded v_def p_def d_def]
  define R where "R = (if tp_operation q = TRANSFER_OP_SEND_NLST then name_line else long_line P)"
  have "leads (\<lambda>s'. telling d (trace s) [] s' \<and> sees view v s') (run_transfer P env fuel q)
      (\<lambda>r s'. \<exists>st. r = Some st \<and> directory_told R v p d (trace s) st s')"
    using nlst_tells [OF a(1,4,3,2), of "trace s"] list_tells [OF a(1,4,3,2), of "trace s"] a(5)
    by (auto simp: run_transfer_def R_def p_def leads_def case_prod_beta)
  from leadsD [OF this, of s] obtain st where st: "fst (run_state (run_transfer P env fuel q) s) = Some st"
    "directory_told R v p d (trace s) st (snd (run_state (run_transfer P env fuel q) s))"
    by (auto simp: leads_def telling_def v_def d_def)
  obtain infos names lines n tr where t: "trace (snd (run_state (run_transfer P env fuel q) s)) = trace s @ tr"
    "list_all2 (describes v p) infos names" "distinct names" "set names \<subseteq> entries v p" "list_all2 R infos lines"
    "sent d tr = take n (concat lines)"
    "st = TRANSFER_STATUS_OK \<longrightarrow> length names = min 1024 (card (entries v p)) \<and> sent d tr = concat lines"
    by (rule directory_told_sent [OF st(2)])
  have "\<forall>n\<in>set names. length n < MAX_FILENAME_LEN" using t(4) a(4) by (auto simp: names_fit_def)
  from name_lines [OF t(2) _ this] t(5) have "if tp_operation q = TRANSFER_OP_SEND_NLST
      then lines = map (\<lambda>n. n @ [CR, LF]) names else list_all2 (long_line P) infos lines" by (auto simp: R_def)
  with t st(1) show ?thesis unfolding v_def [symmetric] p_def [symmetric] d_def [symmetric] case_prod_beta by blast
qed

text \<open>On the files of \<open>list_posix\<close>.\<close>

definition browse_posix :: "(string \<times> stat_t) list posix" where
  "browse_posix = list_posix\<lparr>px_stat := \<lambda>p. gets (\<lambda>w. map_of w p)\<rparr>"

lemma browse_listing: "listing_posix browse_posix list_view"
proof -
  have "tree_posix browse_posix list_view" "reliable browse_posix list_view"
    using list_posix_tree list_posix_reliable by (simp_all add: tree_posix_def reliable_def browse_posix_def)
  moreover have "S_ISDIR (st_mode st)" if "posix_node st = Fdir" for st
    using that by (auto simp: posix_node_def split: if_splits)
  ultimately show ?thesis
    by (auto simp: listing_posix_def leads_def browse_posix_def list_posix_def plain_posix_def list_view_def)
qed

definition some_listing :: transfer_params_t where
  "some_listing = \<lparr>tp_operation = TRANSFER_OP_SEND_NLST, tp_filepath = ''/d'', tp_offset = 0, tp_type = PROTO_TYPE_ASCII,
     tp_lock_acquired = False\<rparr>"

lemma demo_joined: "component posix_sep n \<Longrightarrow> joined_posix ''/d'' n = ''/d/'' @ n"
  by (simp add: px.joined_component slashed_def posix_sep_def)

lemma demo_entries: "entries (list_view demo_files) ''/d'' = {''a'', ''s''}"
proof
  show "entries (list_view demo_files) ''/d'' \<subseteq> {''a'', ''s''}"
  proof
    fix n assume "n \<in> entries (list_view demo_files) ''/d''"
    then have n: "component posix_sep n" "list_view demo_files (''/d/'' @ n) \<noteq> None"
      using demo_joined [of n] by (simp_all add: entries_def)
    then have "''/d/'' @ n \<in> dom (list_view demo_files)" by blast
    then have "n = ''a'' \<or> n = ''s'' \<or> n = ''s/l''" by (simp add: demo_view) blast
    moreover have "\<not> component posix_sep ''s/l''" by (simp add: component_def posix_sep_def)
    ultimately show "n \<in> {''a'', ''s''}" using n(1) by blast
  qed
  have "component posix_sep ''a''" "component posix_sep ''s''" by (simp_all add: component_def posix_sep_def)
  then show "{''a'', ''s''} \<subseteq> entries (list_view demo_files) ''/d''"
    by (simp add: entries_def demo_joined is_dot_def demo_view)
qed

lemma directory_listed_witness:
  "let s = \<lparr>world = demo_files, trace = [], stuck = False, locks = [], auth = auth_state0, sess = plain_session\<lparr>s_data_socket := 5\<rparr>\<rparr>;
       r = run_state (run_transfer browse_posix (\<lambda>_. ret ()) 0 some_listing) s
   in \<exists>names n. distinct names \<and> set names \<subseteq> {''a'', ''s''} \<and>
     sent 5 (trace (snd r)) = take n (concat (map (\<lambda>n. n @ [CR, LF]) names)) \<and>
     (fst r = Some TRANSFER_STATUS_OK \<longrightarrow> length names = 2)"
proof -
  define s where "s = \<lparr>world = demo_files, trace = [], stuck = False, locks = [], auth = auth_state0,
    sess = plain_session\<lparr>s_data_socket := 5\<rparr>\<rparr>"
  have "names_fit (list_view (world s)) (tp_filepath some_listing)"
    by (simp add: names_fit_def s_def some_listing_def demo_entries MAX_FILENAME_LEN_def PATH_MAX_def joined_posix_def)
  moreover have "list_view (world s) (tp_filepath some_listing) = Some Fdir" by (simp add: s_def some_listing_def demo_view)
  ultimately show ?thesis
    using directory_listed [OF browse_listing, of s "\<lambda>_. ret ()" some_listing 0]
    unfolding Let_def s_def [symmetric]
    by (auto simp: background_idle some_listing_def case_prod_beta) (auto simp: s_def demo_entries)
qed

end
