(* ===== verification/Frames.thy ===== *)
theory Frames
  imports Data_Transfer
begin

text \<open>
  What a part of the program cannot disturb. An assertion about the state of a session's process is a
  frame when the calls of the operating system that send nothing keep it (\<open>call_frame\<close>), possibly only
  those whose effects are in a set \<open>A\<close>; when sending keeps it too (\<open>effect_frame\<close>); when a transfer keeps
  it (\<open>transfer_frame\<close>); when nothing that is written to the session or the lock table matters to it
  (\<open>free_frame\<close>, and with sending \<open>session_frame\<close>). The lemmas go once through
  the sources under these contracts; the theories that need an assertion kept interpret one of them.
\<close>

section \<open>Effects that spare files\<close>

text \<open>Effects that leave all files as they are, directories apart.\<close>

fun sparing :: "os_event \<Rightarrow> bool" where
  "sparing (Ev_path Op_unlink p) = False"
| "sparing (Ev_path (Op_open k) p) = (k = O_read)"
| "sparing (Ev_rename p q) = False"
| "sparing e = True"

lemma sparing_path: "k \<noteq> Op_unlink \<Longrightarrow> (\<And>m. k \<noteq> Op_open m) \<Longrightarrow> sparing (Ev_path k p)"
  by (cases k) auto

text \<open>Those among them that send nothing.\<close>

definition quiet :: "os_event set" where
  "quiet = {e. sparing e \<and> (\<forall>fd bs. e \<noteq> Ev_send fd bs)}"

lemma quiet_mem [simp]:
  "Ev_path Op_stat p \<in> quiet" "Ev_path Op_lstat p \<in> quiet" "Ev_path Op_mkdir p \<in> quiet" "Ev_path Op_rmdir p \<in> quiet"
  "Ev_path Op_readdir p \<in> quiet" "Ev_path Op_readlink p \<in> quiet" "Ev_path (Op_open O_read) p \<in> quiet"
  "Ev_seek fd i \<in> quiet" "Ev_close fd \<in> quiet" "Ev_recv fd bs \<in> quiet"
  by (simp_all add: quiet_def)

lemma quiet_io [simp]:
  "range (Ev_read fd) \<subseteq> quiet" "range (Ev_write fd) \<subseteq> quiet" "range (Ev_recv fd) \<subseteq> quiet"
  "file_io \<subseteq> quiet" "range Ev_close \<subseteq> quiet"
  by (auto simp: file_io_def quiet_def)

lemma does_list_directory: "does quiet (fs_list_directory P path n)"
proof -
  have "does quiet (list_directory_loop P path n names files)" for names files
    by (induction P path n names files rule: list_directory_loop.induct) (auto intro!: doing)
  then show ?thesis unfolding fs_list_directory_def by (auto intro!: doing)
qed

lemma does_receive_line: "does quiet (net_receive_line P fd n tmo)"
proof -
  have "does quiet (receive_line_loop P fd tmo n buf)" for n buf
    by (induction n arbitrary: buf) (auto intro!: doing simp: Let_def split: sum.splits list.splits)
  then show ?thesis unfolding net_receive_line_def
    by (auto intro!: doing split: sum.splits list.splits)
qed

section \<open>The contract of an assertion on effects\<close>

named_theorems framing \<open>operations that keep a frame\<close>

lemma frame_bind [framing]:
  "keeps I (m :: ('w, 'z, 'a) os_m) any \<Longrightarrow> (\<And>a. keeps I (f a) any) \<Longrightarrow> keeps I (State_Monad.bind m f) any"
  by (rule keeps_bind)

lemma frame_gets [framing]:
  "keeps I (ret a :: ('w, 'z, 'b) os_m) any" "keeps J (sget f :: ('w, 'c) sys_m) any" "keeps I (gets h :: ('w, 'z, 'd) os_m) any"
  by (simp_all add: keeps_def sget_def)

lemmas [framing] = TrueI keeps_if keeps_option keeps_sum keeps_prod guard_mode_cases

locale call_frame =
  fixes I :: "('w, 'z) os_scheme \<Rightarrow> bool" and A :: "os_event set"
  assumes effects: "I s \<Longrightarrow> trace s' = trace s @ tr \<Longrightarrow> set tr \<subseteq> A \<Longrightarrow> os.more s' = os.more s \<Longrightarrow> (stuck s \<longrightarrow> stuck s') \<Longrightarrow> I s'"
    and quiet: "quiet \<subseteq> A"
begin

lemma frame_does: "does A m \<Longrightarrow> keeps I (m :: ('w, 'z, 'a) os_m) any"
  unfolding does_def keeps_def using effects by blast

lemma frame_quiet: "does quiet m \<Longrightarrow> keeps I (m :: ('w, 'z, 'a) os_m) any"
  by (rule frame_does [OF does_mono [OF _ quiet]])

lemma frame_os [framing]:
  "keeps I (os m :: ('w, 'z, 'a) os_m) any" "keeps I (give_up :: ('w, 'z, unit) os_m) any"
  by (rule frame_does, rule doing)+

lemma frame_net [framing]:
  "keeps I (net_close_socket P fd :: ('w, 'z, unit) os_m) any"
  "keeps I (net_shutdown_both P fd :: ('w, 'z, int) os_m) any"
  "keeps I (net_set_nonblocking P fd b :: ('w, 'z, int) os_m) any"
  "keeps I (net_wait_readable P fd tmo :: ('w, 'z, int) os_m) any"
  "keeps I (net_get_socket_info P fd n :: ('w, 'z, (string \<times> u16) option) os_m) any"
  "keeps I (net_accept P fd :: ('w, 'z, errno + int \<times> string \<times> u16) os_m) any"
  "keeps I (net_create_listening_socket_range P family addr pmin pmax backlog :: ('w, 'z, (int \<times> u16) option) os_m) any"
  "keeps I (net_connect P host port :: ('w, 'z, int) os_m) any"
  "keeps I (net_receive P fd n :: ('w, 'z, errno + string) os_m) any"
  "keeps I (net_has_urgent_data P fd :: ('w, 'z, int) os_m) any"
  "keeps I (net_set_oob_inline P fd b :: ('w, 'z, int) os_m) any"
  by (rule frame_quiet, (rule doing; simp))+

lemma frame_receive_line [framing]: "keeps I (net_receive_line P fd n tmo :: ('w, 'z, int \<times> string) os_m) any"
  by (rule frame_quiet [OF does_receive_line])

lemma frame_fs [framing]:
  "keeps I (fs_path_exists P q :: ('w, 'z, bool) os_m) any"
  "keeps I (fs_is_directory P q :: ('w, 'z, bool) os_m) any"
  "keeps I (fs_get_file_size P q :: ('w, 'z, int) os_m) any"
  "keeps I (fs_get_file_mtime P q :: ('w, 'z, int) os_m) any"
  "keeps I (fs_create_directory P q :: ('w, 'z, int) os_m) any"
  "keeps I (fs_delete_directory P q False :: ('w, 'z, int) os_m) any"
  by (rule frame_quiet, (rule doing; simp))+

lemma frame_read [framing]:
  "keeps I (fs_read_file_chunk P q off n :: ('w, 'z, string option) os_m) any"
  "keeps I (fs_list_directory P q n :: ('w, 'z, fs_file_info_t list option) os_m) any"
  by (rule frame_quiet [OF does_mono [OF does_chunks(1)]] frame_quiet [OF does_list_directory]; simp)+

text \<open>The three that change files keep the frame when it says so.\<close>

lemma frame_changes:
  "Ev_path Op_unlink q \<in> A \<Longrightarrow> keeps I (fs_delete_file P q :: ('w, 'z, int) os_m) any"
  "Ev_rename p q \<in> A \<Longrightarrow> keeps I (fs_rename P p q :: ('w, 'z, int) os_m) any"
  "Ev_path (Op_open O_write_create) q \<in> A \<Longrightarrow> keeps I (fs_write_file_chunk P q bs off :: ('w, 'z, int) os_m) any"
proof -
  have "file_io \<subseteq> A" using quiet quiet_io(4) by (rule order_trans [rotated])
  then show "Ev_path (Op_open O_write_create) q \<in> A \<Longrightarrow> keeps I (fs_write_file_chunk P q bs off :: ('w, 'z, int) os_m) any"
    by (intro frame_does does_mono [OF does_chunks(2)]) simp
qed (auto intro!: frame_does doing)

end

locale effect_frame = call_frame I A for I :: "('w, 'z) os_scheme \<Rightarrow> bool" and A :: "os_event set" +
  assumes sends: "Ev_send fd bs \<in> A"
begin

lemma frame_send_all [framing]: "keeps I (net_send_all P fd data :: ('w, 'z, int) os_m) any"
  by (rule frame_does [OF does_net_send_all]) (use sends in blast)

end

section \<open>The contract of an assertion on transfers\<close>

locale transfer_frame = effect_frame I A for I :: "'w sys \<Rightarrow> bool" and A :: "os_event set" +
  assumes counts: "I s \<Longrightarrow> I (s\<lparr>sess := (sess s)\<lparr>s_bytes_downloaded := b, s_files_downloaded := f\<rparr>\<rparr>)"
    "I s \<Longrightarrow> I (s\<lparr>sess := (sess s)\<lparr>s_bytes_uploaded := b, s_files_uploaded := f\<rparr>\<rparr>)"
begin

lemma frame_send [framing]:
  "keeps I (session_send_response P code msg) any"
  "keeps I (session_send_response_multiline P code msg) any"
  unfolding session_send_response_def session_send_response_multiline_def by (intro framing)+

lemma frame_counts [framing]:
  "keeps I (count_download n) any" "keeps I (count_upload n) any" "keeps I failed_status any"
  "keeps I session_should_abort_transfer any"
  using counts by (auto simp: count_download_def count_upload_def failed_status_def session_should_abort_transfer_def
      keeps_def smod_def sget_def)

lemma frame_send_loop [framing]:
  "(\<And>k. keeps I (env k) any) \<Longrightarrow> keeps I (send_loop P env conv path i off rem tot) any"
proof (induction P env conv path i off rem tot rule: send_loop.induct)
  case (1 P env conv path i off rem tot)
  show ?case
  proof (cases "rem > 0")
    case False
    then show ?thesis by (subst send_loop.simps) (simp add: keeps_ret)
  next
    case True
    then show ?thesis
      by (subst send_loop.simps, simp only: not_True_eq_False if_False)
        (intro framing "1.prems" "1.IH"; simp)
  qed
qed

lemma frame_receive_loop [framing]:
  assumes "Ev_path (Op_open O_write_create) path \<in> A" "\<And>k. keeps I (env k) any"
  shows "keeps I (receive_loop P env conv path fuel i off totr totw) any"
  using assms by (induction fuel arbitrary: i totr totw) (auto intro!: framing frame_changes)

lemma frame_listing_loops [framing]:
  "(\<And>k. keeps I (env k) any) \<Longrightarrow> keeps I (listing_loop P env flt i infos n) any"
  "(\<And>k. keeps I (env k) any) \<Longrightarrow> keeps I (nlst_loop P env i infos) any"
proof -
  have "keeps I (format_list_line P info n) any" for info n
    unfolding format_list_line_def Let_def by (intro framing)
  then show "(\<And>k. keeps I (env k) any) \<Longrightarrow> keeps I (listing_loop P env flt i infos n) any"
    by (induction infos arbitrary: i n) (auto intro!: framing)
  show "(\<And>k. keeps I (env k) any) \<Longrightarrow> keeps I (nlst_loop P env i infos) any"
    by (induction infos arbitrary: i) (auto intro!: framing)
qed

text \<open>A whole transfer, with what the control thread does meanwhile.\<close>

lemma frame_run_transfer:
  assumes env: "\<And>k. keeps I (env k) any"
    and up: "tp_operation tp = TRANSFER_OP_RECV_FILE \<Longrightarrow> Ev_path (Op_open O_write_create) (tp_filepath tp) \<in> A"
  shows "keeps I (run_transfer P env fuel tp) any"
proof -
  have "keeps I (transfer_send_file P env path off) any" "keeps I (transfer_send_file_ascii P env path off) any"
    "keeps I (transfer_send_list P env path) any" "keeps I (transfer_send_nlst P env path) any" for path off
    unfolding transfer_send_file_def transfer_send_file_ascii_def transfer_send_list_def send_listing_def
      transfer_send_nlst_def Let_def
    by (intro framing env)+
  moreover have "keeps I (transfer_receive_file P env fuel path off) any" "keeps I (transfer_receive_file_ascii P env fuel path off) any"
    if "Ev_path (Op_open O_write_create) path \<in> A" for path off
    unfolding transfer_receive_file_def transfer_receive_file_ascii_def by (intro framing env that)+
  ultimately show ?thesis using up unfolding run_transfer_def
    by (cases "tp_operation tp") (auto intro!: framing)
qed

end

section \<open>The contract of an assertion on sessions\<close>

text \<open>Nothing that is written to the session or to the table of locks matters.\<close>

locale free_frame = call_frame I A for I :: "'w sys \<Rightarrow> bool" and A :: "os_event set" +
  assumes sess_free: "I s \<Longrightarrow> I (s\<lparr>sess := x\<rparr>)" and locks_free: "I s \<Longrightarrow> I (s\<lparr>locks := l\<rparr>)"
begin

lemma frame_smod [framing]: "keeps I (smod g :: ('w, unit) sys_m) any"
  unfolding smod_def by (rule keeps_modify) (rule sess_free)

lemma frame_locks [framing]:
  "keeps I (try_shared P p) any" "keeps I (try_exclusive P p) any"
  "keeps I (unlock_shared p) any" "keeps I (unlock_exclusive p) any"
proof -
  have mem: "keeps I (lock_memory P p) any" unfolding lock_memory_def by (intro framing)
  have op: "keeps I (lock_op f) any" for f using locks_free by (simp add: keeps_def lock_op_def case_prod_beta)
  show "keeps I (try_shared P p) any" "keeps I (try_exclusive P p) any"
    unfolding try_shared_def try_exclusive_def by (intro frame_bind mem op)+
  show "keeps I (unlock_shared p) any" "keeps I (unlock_exclusive p) any"
    using locks_free by (simp_all add: keeps_def unlock_shared_def unlock_exclusive_def)
qed

lemma frame_session [framing]:
  "keeps I (session_close_data_connection P) any"
  "keeps I (session_set_user name) any"
  "keeps I (session_authenticate P pw) any"
  "keeps I (session_check_path_access p perm) any"
  "keeps I (session_resolve_path p n) any"
  "keeps I (session_get_current_directory n) any"
  "keeps I (session_change_directory P p) any"
  "keeps I (session_set_type ty) any"
  "keeps I (session_set_mode tm) any"
  "keeps I (session_set_structure stru) any"
  "keeps I (session_set_restart_offset i) any"
  "keeps I session_get_restart_offset any"
  "keeps I session_clear_restart_offset any"
  "keeps I (session_set_rename_from p) any"
  "keeps I (session_get_rename_from n) any"
  "keeps I session_clear_rename_state any"
  "keeps I session_set_transfer_should_abort any"
  "keeps I session_get_transfer_thread_state any"
  "keeps I (session_set_transfer_thread_state st) any"
  "keeps I session_set_transfer_in_progress any"
  "keeps I session_clear_transfer_in_progress any"
  "keeps I session_clear_transfer_should_abort any"
    "keeps I (session_update_activity P) any"
  "keeps I (session_start_transfer_thread P tp) any"
  unfolding session_close_data_connection_def session_set_user_def session_authenticate_def Let_def
    session_check_path_access_def session_resolve_path_def session_get_current_directory_def session_set_type_def
    session_set_mode_def session_set_structure_def session_set_restart_offset_def session_get_restart_offset_def
    session_clear_restart_offset_def session_set_rename_from_def session_get_rename_from_def
    session_clear_rename_state_def session_set_transfer_should_abort_def session_get_transfer_thread_state_def
    session_clear_transfer_in_progress_def session_clear_transfer_should_abort_def
    session_update_activity_def session_change_directory_def session_set_transfer_thread_state_def
    session_set_transfer_in_progress_def session_start_transfer_thread_def
  by (intro framing)+

lemma frame_data [framing]:
  "keeps I (close_data_sockets P) any"
  "keeps I (session_set_port P ip port) any"
  "keeps I (session_set_pasv P pmin pmax) any"
  unfolding close_data_sockets_def session_set_port_def session_set_pasv_def by (intro framing)+

lemma frame_accept_loop [framing]: "keeps I (accept_loop P n l) any"
  by (induction n) (auto intro!: framing)

lemma frame_open_data [framing]: "keeps I (session_open_data_connection P tmo) any"
  unfolding session_open_data_connection_def by (intro framing)

lemma frame_prev [framing]:
  "keeps I (cmd_prev_handle_clear_restart cmd) any"
  "keeps I (cmd_prev_handle_clear_rename cmd) any"
  "keeps I (cmd_prev_handle_clear_all cmd) any"
  unfolding cmd_prev_handle_clear_restart_def cmd_prev_handle_clear_rename_def cmd_prev_handle_clear_all_def
  by (intro framing)+

end

locale session_frame = free_frame I A + effect_frame I A for I :: "'w sys \<Rightarrow> bool" and A :: "os_event set"

sublocale session_frame \<subseteq> transfer_frame I A
  by unfold_locales (rule sess_free; assumption)+

context session_frame
begin

lemma frame_start [framing]: "keeps I (open_and_start P operation p off lock clear) any"
  unfolding open_and_start_def by (intro framing)+

lemma frame_require [framing]:
  "keeps I h any \<Longrightarrow> keeps I (REQUIRE_AUTH P h) any"
  "keeps I h any \<Longrightarrow> keeps I (REQUIRE_AUTH_AND_ARG P cmd h) any"
  "keeps I h any \<Longrightarrow> keeps I (with_data_mode P h) any"
  "(\<And>q. keeps I (k q) any) \<Longrightarrow> keeps I (with_path P p perm k) any"
  unfolding REQUIRE_AUTH_AND_ARG_def REQUIRE_AUTH_def with_data_mode_def with_path_def
  by (intro framing; assumption)+

lemma frame_handlers:
  "keeps I (cmd_handle_user P cmd) any" "keeps I (cmd_handle_pass P cmd) any"
  "keeps I (cmd_handle_acct P cmd) any" "keeps I (cmd_handle_cwd P cmd) any"
  "keeps I (cmd_handle_cdup P cmd) any" "keeps I (cmd_handle_smnt P cmd) any"
  "keeps I (cmd_handle_quit P cmd) any" "keeps I (cmd_handle_port P cmd) any"
  "keeps I (cmd_handle_pasv P cmd) any" "keeps I (cmd_handle_type P cmd) any"
  "keeps I (cmd_handle_stru P cmd) any" "keeps I (cmd_handle_mode P cmd) any"
  "keeps I (cmd_handle_rest P cmd) any" "keeps I (cmd_handle_pwd P cmd) any"
  "keeps I (cmd_handle_mkd P cmd) any" "keeps I (cmd_handle_rmd P cmd) any"
  "keeps I (cmd_handle_abor P cmd) any" "keeps I (cmd_handle_syst P cmd) any"
  "keeps I (cmd_handle_noop P cmd) any" "keeps I (cmd_handle_feat P cmd) any"
  unfolding cmd_handle_user_def cmd_handle_pass_def cmd_handle_acct_def cmd_handle_cwd_def cmd_handle_cdup_def
    cmd_handle_smnt_def cmd_handle_quit_def cmd_handle_port_def cmd_handle_pasv_def cmd_handle_type_def
    cmd_handle_stru_def cmd_handle_mode_def cmd_handle_rest_def cmd_handle_pwd_def cmd_handle_mkd_def cmd_handle_rmd_def
    cmd_handle_abor_def cmd_handle_syst_def cmd_handle_noop_def cmd_handle_feat_def Let_def
  by (intro framing)+

lemma frame_file_handlers:
  "keeps I (cmd_handle_rein P cmd) any"
  "keeps I (cmd_handle_retr P cmd) any" "keeps I (cmd_handle_appe P cmd) any"
  "keeps I (cmd_handle_list P cmd) any" "keeps I (cmd_handle_nlst P cmd) any"
  "keeps I (cmd_handle_rnfr P cmd) any" "keeps I (cmd_handle_size P cmd) any"
  "keeps I (cmd_handle_mdtm P cmd) any"
  unfolding cmd_handle_rein_def cmd_handle_retr_def cmd_handle_appe_def cmd_handle_list_def
    cmd_handle_nlst_def cmd_handle_rnfr_def cmd_handle_size_def cmd_handle_mdtm_def
  by (intro framing)+

text \<open>The three commands that delete or rename files.\<close>

lemma frame_deleting_handlers:
  assumes "\<And>q. Ev_path Op_unlink q \<in> A" "\<And>p q. Ev_rename p q \<in> A"
  shows "keeps I (cmd_handle_stor P cmd) any" "keeps I (cmd_handle_rnto P cmd) any" "keeps I (cmd_handle_dele P cmd) any"
  unfolding cmd_handle_stor_def cmd_handle_rnto_def cmd_handle_dele_def
  by (intro framing frame_changes assms)+

text \<open>A command is kept when its handlers are.\<close>

lemma frame_entries:
  "\<forall>e \<in> set (standard_handlers P). fst e \<notin> {''STOR'', ''RNTO'', ''DELE''} \<longrightarrow> keeps I (run_entry (snd e) cmd) any"
  unfolding standard_handlers_def list.set ball_simps snd_conv fst_conv run_entry_def prod.case option.case
  by (intro conjI TrueI impI framing frame_prev frame_handlers frame_file_handlers; simp)

lemma frame_dispatch_sparing:
  assumes "command cmd \<notin> {''STOR'', ''RNTO'', ''DELE''}"
  shows "keeps I (cmd_dispatch (ftp_table P) cmd) any"
proof (cases "map_of (standard_handlers P) (command cmd)")
  case None
  then show ?thesis by (simp add: dispatch_standard framing)
next
  case (Some e)
  then have "(command cmd, e) \<in> set (standard_handlers P)" by (rule map_of_SomeD)
  with frame_entries assms have "keeps I (run_entry e cmd) any" by fastforce
  then show ?thesis by (simp add: dispatch_standard Some)
qed

lemma frame_dispatch:
  assumes "\<And>q. Ev_path Op_unlink q \<in> A" "\<And>p q. Ev_rename p q \<in> A"
  shows "keeps I (cmd_dispatch (ftp_table P) cmd) any"
proof (cases "map_of (standard_handlers P) (command cmd)")
  case None
  then show ?thesis by (simp add: dispatch_standard framing)
next
  case (Some e)
  then have "(command cmd, e) \<in> set (standard_handlers P)" by (rule map_of_SomeD)
  moreover have "\<forall>e \<in> set (standard_handlers P). keeps I (run_entry (snd e) cmd) any"
    unfolding standard_handlers_def list.set ball_simps snd_conv run_entry_def prod.case option.case
    by (intro conjI TrueI framing frame_prev frame_handlers frame_file_handlers frame_deleting_handlers assms)
  ultimately have "keeps I (run_entry e cmd) any" by fastforce
  then show ?thesis by (simp add: dispatch_standard Some)
qed

text \<open>The end of a transfer's thread, and the whole thread.\<close>

lemma frame_finish [framing]: "keeps I (finish_transfer P tp result) any"
proof -
  have "keeps I (send_completion P result) any" "keeps I (release_transfer_lock tp) any"
    unfolding send_completion_def release_transfer_lock_def by (cases result) (auto intro!: framing)
  then show ?thesis unfolding finish_transfer_def by (intro framing)
qed

end

end
