(* ===== verification/Locking.thy ===== *)
theory Locking
  imports Frames
begin

text \<open>
  What a command does to the table of file locks and to the session's transfer. A command either
  leaves both as they are, every lock it took released again, or it has started a transfer, which
  then owns exactly the lock that the command took for it.
\<close>

section \<open>Locks and transfer unchanged\<close>

definition transfer_of :: "session_t \<Rightarrow> transfer_thread_state_t \<times> transfer_params_t option \<times> bool" where
  "transfer_of s = (s_transfer_thread_state s, s_transfer_params s, s_transfer_thread s)"

definition steady ::
  "(string \<Rightarrow> nat \<times> nat \<times> nat) \<Rightarrow> transfer_thread_state_t \<times> transfer_params_t option \<times> bool \<Rightarrow> 'w sys \<Rightarrow> bool" where
  "steady v t s \<longleftrightarrow> wf_locks (locks s) \<and> lock_view (locks s) = v \<and> transfer_of (sess s) = t"

named_theorems steadies \<open>operations that leave the locks and the transfer alone\<close>

interpretation steady: effect_frame "steady v t :: 'w sys \<Rightarrow> bool" UNIV for v t
proof
  fix s s' :: "'w sys"
  assume s: "steady v t s" and m: "os.more s' = os.more s"
  show "steady v t s'" using s by (simp only: steady_def more_sys [OF m])
qed simp_all

lemma steady_smod:
  assumes "\<And>s. transfer_of (f s) = transfer_of s"
  shows "keeps (steady v t :: 'w sys \<Rightarrow> bool) (smod f) any"
  unfolding smod_def by (rule keeps_modify) (simp add: steady_def assms)

lemma steady_smods [steadies]:
  "keeps (steady v t) (smod (\<lambda>s. s\<lparr>s_data_socket := d\<rparr>)) any"
  "keeps (steady v t) (smod (\<lambda>s. s\<lparr>s_data_listen_socket := d\<rparr>)) any"
  "keeps (steady v t) (smod (\<lambda>s. s\<lparr>s_data_mode := m\<rparr>)) any"
  "keeps (steady v t) (smod (\<lambda>s. s\<lparr>s_should_quit := b\<rparr>)) any"
  "keeps (steady v t) (smod (\<lambda>s. s\<lparr>s_transfer_should_abort := b\<rparr>)) any"
  "keeps (steady v t) (smod (\<lambda>s. s\<lparr>s_transfer_in_progress := b\<rparr>)) any"
  "keeps (steady v t) (smod (\<lambda>s. s\<lparr>s_transfer_type := ty\<rparr>)) any"
  "keeps (steady v t) (smod (\<lambda>s. s\<lparr>s_transfer_mode := tm\<rparr>)) any"
  "keeps (steady v t) (smod (\<lambda>s. s\<lparr>s_data_structure := stru\<rparr>)) any"
  "keeps (steady v t) (smod (\<lambda>s. s\<lparr>s_rename_pending := b, s_rename_from := p\<rparr>)) any"
  "keeps (steady v t) (smod (\<lambda>s. s\<lparr>s_rename_from := p, s_rename_pending := b\<rparr>)) any"
  "keeps (steady v t) (smod (\<lambda>s. s\<lparr>s_passive_port := u, s_data_mode := m\<rparr>)) any"
  "keeps (steady v t) (smod (\<lambda>s. s\<lparr>s_active_ip := ip, s_active_port := u, s_data_mode := m\<rparr>)) any"
  "keeps (steady v t) (smod (\<lambda>s. s\<lparr>s_current_dir := g s\<rparr>)) any"
  "keeps (steady v t) (smod (\<lambda>s. s\<lparr>s_restart_offset := i\<rparr>)) any"
  "keeps (steady v t) (smod (\<lambda>s. s\<lparr>s_username := p, s_state := st\<rparr>)) any"
  "keeps (steady v t) (smod (\<lambda>s. s\<lparr>s_permissions := pm, s_user_home_dir := p, s_authenticated := b, s_state := st\<rparr>)) any"
  "keeps (steady v t) (smod (\<lambda>s. s\<lparr>s_last_activity := i\<rparr>)) any"
  by (rule steady_smod; simp add: transfer_of_def)+

lemma steady_basic [steadies]:
  "keeps (steady v t) (os m :: ('w, 'a) sys_m) any" "keeps (steady v t) (ret a) any"
  "keeps (steady v t) (sget f) any" "keeps (steady v t) (gets g) any"
  by (rule framing TrueI)+

lemma steady_bind [steadies]:
  "keeps (steady v t) m any \<Longrightarrow> (\<And>a. keeps (steady v t) (f a) G) \<Longrightarrow> keeps (steady v t) (State_Monad.bind m f) G"
  by (rule keeps_bind)

lemmas [steadies] = TrueI keeps_if keeps_option keeps_sum keeps_prod guard_mode_cases

lemmas steady_calls [steadies] = steady.frame_os(2) steady.frame_net steady.frame_send_all steady.frame_fs steady.frame_changes [OF UNIV_I]

lemma steady_send [steadies]:
  "keeps (steady v t) (session_send_response P code msg) any"
  "keeps (steady v t) (session_send_response_multiline P code msg) any"
  unfolding session_send_response_def session_send_response_multiline_def by (intro steadies)+

lemma steady_session [steadies]:
  "keeps (steady v t) (session_close_data_connection P) any"
  "keeps (steady v t) (session_set_user name) any"
  "keeps (steady v t) (session_authenticate P pw) any"
  "keeps (steady v t) (session_check_path_access p perm) any"
  "keeps (steady v t) (session_resolve_path p n) any"
  "keeps (steady v t) (session_get_current_directory n) any"
  "keeps (steady v t) (session_set_type ty) any"
  "keeps (steady v t) (session_set_mode tm) any"
  "keeps (steady v t) (session_set_structure stru) any"
  "keeps (steady v t) (session_set_restart_offset i) any"
  "keeps (steady v t) session_get_restart_offset any"
  "keeps (steady v t) session_clear_restart_offset any"
  "keeps (steady v t) (session_set_rename_from p) any"
  "keeps (steady v t) (session_get_rename_from n) any"
  "keeps (steady v t) session_clear_rename_state any"
  "keeps (steady v t) session_set_transfer_should_abort any"
  "keeps (steady v t) session_get_transfer_thread_state any"
  "keeps (steady v t) session_clear_transfer_in_progress any"
  "keeps (steady v t) session_clear_transfer_should_abort any"
  "keeps (steady v t) session_should_abort_transfer any"
  "keeps (steady v t) (session_update_activity P) any"
  unfolding session_close_data_connection_def session_set_user_def session_authenticate_def Let_def
    session_check_path_access_def session_resolve_path_def session_get_current_directory_def session_set_type_def
    session_set_mode_def session_set_structure_def session_set_restart_offset_def session_get_restart_offset_def
    session_clear_restart_offset_def session_set_rename_from_def session_get_rename_from_def
    session_clear_rename_state_def session_set_transfer_should_abort_def session_get_transfer_thread_state_def
    session_clear_transfer_in_progress_def session_clear_transfer_should_abort_def session_should_abort_transfer_def
    session_update_activity_def
  by (intro steadies)+


lemma steady_change_directory [steadies]: "keeps (steady v t) (session_change_directory P p) any"
  unfolding session_change_directory_def by (intro steadies)

lemma steady_data [steadies]:
  "keeps (steady v t) (close_data_sockets P) any"
  "keeps (steady v t) (session_set_port P ip port) any"
  "keeps (steady v t) (session_set_pasv P pmin pmax) any"
  unfolding close_data_sockets_def session_set_port_def session_set_pasv_def by (intro steadies)+

lemma steady_accept_loop [steadies]: "keeps (steady v t) (accept_loop P n l) any"
  by (induction n) (auto intro!: steadies)

lemma steady_open_data [steadies]: "keeps (steady v t) (session_open_data_connection P tmo) any"
  unfolding session_open_data_connection_def by (intro steadies)

lemma steady_require [steadies]:
  "keeps (steady v t) h any \<Longrightarrow> keeps (steady v t) (REQUIRE_AUTH P h) any"
  "keeps (steady v t) h any \<Longrightarrow> keeps (steady v t) (REQUIRE_AUTH_AND_ARG P cmd h) any"
  "keeps (steady v t) h any \<Longrightarrow> keeps (steady v t) (with_data_mode P h) any"
  "(\<And>q. keeps (steady v t) (k q) any) \<Longrightarrow> keeps (steady v t) (with_path P p perm k) any"
  unfolding REQUIRE_AUTH_AND_ARG_def REQUIRE_AUTH_def with_data_mode_def with_path_def
  by (intro steadies; assumption)+

lemma steady_prev:
  "keeps (steady v t) (cmd_prev_handle_clear_restart cmd) any"
  "keeps (steady v t) (cmd_prev_handle_clear_rename cmd) any"
  "keeps (steady v t) (cmd_prev_handle_clear_all cmd) any"
  unfolding cmd_prev_handle_clear_restart_def cmd_prev_handle_clear_rename_def cmd_prev_handle_clear_all_def
  by (intro steadies)+

lemma steady_handlers:
  "keeps (steady v t) (cmd_handle_user P cmd) any" "keeps (steady v t) (cmd_handle_pass P cmd) any"
  "keeps (steady v t) (cmd_handle_acct P cmd) any" "keeps (steady v t) (cmd_handle_cwd P cmd) any"
  "keeps (steady v t) (cmd_handle_cdup P cmd) any" "keeps (steady v t) (cmd_handle_smnt P cmd) any"
  "keeps (steady v t) (cmd_handle_quit P cmd) any" "keeps (steady v t) (cmd_handle_port P cmd) any"
  "keeps (steady v t) (cmd_handle_pasv P cmd) any" "keeps (steady v t) (cmd_handle_type P cmd) any"
  "keeps (steady v t) (cmd_handle_stru P cmd) any" "keeps (steady v t) (cmd_handle_mode P cmd) any"
  "keeps (steady v t) (cmd_handle_rest P cmd) any" "keeps (steady v t) (cmd_handle_pwd P cmd) any"
  "keeps (steady v t) (cmd_handle_mkd P cmd) any" "keeps (steady v t) (cmd_handle_rmd P cmd) any"
  "keeps (steady v t) (cmd_handle_abor P cmd) any" "keeps (steady v t) (cmd_handle_syst P cmd) any"
  "keeps (steady v t) (cmd_handle_noop P cmd) any" "keeps (steady v t) (cmd_handle_feat P cmd) any"
  unfolding cmd_handle_user_def cmd_handle_pass_def cmd_handle_acct_def cmd_handle_cwd_def cmd_handle_cdup_def
    cmd_handle_smnt_def cmd_handle_quit_def cmd_handle_port_def cmd_handle_pasv_def cmd_handle_type_def
    cmd_handle_stru_def cmd_handle_mode_def cmd_handle_rest_def cmd_handle_pwd_def cmd_handle_mkd_def cmd_handle_rmd_def
    cmd_handle_abor_def cmd_handle_syst_def cmd_handle_noop_def cmd_handle_feat_def Let_def
  by (intro steadies)+

section \<open>Taking and releasing a lock\<close>

text \<open>The counts after a shared, and an exclusive, lock on \<open>p\<close> has been taken.\<close>

definition shared_view :: "string \<Rightarrow> (string \<Rightarrow> nat \<times> nat \<times> nat) \<Rightarrow> string \<Rightarrow> nat \<times> nat \<times> nat" where
  "shared_view p v = (case v p of (r, w, q) \<Rightarrow> v(p := (r + 1, w, q)))"

definition exclusive_view :: "string \<Rightarrow> (string \<Rightarrow> nat \<times> nat \<times> nat) \<Rightarrow> string \<Rightarrow> nat \<times> nat \<times> nat" where
  "exclusive_view p v = (case v p of (r, w, q) \<Rightarrow> v(p := (r, 1, q)))"

text \<open>When it may be taken.\<close>

definition sharable :: "string \<Rightarrow> (string \<Rightarrow> nat \<times> nat \<times> nat) \<Rightarrow> bool" where
  "sharable p v \<longleftrightarrow> (case v p of (r, w, q) \<Rightarrow> w = 0 \<and> q = 0)"

definition lockable :: "string \<Rightarrow> (string \<Rightarrow> nat \<times> nat \<times> nat) \<Rightarrow> bool" where
  "lockable p v \<longleftrightarrow> (case v p of (r, w, q) \<Rightarrow> w = 0 \<and> r = 0)"

lemma steady_lock_memory: "keeps (steady v t) (lock_memory P p) any"
  unfolding lock_memory_def by (intro steadies)

lemma leads_try_shared:
  "leads (steady v t) (try_shared P p) (\<lambda>c s. if c \<noteq> 0 then steady v t s else sharable p v \<and> steady (shared_view p v) t s)"
  unfolding try_shared_def
proof (rule leads_bind [OF steady_lock_memory], unfold leads_def, intro allI impI)
  fix mem and s :: "'a sys" assume s: "steady v t s"
  obtain c es where a: "file_lock_try_acquire_shared mem p (locks s) = (c, es)" by fastforce
  obtain x y z where v: "lock_view (locks s) p = (x, y, z)" by (cases "lock_view (locks s) p")
  let ?R = "run_state (lock_op (file_lock_try_acquire_shared mem p)) s"
  from flk.try_shared [OF _ v a] s v
  show "if fst ?R \<noteq> 0 then steady v t (snd ?R) else sharable p v \<and> steady (shared_view p v) t (snd ?R)"
    by (auto simp: lock_op_def a steady_def sharable_def shared_view_def)
qed

lemma leads_try_exclusive:
  "leads (steady v t) (try_exclusive P p)
     (\<lambda>c s. if c \<noteq> 0 then steady v t s else lockable p v \<and> steady (exclusive_view p v) t s)"
  unfolding try_exclusive_def
proof (rule leads_bind [OF steady_lock_memory], unfold leads_def, intro allI impI)
  fix mem and s :: "'a sys" assume s: "steady v t s"
  obtain c es where a: "file_lock_try_acquire_exclusive mem p (locks s) = (c, es)" by fastforce
  obtain x y z where v: "lock_view (locks s) p = (x, y, z)" by (cases "lock_view (locks s) p")
  let ?R = "run_state (lock_op (file_lock_try_acquire_exclusive mem p)) s"
  from flk.try_exclusive [OF _ v a] s v
  show "if fst ?R \<noteq> 0 then steady v t (snd ?R) else lockable p v \<and> steady (exclusive_view p v) t (snd ?R)"
    by (auto simp: lock_op_def a steady_def lockable_def exclusive_view_def)
qed

lemma leads_unlock_shared: "leads (steady (shared_view p v) t) (unlock_shared p) (\<lambda>_. steady v t)"
  unfolding leads_def
proof (intro allI impI)
  fix s :: "'a sys" assume s: "steady (shared_view p v) t s"
  obtain x y z where v: "v p = (x, y, z)" by (cases "v p")
  with s have "wf_locks (locks s)" "lock_view (locks s) = v(p := (x + 1, y, z))"
    by (simp_all add: steady_def shared_view_def)
  from flk.release_shared [OF this(1), of p "x + 1" y z] this(2) s v
  show "steady v t (snd (run_state (unlock_shared p) s))"
    by (auto simp: steady_def unlock_shared_def)
qed

lemma leads_unlock_exclusive:
  assumes "lockable p v"
  shows "leads (steady (exclusive_view p v) t) (unlock_exclusive p) (\<lambda>_. steady v t)"
  unfolding leads_def
proof (intro allI impI)
  fix s :: "'a sys" assume s: "steady (exclusive_view p v) t s"
  obtain z where v: "v p = (0, 0, z)" using assms by (cases "v p") (auto simp: lockable_def)
  with s have "wf_locks (locks s)" "lock_view (locks s) = v(p := (0, 1, z))"
    by (simp_all add: steady_def exclusive_view_def)
  from flk.release_exclusive [OF this(1), of p 0 1 z] this(2) s v
  show "steady v t (snd (run_state (unlock_exclusive p) s))"
    by (auto simp: steady_def unlock_exclusive_def)
qed


text \<open>A lock that a handler takes and releases again.\<close>

lemma keeps_leads: "keeps I m any \<longleftrightarrow> leads I m (\<lambda>_. I)"
  by (auto simp: keeps_def leads_def)

lemma lock_bracket:
  assumes take: "leads (steady v t) m (\<lambda>c s. if c \<noteq> (0 :: int) then steady v t s else ok \<and> steady v' t s)"
    and unlock: "ok \<Longrightarrow> leads (steady v' t) u (\<lambda>_. steady v t)"
    and "keeps (steady v t) A any" "keeps (steady v' t) B any" "\<And>a. keeps (steady v t) (C a) any"
  shows "keeps (steady v t :: 'w sys \<Rightarrow> bool) (do { lock \<leftarrow> m; if lock \<noteq> 0 then A else do { a \<leftarrow> B; u; C a } }) any"
  unfolding keeps_leads
proof (rule leads_seq [OF take])
  fix lock :: int
  let ?I = "\<lambda>s :: 'w sys. if lock \<noteq> 0 then steady v t s else ok \<and> steady v' t s"
  have "leads (\<lambda>s. ok \<and> steady v' t s) (do { a \<leftarrow> B; u; C a }) (\<lambda>_. steady v t)" if ok
    using that assms(3-5)
    by (auto simp: keeps_leads intro!: leads_seq [where J = "\<lambda>_. steady v' t"] leads_seq [OF unlock] intro: leads_weaken)
  then have "leads (\<lambda>s. ok \<and> steady v' t s) (do { a \<leftarrow> B; u; C a }) (\<lambda>_. steady v t)" by (auto simp: leads_def)
  then show "leads ?I (if lock \<noteq> 0 then A else do { a \<leftarrow> B; u; C a }) (\<lambda>_. steady v t)"
    using assms(3) by (auto simp: keeps_leads)
qed

lemmas shared_bracket = lock_bracket [OF leads_try_shared leads_unlock_shared]
lemmas exclusive_bracket = lock_bracket [OF leads_try_exclusive leads_unlock_exclusive]

lemma steady_lock_handlers:
  "keeps (steady v t) (cmd_handle_size P cmd) any"
  "keeps (steady v t) (cmd_handle_mdtm P cmd) any"
  "keeps (steady v t) (cmd_handle_dele P cmd) any"
  unfolding cmd_handle_size_def cmd_handle_mdtm_def cmd_handle_dele_def
  by (intro shared_bracket exclusive_bracket steadies)+

lemma steady_rnfr: "keeps (steady v t) (cmd_handle_rnfr P cmd) any"
proof -
  have b: "keeps (steady v t) (do {
         lock \<leftarrow> try_exclusive P p;
         if lock \<noteq> 0 then session_send_response P PROTO_RESP_FILE_ACTION_ABORTED ''File is busy, try again later''
         else do {
           a \<leftarrow> ret ();
           unlock_exclusive p;
           r \<leftarrow> session_set_rename_from p;
           if r \<noteq> 0 then session_send_response P PROTO_RESP_LOCAL_ERROR ''Failed to store rename source''
           else session_send_response P PROTO_RESP_FILE_ACTION_PENDING ''File exists, ready for destination name'' } }) any" for p
    by (intro exclusive_bracket steadies)
  show ?thesis unfolding cmd_handle_rnfr_def by (intro b [unfolded bind_left_identity] steadies)
qed

text \<open>RNTO tests twice whether it has the lock.\<close>

lemma rename_bracket:
  assumes "keeps (steady v t) A any" "\<And>v. keeps (steady v t) B any" "\<And>a. keeps (steady v t) (C a) any"
  shows "keeps (steady v t :: 'w sys \<Rightarrow> bool) (do {
      lock \<leftarrow> try_exclusive P p;
      a \<leftarrow> (if lock \<noteq> 0 then A else B);
      (if lock = 0 then unlock_exclusive p else ret ());
      C a }) any"
proof -
  have "keeps (steady v t :: 'w sys \<Rightarrow> bool) (do { lock \<leftarrow> try_exclusive P p;
      if lock \<noteq> 0 then do { a \<leftarrow> A; C a } else do { a \<leftarrow> B; unlock_exclusive p; C a } }) any"
    by (intro exclusive_bracket steady_bind assms)
  then show ?thesis unfolding keeps_def by (auto simp: case_prod_beta)
qed

lemma steady_rnto: "keeps (steady v t) (cmd_handle_rnto P cmd) any"
  unfolding cmd_handle_rnto_def by (intro rename_bracket steadies)

section \<open>Starting a transfer\<close>

text \<open>The lock that a started transfer owns.\<close>

definition acquired ::
  "transfer_params_t \<Rightarrow> (string \<Rightarrow> nat \<times> nat \<times> nat) \<Rightarrow> (string \<Rightarrow> nat \<times> nat \<times> nat) \<Rightarrow> bool" where
  "acquired tp v v' \<longleftrightarrow>
     (case tp_operation tp of
        TRANSFER_OP_SEND_FILE \<Rightarrow> tp_lock_acquired tp \<and> sharable (tp_filepath tp) v \<and> v' = shared_view (tp_filepath tp) v
      | TRANSFER_OP_RECV_FILE \<Rightarrow> tp_lock_acquired tp \<and> lockable (tp_filepath tp) v \<and> v' = exclusive_view (tp_filepath tp) v
      | _ \<Rightarrow> \<not> tp_lock_acquired tp \<and> v' = v)"

definition outcome ::
  "(string \<Rightarrow> nat \<times> nat \<times> nat) \<Rightarrow> transfer_thread_state_t \<times> transfer_params_t option \<times> bool \<Rightarrow> 'w sys \<Rightarrow> bool" where
  "outcome v t s \<longleftrightarrow> steady v t s \<or>
     fst t = TRANSFER_THREAD_IDLE \<and>
     (\<exists>tp v'. acquired tp v v' \<and> steady v' (TRANSFER_THREAD_STARTING, Some tp, True) s)"

lemma outcome_steady: "steady v t s \<Longrightarrow> outcome v t s"
  by (simp add: outcome_def)

text \<open>Between two steps of the process, a session has parameters exactly when it has a transfer, whose
  thread it will join; the two last states occur only while the thread ends.\<close>

definition consistent :: "transfer_thread_state_t \<times> transfer_params_t option \<times> bool \<Rightarrow> bool" where
  "consistent t \<longleftrightarrow>
     (case t of (st, ps, th) \<Rightarrow> (st = TRANSFER_THREAD_IDLE \<longleftrightarrow> ps = None) \<and> (ps \<noteq> None \<longrightarrow> th) \<and>
        st \<noteq> TRANSFER_THREAD_COMPLETING \<and> st \<noteq> TRANSFER_THREAD_ABORTED)"

lemma leads_start_thread:
  assumes "consistent t"
  shows "leads (steady v t) (session_start_transfer_thread P tp)
     (\<lambda>r s. if r \<noteq> 0 then steady v t s
            else fst t = TRANSFER_THREAD_IDLE \<and> steady v (TRANSFER_THREAD_STARTING, Some tp, True) s)"
  using assms
  by (auto simp: leads_def session_start_transfer_thread_def sget_def smod_def run_os steady_def transfer_of_def
      consistent_def case_prod_beta split: if_splits)


text \<open>
  The end of the block of a transfer command: nothing has changed, or the transfer has been started.
  The two flags are those of \<open>open_and_start\<close>.
\<close>

definition handed ::
  "(string \<Rightarrow> nat \<times> nat \<times> nat) \<Rightarrow> transfer_thread_state_t \<times> transfer_params_t option \<times> bool \<Rightarrow>
   transfer_operation_t \<Rightarrow> string \<Rightarrow> bool \<Rightarrow> int \<times> bool \<times> bool \<Rightarrow> 'w sys \<Rightarrow> bool" where
  "handed v t k path lock r s \<longleftrightarrow>
     (if snd (snd r) then fst t = TRANSFER_THREAD_IDLE \<and>
        (\<exists>tp. tp_operation tp = k \<and> tp_filepath tp = path \<and> tp_lock_acquired tp = lock \<and>
           steady v (TRANSFER_THREAD_STARTING, Some tp, True) s)
      else steady v t s)"

lemma leads_refused [leading]: "leads (steady v t) (ret (r, b, False)) (handed v t k path lock)"
  by (rule leads_ret) (simp add: handed_def)

lemma leads_open_and_start [leading]:
  assumes t: "consistent t" and p: "length path < SESSION_MAX_PATH"
  shows "leads (steady v t) (open_and_start P k path off lock clear) (handed v t k path lock)"
  unfolding open_and_start_def
proof (rule leads_bind [OF steady_open_data], rule leads_if, goal_cases)
  case 1
  then show ?case by (intro leads_bind steadies leading)
next
  case 2
  have eq: "strncpy_buf 1024 path = path" using p by (simp add: strncpy_buf_id SESSION_MAX_PATH_def)
  let ?tp = "\<lambda>type. \<lparr>tp_operation = k, tp_filepath = path, tp_offset = off, tp_type = type, tp_lock_acquired = lock\<rparr>"
  have "leads (\<lambda>s. if r \<noteq> 0 then steady v t s
            else fst t = TRANSFER_THREAD_IDLE \<and> steady v (TRANSFER_THREAD_STARTING, Some (?tp type), True) s)
      (if r \<noteq> 0 then do {
         response \<leftarrow> session_send_response P PROTO_RESP_LOCAL_ERROR ''Failed to start transfer'';
         ret (response, True, False) }
       else ret (0, False, True)) (handed v t k path lock)" for r type
    by (cases "r = 0")
      (auto simp: handed_def intro!: leads_ret leads_bind steady_send leads_refused exI [of _ "?tp type"])
  then show ?case unfolding eq by (intro leads_bind steadies leads_seq [OF leads_start_thread [OF t]])
qed

lemma leads_transfer:
  assumes take: "leads (steady v t) m (\<lambda>c s. if c \<noteq> (0 :: int) then steady v t s else ok \<and> steady v' t s)"
    and unlock: "ok \<Longrightarrow> leads (steady v' t) u (\<lambda>_. steady v t)"
    and own: "\<And>tp. ok \<Longrightarrow> tp_operation tp = k \<Longrightarrow> tp_filepath tp = path \<Longrightarrow> tp_lock_acquired tp \<Longrightarrow> acquired tp v v'"
    and "keeps (steady v t) A any" "leads (steady v' t) B (handed v' t k path True)"
  shows "leads (steady v t :: 'w sys \<Rightarrow> bool) (do {
      lock \<leftarrow> m;
      if lock \<noteq> 0 then A
      else do {
        (response, opened, started) \<leftarrow> B;
        (if opened then session_close_data_connection P else ret ());
        (if \<not> started then u else ret ());
        ret response } }) (\<lambda>_. outcome v t)" (is "leads _ (State_Monad.bind m ?f) _")
proof (rule leads_seq [OF take])
  fix lock :: int
  let ?rest = "\<lambda>(response :: int, opened, started). do {
        (if opened then session_close_data_connection P else ret ());
        (if \<not> started then u else ret ());
        ret response } :: ('w, int) sys_m"
  have rest: "leads (handed v' t k path True r) (?rest r) (\<lambda>_. outcome v t)" if ok for r
  proof (cases "snd (snd r)")
    case False
    have "leads (steady v' t) (?rest r) (\<lambda>_. steady v t)"
      using False by (cases r) (auto intro!: leads_bind steadies leads_seq [OF unlock [OF that]] leads_ret)
    with False show ?thesis by (simp add: leads_def handed_def outcome_steady)
  next
    case True
    have "leads (\<lambda>s. fst t = TRANSFER_THREAD_IDLE \<and> steady v' (TRANSFER_THREAD_STARTING, Some tp, True) s) (?rest r)
        (\<lambda>_. outcome v t)" if "tp_operation tp = k" "tp_filepath tp = path" "tp_lock_acquired tp" for tp
    proof -
      have "keeps (steady v' (TRANSFER_THREAD_STARTING, Some tp, True)) (?rest r) any"
        using True by (cases r) (auto intro!: steadies)
      then show ?thesis using own [OF \<open>ok\<close> that] by (auto simp: leads_def outcome_def dest: keeps_snd)
    qed
    with True show ?thesis by (auto simp: leads_def handed_def)
  qed
  have "leads (\<lambda>s. ok \<and> steady v' t s) (State_Monad.bind B ?rest) (\<lambda>_. outcome v t)"
    using leads_seq [OF assms(5) rest] by (auto simp: leads_def)
  then show "leads (\<lambda>s. if lock \<noteq> 0 then steady v t s else ok \<and> steady v' t s) (?f lock) (\<lambda>_. outcome v t)"
    using assms(4) by (auto simp: leads_def keeps_def outcome_steady)
qed


section \<open>The transfer commands\<close>

lemma outcome_keeps: "keeps (steady v t) m any \<Longrightarrow> leads (steady v t) m (\<lambda>_. outcome v t)"
  by (erule leads_keeps) (rule outcome_steady)

lemma outcome_send [leading]: "leads (steady v t) (session_send_response P code msg) (\<lambda>_. outcome v t)"
  by (rule outcome_keeps [OF steady_send(1)])

lemma outcome_require [leading]:
  "leads (steady v t) h (\<lambda>_. outcome v t) \<Longrightarrow> leads (steady v t) (REQUIRE_AUTH P h) (\<lambda>_. outcome v t)"
  "leads (steady v t) h (\<lambda>_. outcome v t) \<Longrightarrow> leads (steady v t) (REQUIRE_AUTH_AND_ARG P cmd h) (\<lambda>_. outcome v t)"
  "leads (steady v t) h (\<lambda>_. outcome v t) \<Longrightarrow> leads (steady v t) (with_data_mode P h) (\<lambda>_. outcome v t)"
  unfolding REQUIRE_AUTH_AND_ARG_def REQUIRE_AUTH_def with_data_mode_def
  by (intro leads_bind steady_basic leading; assumption)+

lemma outcome_with_path [leading]:
  assumes "\<And>q. length q < SESSION_MAX_PATH \<Longrightarrow> leads (steady v t) (h q) (\<lambda>_. outcome v t)"
  shows "leads (steady v t) (with_path P p perm h) (\<lambda>_. outcome v t)"
proof -
  have h: "leads (\<lambda>s. steady v t s \<and> (\<forall>q. r = Some q \<longrightarrow> length q < SESSION_MAX_PATH))
      (case r of None \<Rightarrow> session_send_response P PROTO_RESP_FILE_UNAVAILABLE ''Invalid path'' | Some q \<Rightarrow> h q)
      (\<lambda>_. outcome v t)" for r
    using assms by (auto simp: leads_def split: option.splits intro!: leadsD [OF outcome_send])
  have res: "leads (steady v t) (session_resolve_path p SESSION_MAX_PATH)
      (\<lambda>r s. steady v t s \<and> (\<forall>q. r = Some q \<longrightarrow> length q < SESSION_MAX_PATH))"
    by (auto simp: leads_def session_resolve_path_def sget_def dest: resolve_path_inside(2))
  show ?thesis
    unfolding with_path_def by (intro leads_seq [OF res h] leads_bind steadies leading)
qed

lemma shared_transfer:
  assumes "keeps (steady v t) A any"
    and "leads (steady (shared_view path v) t) B (handed (shared_view path v) t TRANSFER_OP_SEND_FILE path True)"
  shows "leads (steady v t) (do {
      lock \<leftarrow> try_shared P path;
      if lock \<noteq> 0 then A
      else do {
        (response, opened, started) \<leftarrow> B;
        (if opened then session_close_data_connection P else ret ());
        (if \<not> started then unlock_shared path else ret ());
        ret response } }) (\<lambda>_. outcome v t)"
  by (rule leads_transfer [OF leads_try_shared leads_unlock_shared _ assms]) (simp_all add: acquired_def)

lemma exclusive_transfer:
  assumes "keeps (steady v t) A any"
    and "leads (steady (exclusive_view path v) t) B (handed (exclusive_view path v) t TRANSFER_OP_RECV_FILE path True)"
  shows "leads (steady v t) (do {
      lock \<leftarrow> try_exclusive P path;
      if lock \<noteq> 0 then A
      else do {
        (response, opened, started) \<leftarrow> B;
        (if opened then session_close_data_connection P else ret ());
        (if \<not> started then unlock_exclusive path else ret ());
        ret response } }) (\<lambda>_. outcome v t)"
  by (rule leads_transfer [OF leads_try_exclusive leads_unlock_exclusive _ assms]) (simp_all add: acquired_def)

lemma outcome_file_transfers:
  assumes "consistent t"
  shows "leads (steady v t) (cmd_handle_retr P cmd) (\<lambda>_. outcome v t)"
    "leads (steady v t) (cmd_handle_stor P cmd) (\<lambda>_. outcome v t)"
    "leads (steady v t) (cmd_handle_appe P cmd) (\<lambda>_. outcome v t)"
  unfolding cmd_handle_retr_def cmd_handle_stor_def cmd_handle_appe_def
  by (intro shared_transfer exclusive_transfer leading leads_bind steadies assms; assumption)+


lemma list_transfer:
  assumes t: "consistent t" "length path < SESSION_MAX_PATH" and k: "k = TRANSFER_OP_SEND_LIST \<or> k = TRANSFER_OP_SEND_NLST"
  shows "leads (steady v t :: 'w sys \<Rightarrow> bool) (do {
      (response, opened, started) \<leftarrow>
        (if r \<noteq> 0 then ret (-1, False, False) else open_and_start P k path 0 False False);
      (if opened then session_close_data_connection P else ret ());
      ret response }) (\<lambda>_. outcome v t)"
proof (rule leads_seq [where J = "handed v t k path False"])
  show "leads (steady v t) (if r \<noteq> 0 then ret (-1, False, False) else open_and_start P k path 0 False False)
      (handed v t k path False)" by (intro leading t)
  fix r :: "int \<times> bool \<times> bool"
  let ?rest = "(\<lambda>(response, opened, started). do {
      (if opened then session_close_data_connection P else ret ());
      ret response }) r :: ('w, int) sys_m"
  have "keeps (steady v u) ?rest any" for u by (cases r) (auto intro!: steadies)
  then have step: "\<And>u s. steady v u s \<Longrightarrow> steady v u (snd (run_state ?rest s))" by (rule keeps_snd)
  show "leads (handed v t k path False r) ?rest (\<lambda>_. outcome v t)"
  proof (cases "snd (snd r)")
    case False
    with step show ?thesis by (simp add: leads_def handed_def outcome_steady)
  next
    case True
    have "acquired tp v v" if "tp_operation tp = k" "\<not> tp_lock_acquired tp" for tp
      using k that by (auto simp: acquired_def)
    with True step show ?thesis unfolding leads_def handed_def outcome_def by auto blast
  qed
qed

lemma outcome_listings:
  assumes "consistent t"
  shows "leads (steady v t) (cmd_handle_list P cmd) (\<lambda>_. outcome v t)"
    "leads (steady v t) (cmd_handle_nlst P cmd) (\<lambda>_. outcome v t)"
  unfolding cmd_handle_list_def cmd_handle_nlst_def
  by (intro leading leads_bind [OF steady_send(1)] leads_bind [OF steady.frame_fs(1)] assms list_transfer; simp)+

section \<open>Every command\<close>

lemma outcome_entry:
  assumes "p \<in> {None, Some cmd_prev_handle_clear_all, Some cmd_prev_handle_clear_rename, Some cmd_prev_handle_clear_restart}"
    and "leads (steady v t) (h cmd) (\<lambda>_. outcome v t)"
  shows "leads (steady v t) (run_entry (h, p) cmd) (\<lambda>_. outcome v t)"
  using assms(1) unfolding run_entry_def
  by (auto simp: assms(2) intro!: leads_bind leading leads_ret steady_prev assms(2) outcome_steady)

lemma outcome_handlers:
  assumes "(n, h, p) \<in> set (standard_handlers P)" "n \<noteq> ''REIN''" "consistent t"
  shows "leads (steady v t) (run_entry (h, p) cmd) (\<lambda>_. outcome v t)"
proof (rule outcome_entry)
  have "\<forall>e \<in> set (standard_handlers P). snd (snd e) \<in>
      {None, Some cmd_prev_handle_clear_all, Some cmd_prev_handle_clear_rename, Some cmd_prev_handle_clear_restart}"
    by (simp add: standard_handlers_def)
  with assms(1) show "p \<in> {None, Some cmd_prev_handle_clear_all, Some cmd_prev_handle_clear_rename, Some cmd_prev_handle_clear_restart}"
    by force
  have "\<forall>e \<in> set (standard_handlers P). fst e \<noteq> ''REIN'' \<longrightarrow>
      leads (steady v t) (fst (snd e) cmd) (\<lambda>_. outcome v t)"
    by (simp add: standard_handlers_def outcome_keeps steady_handlers steady_lock_handlers steady_rnfr steady_rnto
        outcome_file_transfers [OF assms(3)] outcome_listings [OF assms(3)])
  with assms(1,2) show "leads (steady v t) (h cmd) (\<lambda>_. outcome v t)" by force
qed

lemma leads_rein:
  "leads (steady v (TRANSFER_THREAD_IDLE, None, th)) (cmd_handle_rein P cmd)
     (\<lambda>_ s. \<exists>th'. steady v (TRANSFER_THREAD_IDLE, None, th') s)"
proof -
  have "leads (steady v (TRANSFER_THREAD_IDLE, None, th)) (smod session_reset_state)
      (\<lambda>_. steady v (TRANSFER_THREAD_IDLE, None, False))"
    by (simp add: leads_def smod_def steady_def transfer_of_def session_reset_state_def)
  then have "leads (steady v (TRANSFER_THREAD_IDLE, None, th))
      (do { smod session_reset_state; session_send_response P PROTO_RESP_SERVICE_READY ''Service ready for new user'' })
      (\<lambda>_ s. \<exists>th'. steady v (TRANSFER_THREAD_IDLE, None, th') s)"
    by (rule leads_seq) (rule leads_keeps [OF steady_send(1)], blast)
  then show ?thesis unfolding cmd_handle_rein_def
    by (intro leads_if leads_bind [OF steady_session(1)]) (rule leads_keeps [OF steady_send(1)], blast)
qed

text \<open>
  What a command leaves, from a session whose transfer is in state \<open>t\<close>: a REIN during a transfer is
  excluded, since it forgets the transfer while its thread goes on.
\<close>

lemma dispatch_outcome:
  assumes "consistent t" "command cmd = ''REIN'' \<longrightarrow> fst t = TRANSFER_THREAD_IDLE" "steady v t s"
  shows "\<exists>v' t'. steady v' t' (snd (run_state (cmd_dispatch (ftp_table P) cmd) s)) \<and> consistent t' \<and>
     (v' = v \<and> fst t' = fst t \<and> fst (snd t') = fst (snd t) \<or>
      fst t = TRANSFER_THREAD_IDLE \<and> (\<exists>tp. acquired tp v v' \<and> t' = (TRANSFER_THREAD_STARTING, Some tp, True)))"
proof (cases "command cmd = ''REIN''")
  case True
  obtain th where t: "t = (TRANSFER_THREAD_IDLE, None, th)"
    using assms(1,2) True by (cases t) (auto simp: consistent_def)
  have "leads (steady v t) (run_entry (cmd_handle_rein P, Some cmd_prev_handle_clear_all) cmd)
      (\<lambda>_ s. \<exists>th'. steady v (TRANSFER_THREAD_IDLE, None, th') s)"
    unfolding run_entry_def t prod.case option.case
    by (intro leads_bind steady_prev leads_if leads_rein leads_ret) blast
  from leadsD [OF this assms(3)] True obtain th' where
    "steady v (TRANSFER_THREAD_IDLE, None, th') (snd (run_state (cmd_dispatch (ftp_table P) cmd) s))"
    by (auto simp: dispatch_standard standard_pass_rein)
  then show ?thesis by (intro exI conjI) (auto simp: t consistent_def)
next
  case False
  have "outcome v t (snd (run_state (cmd_dispatch (ftp_table P) cmd) s))"
  proof (cases "map_of (standard_handlers P) (command cmd)")
    case None
    then show ?thesis using assms(3) by (simp add: dispatch_standard outcome_steady)
  next
    case (Some e)
    obtain h p where e: "e = (h, p)" by (cases e)
    from Some have "(command cmd, h, p) \<in> set (standard_handlers P)" by (simp add: e map_of_SomeD)
    from leadsD [OF outcome_handlers [OF this False assms(1)] assms(3)] Some e show ?thesis
      by (simp add: dispatch_standard)
  qed
  then show ?thesis
    unfolding outcome_def
  proof (elim disjE conjE exE)
    assume "steady v t (snd (run_state (cmd_dispatch (ftp_table P) cmd) s))"
    with assms(1) show ?thesis by blast
  next
    fix tp v'
    assume "fst t = TRANSFER_THREAD_IDLE" "acquired tp v v'"
      "steady v' (TRANSFER_THREAD_STARTING, Some tp, True) (snd (run_state (cmd_dispatch (ftp_table P) cmd) s))"
    then show ?thesis by (intro exI conjI) (auto simp: consistent_def)
  qed
qed

end
