(* ===== verification/Isolation.thy ===== *)
theory Isolation
  imports Locking
begin

text \<open>
  What a lock protects. A file is busy while a lock on it is held; no command of any client deletes a
  busy file, opens it for writing, or renames it. (A command can still rename a directory above a
  busy file, and rename another file onto its path: these take no lock on it.)
\<close>

definition modifies :: "string \<Rightarrow> os_event \<Rightarrow> bool" where
  "modifies f e \<longleftrightarrow> e = Ev_path Op_unlink f \<or> (\<exists>k. k \<noteq> O_read \<and> e = Ev_path (Op_open k) f) \<or> (\<exists>q. e = Ev_rename f q)"

definition busy :: "string \<Rightarrow> (string \<Rightarrow> nat \<times> nat \<times> nat) \<Rightarrow> bool" where
  "busy f v \<longleftrightarrow> \<not> lockable f v"

text \<open>Since the trace was \<open>tr0\<close>, nothing has modified the file \<open>f\<close>.\<close>

definition untouched :: "string \<Rightarrow> os_event list \<Rightarrow> ('w, 'z) os_scheme \<Rightarrow> bool" where
  "untouched f tr0 s \<longleftrightarrow> (\<exists>tr. trace s = tr0 @ tr \<and> (\<forall>e\<in>set tr. \<not> modifies f e))"

lemma untouched_effects:
  assumes "untouched f tr0 s" "trace s' = trace s @ tr" "set tr \<subseteq> {e. \<not> modifies f e}"
  shows "untouched f tr0 s'"
proof -
  from assms(1) obtain tr1 where "trace s = tr0 @ tr1" "\<forall>e\<in>set tr1. \<not> modifies f e" by (auto simp: untouched_def)
  with assms(2,3) show ?thesis unfolding untouched_def by (intro exI [of _ "tr1 @ tr"]) auto
qed

lemma sparing_modifies: "sparing e \<Longrightarrow> \<not> modifies f e" "e \<in> quiet \<Longrightarrow> \<not> modifies f e" "\<not> modifies f (Ev_send fd bs)"
  by (auto simp: modifies_def quiet_def)

interpretation untouched_os: effect_frame "untouched f tr0 :: ('w, 'z) os_scheme \<Rightarrow> bool" "{e. \<not> modifies f e}" for f tr0
  by unfold_locales (auto intro: untouched_effects sparing_modifies(2) [THEN notE] sparing_modifies(3) [THEN notE])

interpretation untouched: session_frame "untouched f tr0 :: 'w sys \<Rightarrow> bool" "{e. \<not> modifies f e}" for f tr0
  by unfold_locales (auto intro: untouched_effects sparing_modifies(2) [THEN notE] sparing_modifies(3) [THEN notE] simp: untouched_def)

section \<open>Commands and busy files\<close>

text \<open>
  Up to the lock, a command keeps the table as it is; from there on it matters only whether it got
  the lock, for then the file it is about to change was not busy.
\<close>

abbreviation waiting ::
  "(string \<Rightarrow> nat \<times> nat \<times> nat) \<Rightarrow> transfer_thread_state_t \<times> transfer_params_t option \<times> bool \<Rightarrow>
   string \<Rightarrow> os_event list \<Rightarrow> 'w sys \<Rightarrow> bool"
where "waiting v t f tr0 \<equiv> \<lambda>s. steady v t s \<and> untouched f tr0 s"

lemma isolate_bind:
  "keeps I m any \<Longrightarrow> keeps (untouched f tr0) m any \<Longrightarrow> (\<And>a. leads (\<lambda>s. I s \<and> untouched f tr0 s) (h a) J) \<Longrightarrow>
   leads (\<lambda>s. I s \<and> untouched f tr0 s) (State_Monad.bind m h) J"
  by (rule leads_bind) (simp_all add: keeps_def)

lemma isolate_end: "keeps (untouched f tr0) m any \<Longrightarrow> leads (\<lambda>s. I s \<and> untouched f tr0 s) m (\<lambda>_. untouched f tr0)"
  by (simp add: keeps_def leads_def)

lemma isolate_lock:
  assumes "busy f v" "\<And>lock. (lock = 0 \<Longrightarrow> p \<noteq> f) \<Longrightarrow> keeps (untouched f tr0) (h lock) any"
  shows "leads (waiting v t f tr0) (State_Monad.bind (try_exclusive P p) h) (\<lambda>_. untouched f tr0)"
proof (rule leads_seq)
  show "leads (waiting v t f tr0) (try_exclusive P p) (\<lambda>c s. untouched f tr0 s \<and> (c = 0 \<longrightarrow> p \<noteq> f))"
    using leads_try_exclusive [of v t P p] untouched.frame_locks(2) [of f tr0 P p] assms(1)
    by (fastforce simp: leads_def keeps_def busy_def)
  fix lock
  show "leads (\<lambda>s. untouched f tr0 s \<and> (lock = 0 \<longrightarrow> p \<noteq> f)) (h lock) (\<lambda>_. untouched f tr0)"
    by (rule leads_conj) (use assms(2) [of lock] in \<open>simp add: keeps_leads\<close>)
qed

lemma isolate_require:
  assumes "leads (waiting v t f tr0) h (\<lambda>_. untouched f tr0)"
  shows "leads (waiting v t f tr0) (REQUIRE_AUTH_AND_ARG P cmd h) (\<lambda>_. untouched f tr0)"
    "leads (waiting v t f tr0) (with_data_mode P h) (\<lambda>_. untouched f tr0)"
  unfolding REQUIRE_AUTH_AND_ARG_def REQUIRE_AUTH_def with_data_mode_def
  by (intro isolate_bind leads_if assms isolate_end steadies framing)+

lemma isolate_with_path:
  assumes "\<And>q. leads (waiting v t f tr0) (h q) (\<lambda>_. untouched f tr0)"
  shows "leads (waiting v t f tr0) (with_path P p perm h) (\<lambda>_. untouched f tr0)"
  unfolding with_path_def
  by (intro isolate_bind leads_if leads_option assms isolate_end steadies framing)

lemma other_file:
  "p \<noteq> f \<Longrightarrow> Ev_path Op_unlink p \<in> {e. \<not> modifies f e}"
  "p \<noteq> f \<Longrightarrow> Ev_rename p q \<in> {e. \<not> modifies f e}"
  "p \<noteq> f \<Longrightarrow> Ev_path (Op_open k) p \<in> {e. \<not> modifies f e}"
  by (auto simp: modifies_def)

lemma isolate_handlers:
  assumes "busy f v"
  shows "leads (waiting v t f tr0) (cmd_handle_dele P cmd) (\<lambda>_. untouched f tr0)"
    "leads (waiting v t f tr0) (cmd_handle_stor P cmd) (\<lambda>_. untouched f tr0)"
    "leads (waiting v t f tr0) (cmd_handle_rnto P cmd) (\<lambda>_. untouched f tr0)"
  unfolding cmd_handle_dele_def cmd_handle_stor_def cmd_handle_rnto_def
  by (rule isolate_require isolate_with_path isolate_lock [OF assms] isolate_bind leads_if leads_option isolate_end
      steadies framing untouched_os.frame_changes other_file | assumption | blast)+

text \<open>No command modifies a busy file.\<close>

lemma isolate_entries:
  assumes "busy f v"
  shows "\<forall>e \<in> set (standard_handlers P). fst e \<in> {''STOR'', ''RNTO'', ''DELE''} \<longrightarrow>
     leads (waiting v t f tr0) (run_entry (snd e) cmd) (\<lambda>_. untouched f tr0)"
  unfolding standard_handlers_def list.set ball_simps snd_conv fst_conv run_entry_def prod.case option.case
  by (intro conjI TrueI impI isolate_bind leads_if isolate_handlers [OF assms] steady_prev untouched.frame_prev
      isolate_end framing; simp)

lemma isolate_dispatch:
  assumes "busy f v"
  shows "leads (waiting v t f tr0) (cmd_dispatch (ftp_table P) cmd) (\<lambda>_. untouched f tr0)"
proof (cases "command cmd \<in> {''STOR'', ''RNTO'', ''DELE''}")
  case False
  from untouched.frame_dispatch_sparing [OF this] show ?thesis by (rule isolate_end)
next
  case named: True
  show ?thesis
  proof (cases "map_of (standard_handlers P) (command cmd)")
    case None
    then show ?thesis by (simp add: dispatch_standard isolate_end framing)
  next
    case (Some e)
    then have "(command cmd, e) \<in> set (standard_handlers P)" by (rule map_of_SomeD)
    with isolate_entries [OF assms] named
    have "leads (waiting v t f tr0) (run_entry e cmd) (\<lambda>_. untouched f tr0)" by fastforce
    then show ?thesis by (simp add: dispatch_standard Some)
  qed
qed

end
