(* ===== verification/Transfer_Thread.thy ===== *)
theory Transfer_Thread
  imports Transfer_Correct Isolation
begin

text \<open>
  The life of a transfer thread: what it leaves of the session and of the table of locks, and when it
  ends.
\<close>

section \<open>While the thread works\<close>

definition calm ::
  "(string \<Rightarrow> nat \<times> nat \<times> nat) \<Rightarrow> transfer_thread_state_t \<times> transfer_params_t option \<times> bool \<Rightarrow> string \<Rightarrow> 'w sys \<Rightarrow> bool"
where "calm v t root s \<longleftrightarrow> steady v t s \<and> sess_inv (sess s) \<and> s_root_dir (sess s) = root"

text \<open>What the control thread may do meanwhile: anything that leaves the locks, the transfer and the
  root directory alone, and does not modify a file on which somebody has a lock. Every command but
  REIN is of this kind, see \<open>commands_calm\<close>.\<close>

definition calm_env :: "'w env \<Rightarrow> bool" where
  "calm_env env \<longleftrightarrow> (\<forall>k v t root. fst t \<noteq> TRANSFER_THREAD_IDLE \<longrightarrow> consistent t \<longrightarrow>
     keeps (calm v t root) (env k) any \<and>
     (\<forall>f tr0. busy f v \<longrightarrow> leads (\<lambda>s. calm v t root s \<and> untouched f tr0 s) (env k) (\<lambda>_. untouched f tr0)))"

lemma command_calm:
  assumes t: "fst t \<noteq> TRANSFER_THREAD_IDLE" "consistent t" and c: "command cmd \<noteq> ''REIN''"
  shows "keeps (calm v t root) (cmd_dispatch (ftp_table P) cmd) any"
proof (rule keepsI)
  fix s :: "'a sys" assume s: "calm v t root s"
  let ?s' = "snd (run_state (cmd_dispatch (ftp_table P) cmd) s)"
  from s have "harmless (sess s) (trace s) ?s'" by (intro dispatch_harmless) (simp add: calm_def)
  moreover have "\<exists>v' t'. steady v' t' ?s' \<and> consistent t' \<and>
     (v' = v \<and> fst t' = fst t \<and> fst (snd t') = fst (snd t) \<or>
      fst t = TRANSFER_THREAD_IDLE \<and> (\<exists>tp. acquired tp v v' \<and> t' = (TRANSFER_THREAD_STARTING, Some tp, True)))"
    by (rule dispatch_outcome [OF t(2)]) (use s c in \<open>simp_all add: calm_def\<close>)
  then obtain t' where t': "steady v t' ?s'" "consistent t'" "fst t' = fst t" "fst (snd t') = fst (snd t)"
    using t(1) by blast
  then have "t' = t" using t by (cases t; cases t') (auto simp: consistent_def)
  ultimately show "calm v t root ?s' \<and> True"
    using s t'(1) by (simp add: calm_def harmless_def)
qed

lemma commands_calm:
  assumes "\<And>k. command (cmd k) \<noteq> ''REIN''"
  shows "calm_env (\<lambda>k. do { cmd_dispatch (ftp_table P) (cmd k); ret () })"
proof -
  have i: "leads (\<lambda>s. calm v t root s \<and> untouched f tr0 s) (cmd_dispatch (ftp_table P) (cmd k)) (\<lambda>_. untouched f tr0)"
    if "busy f v" for k v t root f tr0
    using isolate_dispatch [OF that, of t tr0 P "cmd k"] by (auto simp: leads_def calm_def)
  show ?thesis
    unfolding calm_env_def
    by (intro allI impI conjI keeps_bind [OF command_calm] leads_seq [OF i] leads_ret keeps_ret TrueI assms)
qed

lemma calm_idle: "calm_env (\<lambda>_. ret ())"
  by (simp add: calm_env_def keeps_def leads_def)

named_theorems calming \<open>operations that leave the locks, the transfer and the root directory alone\<close>

lemma calm_more:
  assumes "calm v t root s" "os.more s' = os.more s"
  shows "calm v t root s'"
  using assms(1) unfolding calm_def steady_def more_sys [OF assms(2)] .

lemma calm_does: "does UNIV m \<Longrightarrow> keeps (calm v t root) (m :: ('w, 'a) sys_m) any"
  by (rule keeps_does) (auto intro: calm_more)

lemma calm_smod:
  assumes "\<And>s. transfer_of (f s) = transfer_of s" "\<And>s. s_root_dir (f s) = s_root_dir s" "\<And>s. sess_inv s \<Longrightarrow> sess_inv (f s)"
  shows "keeps (calm v t root) (smod f) any"
  unfolding smod_def by (rule keeps_modify) (simp add: calm_def steady_def assms)

lemma calm_bind [calming]:
  "keeps (calm v t root) m any \<Longrightarrow> (\<And>a. keeps (calm v t root) (f a) G) \<Longrightarrow> keeps (calm v t root) (State_Monad.bind m f) G"
  by (rule keeps_bind)

lemmas [calming] = TrueI keeps_if keeps_option keeps_sum keeps_prod

lemma calm_basic [calming]:
  "keeps (calm v t root) (os m :: ('w, 'a) sys_m) any" "keeps (calm v t root) (ret a) any"
  "keeps (calm v t root) (sget f) any" "keeps (calm v t root) (gets g) any"
  by (rule calm_does [OF does_os]) (rule keeps_ret TrueI calm_does [OF does_gets(2)] keeps_gets)+

lemma calm_counts:
  "calm v t root s \<Longrightarrow> calm v t root (s\<lparr>sess := (sess s)\<lparr>s_bytes_downloaded := b, s_files_downloaded := n\<rparr>\<rparr>)"
  "calm v t root s \<Longrightarrow> calm v t root (s\<lparr>sess := (sess s)\<lparr>s_bytes_uploaded := b, s_files_uploaded := n\<rparr>\<rparr>)"
  by (auto simp: calm_def steady_def transfer_of_def sess_inv_def buffers_fit_def permitted_def has_perm_def
      is_admin_def within_home_def)

text \<open>A transfer keeps both: what it must not disturb, and the files that others have locked.\<close>

interpretation calm: transfer_frame "calm v t root :: 'w sys \<Rightarrow> bool" UNIV for v t root
  by unfold_locales (auto intro: calm_counts calm_more)

interpretation calm_untouched: transfer_frame
  "\<lambda>s :: 'w sys. calm v t root s \<and> untouched f tr0 s" "{e. \<not> modifies f e}" for v t root f tr0
  by unfold_locales (auto intro: calm_counts calm_more untouched_os.effects untouched.sess_free sparing_modifies(2) [THEN notE] sparing_modifies(3) [THEN notE])

lemma calm_envD:
  assumes "calm_env env" "fst t \<noteq> TRANSFER_THREAD_IDLE" "consistent t"
  shows "keeps (calm v t root) (env k) any"
    "busy f v \<Longrightarrow> leads (\<lambda>s. calm v t root s \<and> untouched f tr0 s) (env k) (\<lambda>_. untouched f tr0)"
  using assms unfolding calm_env_def by blast+

lemma calm_operations: "calm_env env \<Longrightarrow> fst t \<noteq> TRANSFER_THREAD_IDLE \<Longrightarrow> consistent t \<Longrightarrow>
    keeps (calm v t root) (run_transfer P env fuel tp) any"
  by (rule calm.frame_run_transfer [OF calm_envD(1)]) simp_all

lemma isolate_transfer:
  assumes env: "calm_env env" and t: "fst t \<noteq> TRANSFER_THREAD_IDLE" "consistent t" and f: "busy f v"
    and up: "tp_operation tp = TRANSFER_OP_RECV_FILE \<Longrightarrow> tp_filepath tp \<noteq> f"
  shows "keeps (\<lambda>s. calm v t root s \<and> untouched f tr0 s) (run_transfer P env fuel tp) any"
proof (rule calm_untouched.frame_run_transfer)
  fix k
  from calm_envD [OF env t] f show "keeps (\<lambda>s. calm v t root s \<and> untouched f tr0 s) (env k) any"
    by (simp add: keeps_def leads_def)
qed (use up in \<open>simp add: other_file(3) [simplified]\<close>)

section \<open>The end of the thread\<close>

text \<open>The transfer holds its lock, and the counts after the release.\<close>

definition owns :: "transfer_params_t \<Rightarrow> (string \<Rightarrow> nat \<times> nat \<times> nat) \<Rightarrow> bool" where
  "owns tp v \<longleftrightarrow>
     (case tp_operation tp of
        TRANSFER_OP_SEND_FILE \<Rightarrow> tp_lock_acquired tp \<and> fst (v (tp_filepath tp)) > 0
      | TRANSFER_OP_RECV_FILE \<Rightarrow> tp_lock_acquired tp \<and> fst (snd (v (tp_filepath tp))) > 0
      | _ \<Rightarrow> \<not> tp_lock_acquired tp)"

definition released :: "transfer_params_t \<Rightarrow> (string \<Rightarrow> nat \<times> nat \<times> nat) \<Rightarrow> string \<Rightarrow> nat \<times> nat \<times> nat" where
  "released tp v =
     (case v (tp_filepath tp) of (r, w, q) \<Rightarrow>
        (case tp_operation tp of
           TRANSFER_OP_SEND_FILE \<Rightarrow> v(tp_filepath tp := (r - 1, w, q))
         | TRANSFER_OP_RECV_FILE \<Rightarrow> v(tp_filepath tp := (r, 0, q))
         | _ \<Rightarrow> v))"

lemma acquired_owns: "acquired tp v v' \<Longrightarrow> owns tp v' \<and> released tp v' = v"
  by (auto simp: acquired_def owns_def released_def shared_view_def exclusive_view_def lockable_def
      split: transfer_operation_t.splits prod.splits)

definition lock_after :: "transfer_params_t \<Rightarrow> lock_entries \<Rightarrow> lock_entries" where
  "lock_after tp l =
     (if \<not> tp_lock_acquired tp then l
      else if tp_operation tp = TRANSFER_OP_RECV_FILE then file_lock_release_exclusive (tp_filepath tp) l
      else if tp_operation tp = TRANSFER_OP_SEND_FILE then file_lock_release_shared (tp_filepath tp) l
      else l)"

lemma run_release:
  "sess (snd (run_state (release_transfer_lock tp) s)) = sess s"
  "locks (snd (run_state (release_transfer_lock tp) s)) = lock_after tp (locks s)"
  by (simp_all add: release_transfer_lock_def unlock_shared_def unlock_exclusive_def lock_after_def)

lemma lock_after_view:
  assumes wf: "wf_locks l" and o: "owns tp (lock_view l)"
  shows "wf_locks (lock_after tp l) \<and> lock_view (lock_after tp l) = released tp (lock_view l)"
proof -
  obtain r w q where p: "lock_view l (tp_filepath tp) = (r, w, q)" by (cases "lock_view l (tp_filepath tp)")
  show ?thesis
    using o wf p flk.release_shared [OF wf p] flk.release_exclusive [OF wf p]
    by (cases "tp_operation tp") (auto simp: owns_def released_def lock_after_def)
qed

text \<open>The session after a transfer: no data connection, ready for the next command.\<close>

definition ready :: "session_t \<Rightarrow> bool" where
  "ready s \<longleftrightarrow> s_data_socket s = INVALID_SOCKET_T \<and> s_data_listen_socket s = INVALID_SOCKET_T \<and>
     s_data_mode s = SESSION_DATA_MODE_NONE \<and> \<not> s_transfer_in_progress s"

lemma calm_close_data [calming]: "keeps (calm v t root) (session_close_data_connection P) any"
proof (rule keepsI)
  fix s :: "'a sys" assume s: "calm v t root s"
  let ?s' = "snd (run_state (session_close_data_connection P) s)"
  from s have "guarded (sess s) (trace s) s" by (simp add: calm_def guarded_def)
  then have "guarded (sess s) (trace s) ?s'" by (rule keeps_snd [OF guard_close_data])
  moreover have "steady v t ?s'" using s by (auto simp: calm_def intro: keeps_snd [OF steady_session(1)])
  ultimately show "calm v t root ?s' \<and> True" using s by (simp add: calm_def guarded_def same_account_def)
qed

definition closed :: "session_t \<Rightarrow> session_t" where
  "closed s = s\<lparr>s_data_socket := INVALID_SOCKET_T, s_data_listen_socket := INVALID_SOCKET_T,
     s_data_mode := SESSION_DATA_MODE_NONE\<rparr>"

lemma run_close_data:
  "sess (snd (run_state (session_close_data_connection P) s)) = closed (sess s)"
  "locks (snd (run_state (session_close_data_connection P) s)) = locks s"
  "auth (snd (run_state (session_close_data_connection P) s)) = auth s"
proof -
  have net: "sess (snd (run_state (net_close_socket P fd :: ('w, unit) sys_m) t)) = sess t"
    "locks (snd (run_state (net_close_socket P fd :: ('w, unit) sys_m) t)) = locks t"
    "auth (snd (run_state (net_close_socket P fd :: ('w, unit) sys_m) t)) = auth t"
    "sess (snd (run_state (net_shutdown_both P fd :: ('w, int) sys_m) t)) = sess t"
    "locks (snd (run_state (net_shutdown_both P fd :: ('w, int) sys_m) t)) = locks t"
    "auth (snd (run_state (net_shutdown_both P fd :: ('w, int) sys_m) t)) = auth t" for fd and P :: "'w posix" and t
    by (rule does_more [where A = UNIV]; rule doing; simp)+
  show "sess (snd (run_state (session_close_data_connection P) s)) = closed (sess s)"
    "locks (snd (run_state (session_close_data_connection P) s)) = locks s"
    "auth (snd (run_state (session_close_data_connection P) s)) = auth s"
    unfolding session_close_data_connection_def closed_def
    by (auto simp: sget_def smod_def case_prod_beta net)
qed

lemma run_completion:
  "sess (snd (run_state (send_completion P r) s)) =
     (if r = TRANSFER_STATUS_ABORTED then (sess s)\<lparr>s_transfer_should_abort := False\<rparr> else sess s)"
  "locks (snd (run_state (send_completion P r) s)) = locks s"
  unfolding send_completion_def session_clear_transfer_should_abort_def
  by (cases r; simp add: case_prod_beta response_frame smod_def sget_def)+

text \<open>What the thread leaves of the session behind the transfer.\<close>

definition finished :: "transfer_status_t \<Rightarrow> session_t \<Rightarrow> session_t" where
  "finished result s = (closed s)\<lparr>
     s_transfer_should_abort := (if result = TRANSFER_STATUS_ABORTED then False else s_transfer_should_abort s),
     s_transfer_result := result, s_transfer_in_progress := False, s_transfer_params := None,
     s_transfer_thread_state := TRANSFER_THREAD_IDLE\<rparr>"

lemma run_finish:
  "fst (run_state (finish_transfer P tp result) s)"
  "sess (snd (run_state (finish_transfer P tp result) s)) = finished result (sess s)"
  "locks (snd (run_state (finish_transfer P tp result) s)) = lock_after tp (locks s)"
  unfolding finish_transfer_def
  by (auto simp: smod_def case_prod_beta run_release run_close_data run_completion finished_def closed_def
      session_set_transfer_thread_state_def session_clear_transfer_in_progress_def)

lemma finish_calm:
  assumes "calm v (st, Some tp, th) root s" "owns tp v"
  shows "calm (released tp v) (TRANSFER_THREAD_IDLE, None, th) root (snd (run_state (finish_transfer P tp result) s))"
proof -
  have "sess_inv (finished result (sess s))"
    using assms(1) by (auto simp: calm_def finished_def closed_def sess_inv_def buffers_fit_def permitted_def has_perm_def
        is_admin_def within_home_def)
  with assms lock_after_view [of "locks s" tp] show ?thesis
    by (simp add: calm_def steady_def run_finish finished_def closed_def transfer_of_def)
qed

section \<open>The whole thread\<close>

lemma run_thread_func:
  assumes "s_transfer_params (sess s) = Some tp"
  shows "run_state (transfer_thread_func P env fuel) s =
    run_state (do { r \<leftarrow> run_transfer P env fuel tp;
        (case r of None \<Rightarrow> ret False | Some result \<Rightarrow> finish_transfer P tp result) })
      (s\<lparr>sess := (sess s)\<lparr>s_transfer_thread_state := TRANSFER_THREAD_RUNNING, s_transfer_in_progress := True\<rparr>\<rparr>)"
  using assms unfolding transfer_thread_func_def session_set_transfer_thread_state_def session_set_transfer_in_progress_def
  by (simp add: smod_def sget_def)


lemma thread_begins:
  assumes "calm v (st, Some tp, th) root s"
  shows "calm v (TRANSFER_THREAD_RUNNING, Some tp, th) root
     (s\<lparr>sess := (sess s)\<lparr>s_transfer_thread_state := TRANSFER_THREAD_RUNNING, s_transfer_in_progress := True\<rparr>\<rparr>)"
  using assms by (auto simp: calm_def steady_def transfer_of_def sess_inv_def buffers_fit_def permitted_def has_perm_def
      is_admin_def within_home_def)

lemma run_transfer_some:
  "fst (run_state (run_transfer P env fuel tp) s) = None \<Longrightarrow> tp_operation tp = TRANSFER_OP_RECV_FILE"
  by (cases "tp_operation tp") (auto simp: run_transfer_def case_prod_beta split: if_splits)

lemma thread_leaves:
  assumes s: "calm v (st, Some tp, True) root s" and o: "owns tp v" and env: "calm_env env"
    and r: "run_state (transfer_thread_func P env fuel) s = (done, s')"
  shows "if done then calm (released tp v) (TRANSFER_THREAD_IDLE, None, True) root s' \<and> ready (sess s')
         else tp_operation tp = TRANSFER_OP_RECV_FILE \<and> calm v (TRANSFER_THREAD_RUNNING, Some tp, True) root s'"
proof -
  let ?t = "(TRANSFER_THREAD_RUNNING, Some tp, True)"
  let ?s1 = "s\<lparr>sess := (sess s)\<lparr>s_transfer_thread_state := TRANSFER_THREAD_RUNNING, s_transfer_in_progress := True\<rparr>\<rparr>"
  obtain res s2 where t: "run_state (run_transfer P env fuel tp) ?s1 = (res, s2)" by fastforce
  have "keeps (calm v ?t root) (run_transfer P env fuel tp) any"
    by (rule calm_operations [OF env]) (simp_all add: consistent_def)
  from keeps_snd [OF this thread_begins [OF s]] have c: "calm v ?t root s2" by (simp add: t)
  have "s_transfer_params (sess s) = Some tp" using s by (simp add: calm_def steady_def transfer_of_def)
  note run = r [unfolded run_thread_func [OF this]]
  show ?thesis
  proof (cases res)
    case None
    with run t c run_transfer_some [of P env fuel tp ?s1] show ?thesis by auto
  next
    case (Some result)
    have "ready (finished result (sess s2))" by (simp add: ready_def finished_def closed_def)
    with run t Some finish_calm [OF c o, of P result] run_finish [of P tp result s2] show ?thesis
      by (auto simp: prod_eq_iff)
  qed
qed

text \<open>
  C23: every lock is given back. From a well-formed session, a command either leaves the counts of
  the lock table as they were, or starts a transfer; then, once the transfer's thread has ended, the
  counts are again what they were before the command. This holds whatever the operating system
  answers and whatever commands but REIN the client sends meanwhile.
\<close>

theorem locks_balanced:
  assumes "sess_inv (sess s)" "wf_locks (locks s)" "consistent (transfer_of (sess s))"
    and "command cmd = ''REIN'' \<longrightarrow> s_transfer_thread_state (sess s) = TRANSFER_THREAD_IDLE"
    and "run_state (cmd_dispatch (ftp_table P) cmd) s = (r, s1)"
  shows "if s_transfer_thread_state (sess s1) = s_transfer_thread_state (sess s)
         then lock_view (locks s1) = lock_view (locks s)
         else s_transfer_thread_state (sess s1) = TRANSFER_THREAD_STARTING \<and>
           (\<forall>env fuel s2. calm_env env \<longrightarrow> run_state (transfer_thread_func P env fuel) s1 = (True, s2) \<longrightarrow>
              lock_view (locks s2) = lock_view (locks s) \<and> s_transfer_thread_state (sess s2) = TRANSFER_THREAD_IDLE)"
proof -
  let ?t = "transfer_of (sess s)" and ?v = "lock_view (locks s)"
  have fst_t: "fst (transfer_of x) = s_transfer_thread_state x" for x by (simp add: transfer_of_def)
  have s1: "s1 = snd (run_state (cmd_dispatch (ftp_table P) cmd) s)" using assms(5) by simp
  from dispatch_outcome [OF assms(3), of cmd ?v s P] assms(2,4) obtain v' t' where
    o: "steady v' t' s1" "v' = ?v \<and> fst t' = fst ?t \<and> fst (snd t') = fst (snd ?t) \<or>
      fst ?t = TRANSFER_THREAD_IDLE \<and> (\<exists>tp. acquired tp ?v v' \<and> t' = (TRANSFER_THREAD_STARTING, Some tp, True))"
    unfolding s1 by (auto simp: steady_def fst_t)
  from o(2) show ?thesis
  proof (elim disjE conjE exE)
    assume "v' = ?v" "fst t' = fst ?t"
    with o(1) show ?thesis by (simp add: steady_def fst_t [symmetric])
  next
    fix tp
    assume a: "fst ?t = TRANSFER_THREAD_IDLE" "acquired tp ?v v'" "t' = (TRANSFER_THREAD_STARTING, Some tp, True)"
    note ac = acquired_owns [OF a(2)]
    have "sess_inv (sess s1)" using dispatch_harmless [OF assms(1)] by (simp add: s1 harmless_def)
    with o(1) a(3) have c: "calm v' (TRANSFER_THREAD_STARTING, Some tp, True) (s_root_dir (sess s1)) s1"
      by (simp add: calm_def)
    have "lock_view (locks s2) = ?v \<and> s_transfer_thread_state (sess s2) = TRANSFER_THREAD_IDLE"
      if "calm_env env" "run_state (transfer_thread_func P env fuel) s1 = (True, s2)" for env fuel s2
      using thread_leaves [OF c ac [THEN conjunct1] that] ac by (simp add: calm_def steady_def transfer_of_def)
    moreover have "s_transfer_thread_state (sess s1) = TRANSFER_THREAD_STARTING"
      using o(1) a(3) by (simp add: steady_def transfer_of_def)
    ultimately show ?thesis using a(1) by (simp add: fst_t)
  qed
qed


text \<open>An instance: the session \<open>plain_session\<close>, not logged in, and an env that dispatches NOOP.\<close>

lemma plain_consistent: "consistent (transfer_of plain_session)"
  by (simp add: consistent_def transfer_of_def plain_session_def session_reset_state_def)

lemma locks_balanced_witness:
  "\<exists>r s1. run_state (cmd_dispatch (ftp_table plain_posix) \<lparr>command = ''RETR'', argument = ''f'', has_argument = True\<rparr>)
       (plain_sys plain_session) = (r, s1) \<and>
     (s_transfer_thread_state (sess s1) = TRANSFER_THREAD_IDLE \<longrightarrow> lock_view (locks s1) = lock_view [])"
proof -
  let ?cmd = "\<lparr>command = ''RETR'', argument = ''f'', has_argument = True\<rparr>"
  obtain r s1 where r: "run_state (cmd_dispatch (ftp_table plain_posix) ?cmd) (plain_sys plain_session) = (r, s1)" by fastforce
  have "s_transfer_thread_state plain_session = TRANSFER_THREAD_IDLE" by (simp add: plain_session_def session_reset_state_def)
  with locks_balanced [OF _ _ _ _ r] r plain_session_inv plain_consistent show ?thesis
    by (auto simp: plain_sys_def wf_locks_def split: if_splits)
qed

section \<open>A transfer ends\<close>

text \<open>
  A peer that stops: \<open>m\<close> bounds what it still sends. Every successful \<open>recv\<close> of some bytes lowers the
  bound, and the calls that write them do not raise it.
\<close>

definition finite_peer :: "'w posix \<Rightarrow> ('w \<Rightarrow> nat) \<Rightarrow> bool" where
  "finite_peer P m \<longleftrightarrow>
     (\<forall>fd n w. m (snd (run_state (px_recv P fd n) w)) \<le> m w \<and>
        (case fst (run_state (px_recv P fd n) w) of Inl e \<Rightarrow> True
         | Inr bs \<Rightarrow> take n bs \<noteq> [] \<longrightarrow> m (snd (run_state (px_recv P fd n) w)) < m w)) \<and>
     (\<forall>w. m (snd (run_state (px_malloc P) w)) \<le> m w) \<and>
     (\<forall>p k w. m (snd (run_state (px_open P p k) w)) \<le> m w) \<and>
     (\<forall>fd i w. m (snd (run_state (px_lseek P fd i) w)) \<le> m w) \<and>
     (\<forall>fd bs w. m (snd (run_state (px_write P fd bs) w)) \<le> m w) \<and>
     (\<forall>fd w. m (snd (run_state (px_fsync P fd) w)) \<le> m w) \<and>
     (\<forall>fd w. m (snd (run_state (px_close P fd) w)) \<le> m w)"

definition unfed :: "('w \<Rightarrow> nat) \<Rightarrow> ('w, 'a) sys_m \<Rightarrow> bool" where
  "unfed m c \<longleftrightarrow> (\<forall>s. m (world (snd (run_state c s))) \<le> m (world s))"

lemma unfed_bind: "unfed m c \<Longrightarrow> (\<And>a. unfed m (f a)) \<Longrightarrow> unfed m (State_Monad.bind c f)"
  unfolding unfed_def by (auto simp: case_prod_beta intro: order_trans)

lemma unfed_basic:
  "unfed m (ret a)" "unfed m (sget f)" "unfed m (smod g)" "unfed m (emit e)" "unfed m give_up"
  by (simp_all add: unfed_def sget_def smod_def emit_def give_up_def)

lemma unfed_if: "(b \<Longrightarrow> unfed m c) \<Longrightarrow> (\<not> b \<Longrightarrow> unfed m d) \<Longrightarrow> unfed m (if b then c else d)"
  by simp

lemma unfed_os: "(\<And>w. m (snd (run_state c w)) \<le> m w) \<Longrightarrow> unfed m (os c)"
  by (simp add: unfed_def run_os)

lemma unfed_write_chunk:
  fixes P :: "'w posix"
  assumes "finite_peer P m"
  shows "unfed m (fs_write_file_chunk P path bs off :: ('w, int) sys_m)"
proof -
  have calls: "unfed m (sys_open P p k :: ('w, int) sys_m)" "unfed m (sys_lseek P fd i :: ('w, bool) sys_m)"
    "unfed m (sys_close P fd :: ('w, unit) sys_m)" "unfed m (os (px_fsync P fd) :: ('w, unit) sys_m)" for p k fd i
    using assms unfolding sys_defs finite_peer_def by (auto intro!: unfed_bind unfed_basic unfed_os)
  have w: "unfed m (sys_write P fd todo :: ('w, errno + nat) sys_m)" for fd todo
    unfolding sys_write_def using assms unfolding finite_peer_def
    by (auto intro!: unfed_bind unfed_os unfed_basic split: sum.splits)
  have loop: "unfed m (write_loop P fd k todo :: ('w, bool) sys_m)" for fd k todo
  proof (induction "k + length todo" arbitrary: k todo rule: less_induct)
    case less
    have step: "unfed m (case r of
        Inl err \<Rightarrow> if err = EINTR then if k = 0 then do { give_up; ret False } else write_loop P fd (k - 1) todo else ret False
      | Inr n \<Rightarrow> if n = 0 then if k = 0 then do { give_up; ret False } else write_loop P fd (k - 1) todo
          else write_loop P fd k (drop n todo))" if "todo \<noteq> []" for r
      using that by (auto intro!: unfed_bind unfed_basic less split: sum.splits)
    show ?case
      by (subst write_loop.simps) (intro unfed_if unfed_basic unfed_bind w step; assumption)
  qed
  show ?thesis
    unfolding fs_write_file_chunk_def by (intro unfed_bind unfed_basic unfed_if calls loop)
qed


lemma run_net_receive:
  fixes s :: "'w sys"
  assumes "finite_peer P m" "m (world s) < Suc n"
  shows "case fst (run_state (net_receive P fd k :: ('w, errno + string) sys_m) s) of
      Inl e \<Rightarrow> True | Inr bs \<Rightarrow> bs \<noteq> [] \<longrightarrow> m (world (snd (run_state (net_receive P fd k :: ('w, errno + string) sys_m) s))) < n"
proof -
  have "case fst (run_state (px_recv P fd k) (world s)) of Inl e \<Rightarrow> True
      | Inr bs \<Rightarrow> take k bs \<noteq> [] \<longrightarrow> m (snd (run_state (px_recv P fd k) (world s))) < m (world s)"
    using assms(1) unfolding finite_peer_def by blast
  with assms(2) show ?thesis
    by (cases "fst (run_state (px_recv P fd k) (world s))")
      (auto simp: net_receive_def sys_recv_def run_os emit_def case_prod_beta)
qed

lemma receive_loop_ends:
  fixes s :: "'w sys"
  assumes P: "finite_peer P m" and env: "\<And>k. unfed m (env k)" and "m (world s) < fuel"
  shows "fst (run_state (receive_loop P env conv path fuel i off totr totw) s) \<noteq> None"
  using assms(3)
proof (induction fuel arbitrary: s i totr totw)
  case (Suc fuel)
  define s1 where "s1 = snd (run_state (env (2 * i)) s)"
  have m1: "m (world s1) < Suc fuel" using env Suc.prems by (auto simp: s1_def unfed_def intro: le_less_trans)
  show ?case
  proof (cases "s_transfer_should_abort (sess s1)")
    case True
    then show ?thesis by (simp add: run_abort s1_def [symmetric] case_prod_beta)
  next
    case ab: False
    define d where "d = s_data_socket (sess s1)"
    define R where "R = run_state (net_receive P d TRANSFER_BUFFER_SIZE :: ('w, errno + string) sys_m) s1"
    define s3 where "s3 = snd (run_state (env (2 * i + 1)) (snd R))"
    have m2: "case fst R of Inl e \<Rightarrow> True | Inr bs \<Rightarrow> bs \<noteq> [] \<longrightarrow> m (world (snd R)) < fuel"
      unfolding R_def by (rule run_net_receive [OF P m1])
    have le3: "m (world s3) \<le> m (world (snd R))" using env by (simp add: s3_def unfed_def)
    note run = receive_loop.simps(2) run_bind run_abort s1_def [symmetric] d_def [symmetric] R_def [symmetric]
      s3_def [symmetric] fst_conv snd_conv ab if_False
    show ?thesis
    proof (cases "fst R")
      case (Inl e)
      then show ?thesis by (simp only: run) (simp add: run_abort case_prod_beta)
    next
      case (Inr bs)
      show ?thesis
      proof (cases "bs = [] \<or> conv bs = None")
        case True
        with Inr show ?thesis by (simp only: run) (auto simp: run_abort case_prod_beta)
      next
        case False
        then obtain data where data: "bs \<noteq> []" "conv bs = Some data" by auto
        define s4 where "s4 = snd (run_state (fs_write_file_chunk P path data (off + int totw)) s3)"
        have "m (world s4) \<le> m (world s3)"
          unfolding s4_def using unfed_write_chunk [OF P] unfolding unfed_def by blast
        with m2 le3 Inr data have "m (world s4) < fuel" by simp
        from Suc.IH [OF this] Inr data show ?thesis
          by (simp only: run) (simp add: case_prod_beta s4_def)
      qed
    qed
  qed
qed simp


lemma receive_file_ends:
  fixes s :: "'w sys"
  assumes P: "finite_peer P m" and env: "\<And>k. unfed m (env k)" and s: "m (world s) < fuel"
  shows "fst (run_state (transfer_receive_file P env fuel path off) s) \<noteq> None"
    "fst (run_state (transfer_receive_file_ascii P env fuel path off) s) \<noteq> None"
proof -
  let ?s1 = "snd (run_state (os (px_malloc P)) s)"
  let ?s2 = "snd (run_state (os (px_malloc P)) ?s1)"
  have q: "unfed m (os (px_malloc P) :: ('w, bool) sys_m)"
    using P unfolding finite_peer_def by (intro unfed_os) blast
  have m: "m (world ?s1) < fuel" "m (world ?s2) < fuel"
    using q s unfolding unfed_def by (meson le_less_trans)+
  have l1: "fst (run_state (receive_loop P env conv path fuel 0 off 0 0) ?s1) \<noteq> None"
    and l2: "fst (run_state (receive_loop P env conv path fuel 0 off 0 0) ?s2) \<noteq> None" for conv
    by (rule receive_loop_ends [OF P env m(1)], rule receive_loop_ends [OF P env m(2)])
  show "fst (run_state (transfer_receive_file P env fuel path off) s) \<noteq> None"
    unfolding transfer_receive_file_def using l1 [of Some] by (auto simp: sget_def case_prod_beta split: option.splits)
  show "fst (run_state (transfer_receive_file_ascii P env fuel path off) s) \<noteq> None"
    unfolding transfer_receive_file_ascii_def using l2 [of "\<lambda>bs. crlf_to_lf bs (int TRANSFER_BUFFER_SIZE)"] by (auto simp: sget_def case_prod_beta split: option.splits)
qed


text \<open>An instance: a peer that sends the elements of a list, one per reception.\<close>

definition peer_posix :: "string list posix" where
  "peer_posix = plain_posix\<lparr>px_recv := \<lambda>_ _. State (\<lambda>w. case w of [] \<Rightarrow> (Inr [], []) | c # cs \<Rightarrow> (Inr c, cs))\<rparr>"

definition peer_sys :: "string list \<Rightarrow> session_t \<Rightarrow> string list sys" where
  "peer_sys w s = \<lparr>world = w, trace = [], stuck = False, locks = [], auth = auth_state0, sess = s\<rparr>"

definition upload_params :: transfer_params_t where
  "upload_params = \<lparr>tp_operation = TRANSFER_OP_RECV_FILE, tp_filepath = ''/srv/ftp/f'', tp_offset = 0,
     tp_type = PROTO_TYPE_ASCII, tp_lock_acquired = True\<rparr>"

definition upload_session :: session_t where
  "upload_session = plain_session\<lparr>s_data_socket := 5, s_transfer_thread := True,
     s_transfer_thread_state := TRANSFER_THREAD_STARTING, s_transfer_params := Some upload_params\<rparr>"

lemma peer_finite: "finite_peer peer_posix length"
  unfolding finite_peer_def
  by (intro conjI allI) (simp_all add: peer_posix_def plain_posix_def split: list.splits)


end
