(* ===== verification/Server.thy ===== *)
theory Server
  imports Transfer_Thread
begin

text \<open>
  \<open>server/src/server.c\<close>: the globals of the process, the thread of a client and the accept loop. The
  sessions are kept in a list; a freed session is \<open>None\<close>. Since all sessions share the lock table and
  the user database, a step of one session runs in the process state with this session put in. What
  other threads do while a loop waits is an argument \<open>env\<close> of the loop, run before each of its turns;
  the loops go on until the server is stopped, so they have fuel.
\<close>

section \<open>Globals\<close>

record server_config_t =
  cfg_port :: u16
  cfg_root_dir :: string
  cfg_bind_address :: string
  cfg_max_backlog :: int
  cfg_command_timeout_ms :: int
  cfg_max_connections :: int
  cfg_address_family :: net_addr_family_t

text \<open>Where the thread of a client is: before the greeting, in the command loop, or behind it.\<close>

datatype client_phase = Greeting | Serving | Leaving

record client =
  cl_phase :: client_phase
  cl_session :: session_t

record 'w server = "'w os" +
  sv_locks :: lock_entries
  sv_auth :: auth_state
  sv_handlers :: "'w sys cmd_state"
  sv_running :: bool
  sv_listening_socket :: int
  sv_config :: server_config_t
  sv_connections :: int
  sv_clients :: "client option list"

type_synonym ('w, 'a) server_m = "('w server, 'a) state"

text \<open>A computation of a session in the process.\<close>

definition session_view :: "session_t \<Rightarrow> 'w server \<Rightarrow> 'w sys" where
  "session_view s v = \<lparr>world = world v, trace = trace v, stuck = stuck v, locks = sv_locks v, auth = sv_auth v, sess = s\<rparr>"

definition session_put :: "'w sys \<Rightarrow> 'w server \<Rightarrow> 'w server" where
  "session_put s v = v\<lparr>world := world s, trace := trace s, stuck := stuck s, sv_locks := locks s, sv_auth := auth s\<rparr>"

definition in_session :: "session_t \<Rightarrow> ('w, 'a) sys_m \<Rightarrow> ('w, 'a \<times> session_t) server_m" where
  "in_session s m = State (\<lambda>v. case run_state m (session_view s v) of (a, s') \<Rightarrow> ((a, sess s'), session_put s' v))"

section \<open>The thread of a client\<close>

text \<open>Up to the command loop; the result says whether the greeting was sent.\<close>

definition client_begin :: "'w posix \<Rightarrow> ('w, bool) sys_m" where
  "client_begin P = do {
     sock \<leftarrow> sget s_control_socket;
     net_set_oob_inline P sock True;
     r \<leftarrow> session_send_response P PROTO_RESP_SERVICE_READY ''FTP Server Ready'';
     ret (r = 0) }"

datatype turn_result = Hung_up | Bad_line | Did proto_command_t

text \<open>One turn of the command loop.\<close>

definition client_turn :: "'w posix \<Rightarrow> 'w sys cmd_state \<Rightarrow> int \<Rightarrow> ('w, turn_result) sys_m" where
  "client_turn P handlers command_timeout_ms = do {
     sock \<leftarrow> sget s_control_socket;
     has_urgent \<leftarrow> net_has_urgent_data P sock;
     (bytes_received, line) \<leftarrow> net_receive_line P sock 1024 command_timeout_ms;
     if bytes_received \<le> 0 then ret Hung_up
     else do {
       session_update_activity P;
       (case proto_parse_command (cstr line) of
          None \<Rightarrow> do {
            session_send_response P PROTO_RESP_SYNTAX_ERROR ''Syntax error, command unrecognized'';
            ret Bad_line }
        | Some cmd \<Rightarrow> do {
            smod (\<lambda>s. s\<lparr>s_commands_received := s_commands_received s + 1\<rparr>);
            r \<leftarrow> cmd_dispatch handlers cmd;
            (if r \<noteq> 0 \<and> \<not> cmd_is_registered handlers (command cmd) then do {
               session_send_response P PROTO_RESP_COMMAND_NOT_IMPL ''Command not implemented''; ret () }
             else ret ());
            ret (Did cmd) }) } }"

text \<open>The loop. \<open>running i\<close> is the value of \<open>g_server_running\<close> before the \<open>i\<close>-th turn, \<open>env i\<close> what the
  transfer thread of the session does until then; \<open>False\<close> means that the fuel is used up.\<close>

fun client_loop :: "'w posix \<Rightarrow> 'w sys cmd_state \<Rightarrow> int \<Rightarrow> (nat \<Rightarrow> bool) \<Rightarrow> 'w env \<Rightarrow> nat \<Rightarrow> nat \<Rightarrow> ('w, bool) sys_m" where
  "client_loop P handlers tmo running env i 0 = ret False"
| "client_loop P handlers tmo running env i (Suc fuel) = do {
     env i;
     quit \<leftarrow> sget s_should_quit;
     if quit \<or> \<not> running i then ret True
     else do {
       r \<leftarrow> client_turn P handlers tmo;
       if r = Hung_up then ret True else client_loop P handlers tmo running env (i + 1) fuel } }"

text \<open>The thread up to the decrement of the connection count; \<open>join\<close> is what the session's transfer
  thread still does until it has been joined.\<close>

definition client_session ::
  "'w posix \<Rightarrow> 'w sys cmd_state \<Rightarrow> int \<Rightarrow> (nat \<Rightarrow> bool) \<Rightarrow> 'w env \<Rightarrow> ('w, unit) sys_m \<Rightarrow> nat \<Rightarrow> ('w, bool) sys_m" where
  "client_session P handlers tmo running env join fuel = do {
     ok \<leftarrow> client_begin P;
     if \<not> ok then do { session_destroy P join; ret True }
     else do {
       ended \<leftarrow> client_loop P handlers tmo running env 0 fuel;
       if ended then do { session_destroy P join; ret True } else ret False } }"

section \<open>The server\<close>

definition server_cleanup :: "'w posix \<Rightarrow> ('w, unit) server_m" where
  "server_cleanup P = do {
     sock \<leftarrow> gets sv_listening_socket;
     (if sock \<noteq> INVALID_SOCKET_T then do {
        net_close_socket P sock;
        modify (\<lambda>v. v\<lparr>sv_listening_socket := INVALID_SOCKET_T\<rparr>) } else ret ());
     modify (\<lambda>v. v\<lparr>sv_handlers := cmd_cleanup (sv_handlers v)\<rparr>);
     modify (\<lambda>v. v\<lparr>sv_auth := auth_cleanup (sv_auth v)\<rparr>);
     modify (\<lambda>v. v\<lparr>sv_running := False\<rparr>);
     modify (\<lambda>v. v\<lparr>sv_connections := 0\<rparr>) }"

definition server_stop :: "'w posix \<Rightarrow> ('w, unit) server_m" where
  "server_stop P = do {
     modify (\<lambda>v. v\<lparr>sv_running := False\<rparr>);
     sock \<leftarrow> gets sv_listening_socket;
     (if sock \<noteq> INVALID_SOCKET_T then do {
        net_close_socket P sock;
        modify (\<lambda>v. v\<lparr>sv_listening_socket := INVALID_SOCKET_T\<rparr>) } else ret ()) }"

definition server_is_running :: "('w, bool) server_m" where
  "server_is_running = gets sv_running"

text \<open>\<open>net_init\<close>, \<open>auth_init\<close> and \<open>cmd_init\<close> do not fail in the POSIX build, so their error branches
  are never taken; a null pointer for the configuration is \<open>None\<close>.\<close>

definition server_init :: "'w posix \<Rightarrow> server_config_t option \<Rightarrow> ('w, int) server_m" where
  "server_init P configuration =
     (case configuration of
        None \<Rightarrow> ret (-1)
      | Some config \<Rightarrow> do {
          modify (\<lambda>v. v\<lparr>sv_config := config\<rparr>);
          isdir \<leftarrow> fs_is_directory P (cfg_root_dir config);
          created \<leftarrow> (if isdir then ret 0 else fs_create_directory P (cfg_root_dir config));
          if created \<noteq> 0 then ret (-1)
          else do {
            modify (\<lambda>v. v\<lparr>sv_auth := auth_init (sv_auth v)\<rparr>);
            modify (\<lambda>v. v\<lparr>sv_auth := auth_set_anonymous_enabled True (sv_auth v)\<rparr>);
            modify (\<lambda>v. v\<lparr>sv_auth := auth_set_anonymous_defaults ''/'' AUTH_PERM_READ (sv_auth v)\<rparr>);
            contents \<leftarrow> os (px_fopen P ''users.db'');
            modify (\<lambda>v. v\<lparr>sv_auth := snd (auth_load_users contents (sv_auth v))\<rparr>);
            modify (\<lambda>v. v\<lparr>sv_handlers := snd (cmd_init (sv_handlers v))\<rparr>);
            r \<leftarrow> State (\<lambda>v. case cmd_register_standard_handlers P (sv_handlers v) of
                   (r, st) \<Rightarrow> (r, v\<lparr>sv_handlers := st\<rparr>));
            if r \<noteq> 0 then do {
              modify (\<lambda>v. v\<lparr>sv_handlers := cmd_cleanup (sv_handlers v), sv_auth := auth_cleanup (sv_auth v)\<rparr>);
              ret (-1) }
            else do {
              sock \<leftarrow> net_create_listening_socket P (cfg_address_family config) (cfg_bind_address config)
                        (cfg_port config) (cfg_max_backlog config);
              modify (\<lambda>v. v\<lparr>sv_listening_socket := sock\<rparr>);
              if sock = INVALID_SOCKET_T then do {
                modify (\<lambda>v. v\<lparr>sv_handlers := cmd_cleanup (sv_handlers v), sv_auth := auth_cleanup (sv_auth v)\<rparr>);
                ret (-1) }
              else do {
                modify (\<lambda>v. v\<lparr>sv_running := True\<rparr>);
                ret 0 } } } })"

text \<open>The critical section at the connection count: whether the server is busy, else one more.\<close>

definition admit :: "('w, bool) server_m" where
  "admit = State (\<lambda>v.
     if cfg_max_connections (sv_config v) > 0 \<and> sv_connections v \<ge> cfg_max_connections (sv_config v) then (True, v)
     else (False, v\<lparr>sv_connections := sv_connections v + 1\<rparr>))"

definition forget_connection :: "('w, unit) server_m" where
  "forget_connection = modify (\<lambda>v. v\<lparr>sv_connections := sv_connections v - 1\<rparr>)"

text \<open>The whole thread, in the process: \<open>False\<close> means that it still runs.\<close>

definition client_thread ::
  "'w posix \<Rightarrow> (nat \<Rightarrow> bool) \<Rightarrow> 'w env \<Rightarrow> ('w, unit) sys_m \<Rightarrow> nat \<Rightarrow> session_t \<Rightarrow> ('w, bool) server_m" where
  "client_thread P running env join fuel session = do {
     handlers \<leftarrow> gets sv_handlers;
     config \<leftarrow> gets sv_config;
     (ended, s) \<leftarrow> in_session session
       (client_session P handlers (cfg_command_timeout_ms config) running env join fuel);
     if ended then do { forget_connection; ret True } else ret False }"

text \<open>One turn of the accept loop.\<close>

definition accept_turn :: "'w posix \<Rightarrow> ('w, unit) server_m" where
  "accept_turn P = do {
     listening \<leftarrow> gets sv_listening_socket;
     r \<leftarrow> net_accept P listening;
     (case r of
        Inl err \<Rightarrow> ret ()
      | Inr (client_socket, client_ip, client_port) \<Rightarrow>
          if client_socket = INVALID_SOCKET_T then ret ()
          else do {
            is_busy \<leftarrow> admit;
            if is_busy then do {
              (case proto_format_response PROTO_MAX_RESPONSE_LINE PROTO_RESP_SERVICE_NOT_AVAIL
                      ''Service not available, too many connections'' of
                 None \<Rightarrow> ret ()
               | Some busy_response \<Rightarrow> do { net_send_all P client_socket busy_response; ret () });
              net_close_socket P client_socket }
            else do {
              config \<leftarrow> gets sv_config;
              session \<leftarrow> session_create P client_socket client_ip client_port (cfg_root_dir config)
                           (Some (cfg_bind_address config));
              (case session of
                 None \<Rightarrow> do { net_close_socket P client_socket; forget_connection }
               | Some s \<Rightarrow> do {
                   ok \<leftarrow> os (px_pthread_create P);
                   if \<not> ok then do { in_session s (session_destroy P (ret ())); forget_connection }
                   else modify (\<lambda>v. v\<lparr>sv_clients := sv_clients v @ [Some \<lparr>cl_phase = Greeting, cl_session = s\<rparr>]\<rparr>) }) } }) }"

type_synonym 'w server_env = "nat \<Rightarrow> ('w, unit) server_m"

fun accept_loop_run :: "'w posix \<Rightarrow> 'w server_env \<Rightarrow> nat \<Rightarrow> nat \<Rightarrow> ('w, int option) server_m" where
  "accept_loop_run P env i 0 = ret None"
| "accept_loop_run P env i (Suc fuel) = do {
     env i;
     running \<leftarrow> gets sv_running;
     if \<not> running then ret (Some 0)
     else do { accept_turn P; accept_loop_run P env (i + 1) fuel } }"

definition server_run :: "'w posix \<Rightarrow> 'w server_env \<Rightarrow> nat \<Rightarrow> ('w, int option) server_m" where
  "server_run P env fuel = do {
     running \<leftarrow> gets sv_running;
     if \<not> running then ret (Some (-1)) else accept_loop_run P env 0 fuel }"

section \<open>Steps of the process\<close>

text \<open>The first lines of \<open>transfer_thread_func\<close>.\<close>

definition transfer_begin :: "('w, unit) sys_m" where
  "transfer_begin = do {
     session_set_transfer_thread_state TRANSFER_THREAD_RUNNING;
     session_set_transfer_in_progress }"

text \<open>What the transfer thread of a session still does when the session is destroyed.\<close>

definition transfer_rest :: "'w posix \<Rightarrow> 'w env \<Rightarrow> nat \<Rightarrow> ('w, bool) sys_m" where
  "transfer_rest P env fuel = do {
     st \<leftarrow> sget s_transfer_thread_state;
     p \<leftarrow> sget s_transfer_params;
     (case st of
        TRANSFER_THREAD_STARTING \<Rightarrow> transfer_thread_func P env fuel
      | TRANSFER_THREAD_RUNNING \<Rightarrow>
          (case p of
             None \<Rightarrow> do { give_up; ret False }
           | Some params \<Rightarrow> do {
               r \<leftarrow> run_transfer P env fuel params;
               (case r of None \<Rightarrow> ret False | Some result \<Rightarrow> finish_transfer P params result) })
      | _ \<Rightarrow> ret True) }"

text \<open>\<open>pthread_join\<close>: it does not return before the thread has ended, which the flag records.\<close>

definition join_transfer :: "'w posix \<Rightarrow> 'w env \<Rightarrow> nat \<Rightarrow> ('w, unit) sys_m" where
  "join_transfer P env fuel = do {
     ended \<leftarrow> transfer_rest P env fuel;
     if ended then ret () else give_up }"


text \<open>
  The steps that threads of the process take, one at a time: a turn of the accept loop, the parts of a
  client's thread, the beginning and the rest of a transfer's thread, and \<open>server_stop\<close>, which a
  signal runs. A command is one step; a transfer's thread works in one step, with what the client
  sends meanwhile in its \<open>env\<close>. A step that waits for ever, or meets undefined behaviour, is not
  taken: it sets the flag.
\<close>

datatype server_event = Accepted | Greeted nat | Turned nat turn_result | Looped_out nat
  | Transfer_begun nat | Transfer_ended nat | Left nat | Stopped

definition set_client :: "nat \<Rightarrow> client option \<Rightarrow> 'w server \<Rightarrow> 'w server" where
  "set_client i c v = v\<lparr>sv_clients := (sv_clients v)[i := c]\<rparr>"

inductive server_step :: "'w posix \<Rightarrow> 'w server \<Rightarrow> server_event \<Rightarrow> 'w server \<Rightarrow> bool" for P where
  accept: "sv_running v \<Longrightarrow> run_state (accept_turn P) v = ((), v') \<Longrightarrow> \<not> stuck v' \<Longrightarrow> server_step P v Accepted v'"
| greet: "i < length (sv_clients v) \<Longrightarrow> sv_clients v ! i = Some \<lparr>cl_phase = Greeting, cl_session = s\<rparr> \<Longrightarrow>
     run_state (in_session s (client_begin P)) v = ((ok, s'), v') \<Longrightarrow> \<not> stuck v' \<Longrightarrow>
     server_step P v (Greeted i) (set_client i (Some \<lparr>cl_phase = (if ok then Serving else Leaving), cl_session = s'\<rparr>) v')"
| turn: "i < length (sv_clients v) \<Longrightarrow> sv_clients v ! i = Some \<lparr>cl_phase = Serving, cl_session = s\<rparr> \<Longrightarrow>
     \<not> s_should_quit s \<Longrightarrow> sv_running v \<Longrightarrow>
     run_state (in_session s (client_turn P (sv_handlers v) (cfg_command_timeout_ms (sv_config v)))) v = ((r, s'), v') \<Longrightarrow>
     \<not> stuck v' \<Longrightarrow>
     server_step P v (Turned i r)
       (set_client i (Some \<lparr>cl_phase = (if r = Hung_up then Leaving else Serving), cl_session = s'\<rparr>) v')"
| loop_out: "i < length (sv_clients v) \<Longrightarrow> sv_clients v ! i = Some \<lparr>cl_phase = Serving, cl_session = s\<rparr> \<Longrightarrow>
     s_should_quit s \<or> \<not> sv_running v \<Longrightarrow>
     server_step P v (Looped_out i) (set_client i (Some \<lparr>cl_phase = Leaving, cl_session = s\<rparr>) v)"
| transfer_begin: "i < length (sv_clients v) \<Longrightarrow> sv_clients v ! i = Some \<lparr>cl_phase = ph, cl_session = s\<rparr> \<Longrightarrow>
     s_transfer_thread_state s = TRANSFER_THREAD_STARTING \<Longrightarrow>
     run_state (in_session s transfer_begin) v = (((), s'), v') \<Longrightarrow>
     server_step P v (Transfer_begun i) (set_client i (Some \<lparr>cl_phase = ph, cl_session = s'\<rparr>) v')"
| transfer_end: "i < length (sv_clients v) \<Longrightarrow> sv_clients v ! i = Some \<lparr>cl_phase = ph, cl_session = s\<rparr> \<Longrightarrow>
     s_transfer_thread_state s = TRANSFER_THREAD_RUNNING \<Longrightarrow> calm_env env \<Longrightarrow>
     run_state (in_session s (transfer_rest P env fuel)) v = ((True, s'), v') \<Longrightarrow> \<not> stuck v' \<Longrightarrow>
     server_step P v (Transfer_ended i) (set_client i (Some \<lparr>cl_phase = ph, cl_session = s'\<rparr>) v')"
| leave: "i < length (sv_clients v) \<Longrightarrow> sv_clients v ! i = Some \<lparr>cl_phase = Leaving, cl_session = s\<rparr> \<Longrightarrow> calm_env env \<Longrightarrow>
     run_state (in_session s (session_destroy P (join_transfer P env fuel))) v = (((), s'), v') \<Longrightarrow> \<not> stuck v' \<Longrightarrow>
     server_step P v (Left i) (snd (run_state forget_connection (set_client i None v')))"
| stop: "run_state (server_stop P) v = ((), v') \<Longrightarrow> server_step P v Stopped v'"

inductive_cases server_stepE: "server_step P v e v'"

end
