(* ===== verification/Server_Frames.thy ===== *)
theory Server_Frames
  imports Server
begin

text \<open>
  The threads of a session under the contracts of \<open>Frames\<close>: what a turn of the command loop, the
  rest of a transfer's thread and the end of a session keep.
\<close>

context session_frame
begin

lemma frame_transfer_begin [framing]: "keeps I transfer_begin any"
  unfolding transfer_begin_def by (intro framing)

lemma frame_client_begin [framing]: "keeps I (client_begin P) any"
  unfolding client_begin_def by (intro framing)

lemma frame_client_turn:
  "(\<And>cmd. keeps I (cmd_dispatch H cmd) any) \<Longrightarrow> keeps I (client_turn P H tmo) any"
  unfolding client_turn_def by (intro framing)

lemma frame_thread:
  assumes "\<And>k. keeps I (env k) any" "\<And>q. Ev_path (Op_open O_write_create) q \<in> A"
  shows "keeps I (transfer_thread_func P env fuel) any" "keeps I (transfer_rest P env fuel) any"
proof -
  show func: "keeps I (transfer_thread_func P env fuel) any"
    unfolding transfer_thread_func_def by (intro framing frame_run_transfer assms)
  have "keeps I (case st of TRANSFER_THREAD_STARTING \<Rightarrow> transfer_thread_func P env fuel
      | TRANSFER_THREAD_RUNNING \<Rightarrow> (case p of None \<Rightarrow> do { give_up; ret False }
           | Some params \<Rightarrow> do { r \<leftarrow> run_transfer P env fuel params;
               (case r of None \<Rightarrow> ret False | Some result \<Rightarrow> finish_transfer P params result) })
      | _ \<Rightarrow> ret True) any" for st p
    by (cases st) (auto intro!: framing frame_run_transfer func assms)
  then show "keeps I (transfer_rest P env fuel) any" unfolding transfer_rest_def by (intro framing)
qed

lemma frame_destroy: "keeps I join any \<Longrightarrow> keeps I (session_destroy P join) any"
  unfolding session_destroy_def by (intro framing)

lemma frame_join: "keeps I (transfer_rest P env fuel) any \<Longrightarrow> keeps I (join_transfer P env fuel) any"
  unfolding join_transfer_def by (intro framing)

end

text \<open>The flag \<open>stuck\<close> is never reset.\<close>

interpretation stuck: session_frame "stuck :: 'w sys \<Rightarrow> bool" UNIV
  by unfold_locales simp_all

end
