(* ===== verification/Replies.thy ===== *)
theory Replies
  imports Server_Frames
begin

text \<open>
  The replies of the server: under a control connection that takes whole lines, each command that a
  client sends is answered by exactly one final reply, possibly after preliminary ones and lines of a
  multi-line reply. The commands that start a transfer leave the final reply to its thread.
\<close>

section \<open>Final replies\<close>

text \<open>RFC 959: three digits, of which the first is 2 to 5, and a space.\<close>

fun final_reply :: "os_event \<Rightarrow> bool" where
  "final_reply (Ev_send fd (a # b # c # d # t)) = (d = CHR '' '' \<and> a \<in> {CHR ''2'', CHR ''3'', CHR ''4'', CHR ''5''})"
| "final_reply e = False"

definition finals :: "os_event list \<Rightarrow> nat" where
  "finals tr = length (filter final_reply tr)"

lemma finals_simps [simp]: "finals [] = 0" "finals (e # tr) = (if final_reply e then 1 else 0) + finals tr"
  "finals (a @ b) = finals a + finals b"
  by (simp_all add: finals_def)

definition answered :: "os_event list \<Rightarrow> nat \<Rightarrow> ('w, 'z) os_scheme \<Rightarrow> bool" where
  "answered tr0 n s \<longleftrightarrow> (\<exists>tr. trace s = tr0 @ tr \<and> finals tr = n)"

lemma answered_more: "answered tr0 n s \<Longrightarrow> trace s' = trace s @ tr \<Longrightarrow> finals tr = k \<Longrightarrow> answered tr0 (n + k) s'"
  by (auto simp: answered_def)

lemma not_final: "set tr \<subseteq> {e. \<not> final_reply e} \<Longrightarrow> finals tr = 0"
  by (induction tr) auto

lemma quiet_not_final: "e \<in> quiet \<Longrightarrow> \<not> final_reply e"
  by (cases e) (auto simp: quiet_def)

interpretation answered: free_frame "answered tr0 n :: 'w sys \<Rightarrow> bool" "{e. \<not> final_reply e}" for tr0 n
proof
  fix s s' :: "'w sys" and tr
  assume "answered tr0 n s" "trace s' = trace s @ tr" "set tr \<subseteq> {e. \<not> final_reply e}"
  then show "answered tr0 n s'" using answered_more [of tr0 n s s' tr 0] not_final by simp
qed (auto simp: answered_def dest: quiet_not_final)

section \<open>Lines\<close>

text \<open>The system takes what is sent at once, and sizes fit \<open>off_t\<close>.\<close>

definition whole_lines :: "'w posix \<Rightarrow> bool" where
  "whole_lines P \<longleftrightarrow> (\<forall>fd bs w. fst (run_state (px_send P fd bs) w) = Inr (length bs))"

definition sizes_fit :: "'w posix \<Rightarrow> bool" where
  "sizes_fit P \<longleftrightarrow> (\<forall>path w st. fst (run_state (px_stat P path) w) = Some st \<longrightarrow> \<bar>st_size st\<bar> < 2 ^ 63)"

lemma send_whole:
  assumes "whole_lines P" "bs \<noteq> []"
  obtains w where "run_state (net_send_all P fd bs) s = (0, s\<lparr>world := w, trace := trace s @ [Ev_send fd bs]\<rparr>)"
proof
  have "fst (run_state (px_send P fd bs) (world s)) = Inr (length bs)" using assms(1) unfolding whole_lines_def by blast
  then show "run_state (net_send_all P fd bs) s = (0, s\<lparr>world := snd (run_state (px_send P fd bs) (world s)), trace := trace s @ [Ev_send fd bs]\<rparr>)"
    using assms(2)
    by (simp add: net_send_all.simps net_send_def sys_send_def run_os emit_def case_prod_beta)
qed

lemma dec_code:
  assumes "100 \<le> code" "code \<le> (599 :: int)"
  shows "\<exists>b c. dec_int code = [digit_char (nat code div 100), b, c]"
proof -
  define n where "n = nat code"
  have n: "100 \<le> n" "n \<le> 599" "dec_int code = dec n" using assms by (auto simp: n_def dec_int_def)
  have big: "10 \<le> n div 10" "n div 10 div 10 < 10" using n(1,2) by linarith+
  have "dec (n div 10 div 10) = [digit_char (n div 10 div 10)]" using big(2) by (subst dec.simps) (rule if_P)
  then have "dec (n div 10) = [digit_char (n div 10 div 10), digit_char (n div 10 mod 10)]"
    using big(1) by (subst dec.simps) (simp only: not_less if_not_P append.simps)
  then have "dec n = [digit_char (n div 10 div 10), digit_char (n div 10 mod 10), digit_char (n mod 10)]"
    using n(1) by (subst dec.simps) (simp only: not_less if_not_P append.simps)
  then show ?thesis using n(3) by (simp add: n_def flip: div_mult2_eq)
qed

lemma code_class:
  assumes "100 \<le> code" "code \<le> (599 :: int)"
  shows "digit_char (nat code div 100) \<in> {CHR ''2'', CHR ''3'', CHR ''4'', CHR ''5''} \<longleftrightarrow> 200 \<le> code"
proof -
  have d: "digit_char 1 = CHR ''1''" "digit_char 2 = CHR ''2''" "digit_char 3 = CHR ''3''" "digit_char 4 = CHR ''4''"
    "digit_char 5 = CHR ''5''" by code_simp+
  have "1 \<le> nat code div 100" "nat code div 100 \<le> 5" "200 \<le> code \<longleftrightarrow> nat code div 100 \<noteq> 1" using assms by linarith+
  moreover from this have "nat code div 100 \<in> {1, 2, 3, 4, 5}" by auto
  ultimately show ?thesis using d by auto
qed

text \<open>A line as the two formatting functions make it; a hyphen behind the code announces more lines.\<close>

definition reply_line :: "int \<Rightarrow> char \<Rightarrow> string \<Rightarrow> string" where
  "reply_line code sep msg = dec_int code @ sep # msg @ [CR, LF]"

lemma reply_line_final:
  assumes "100 \<le> code" "code \<le> 599"
  shows "final_reply (Ev_send fd (reply_line code sep msg)) \<longleftrightarrow> 200 \<le> code \<and> sep = CHR '' ''"
  using dec_code [OF assms] code_class [OF assms] by (auto simp: reply_line_def)

lemma length_reply_line: "100 \<le> code \<Longrightarrow> code \<le> 599 \<Longrightarrow> length (reply_line code sep msg) = length msg + 6"
  using dec_code [of code] by (auto simp: reply_line_def)

lemma format_line:
  assumes "100 \<le> code" "code \<le> 599" "length msg < 1018"
  shows "proto_format_response PROTO_MAX_RESPONSE_LINE code msg = Some (reply_line code (CHR '' '') msg)"
    "proto_format_response_multiline PROTO_MAX_RESPONSE_LINE code msg = Some (reply_line code (CHR ''-'') msg)"
  using assms length_reply_line [OF assms(1,2), of _ msg]
  by (simp_all add: proto_format_response_def proto_format_response_multiline_def PROTO_MAX_RESPONSE_LINE_def reply_line_def)

text \<open>What sending does to the count of final replies.\<close>

lemma send_counts:
  assumes "whole_lines P" "bs \<noteq> []"
  shows "leads (answered tr0 n) (net_send_all P fd bs :: ('w, int) sys_m)
    (\<lambda>r s. answered tr0 (n + (if final_reply (Ev_send fd bs) then 1 else 0)) s \<and> r = 0)"
  unfolding leads_def
proof (intro allI impI)
  fix s :: "'w sys" assume a: "answered tr0 n s"
  obtain w where "run_state (net_send_all P fd bs) s = (0, s\<lparr>world := w, trace := trace s @ [Ev_send fd bs]\<rparr>)"
    by (rule send_whole [OF assms])
  then show "answered tr0 (n + (if final_reply (Ev_send fd bs) then 1 else 0)) (snd (run_state (net_send_all P fd bs) s)) \<and>
      fst (run_state (net_send_all P fd bs) s) = 0"
    using answered_more [OF a, of "s\<lparr>world := w, trace := trace s @ [Ev_send fd bs]\<rparr>" "[Ev_send fd bs]"] by simp
qed

lemma send_response_counts:
  assumes "whole_lines P" "100 \<le> code" "code \<le> 599" "length msg < 1018"
  shows "leads (answered tr0 n) (session_send_response P code msg)
      (\<lambda>r s. answered tr0 (n + (if 200 \<le> code then 1 else 0)) s \<and> r = 0)"
    "leads (answered tr0 n) (session_send_response_multiline P code msg) (\<lambda>r s. answered tr0 n s \<and> r = 0)"
proof -
  have ne: "reply_line code sep msg \<noteq> []" for sep by (simp add: reply_line_def)
  have send: "leads (answered tr0 n) (do { sock \<leftarrow> sget s_control_socket; r \<leftarrow> net_send_all P sock (reply_line code sep msg);
      ret (if r < 0 then -1 else 0 :: int) })
      (\<lambda>r s. answered tr0 (n + (if 200 \<le> code \<and> sep = CHR '' '' then 1 else 0)) s \<and> r = 0)" for sep
    by (rule leads_bind [OF frame_gets(2)], rule leads_const [OF send_counts [OF assms(1) ne]])
      (simp add: reply_line_final [OF assms(2,3)] leads_def)
  show "leads (answered tr0 n) (session_send_response P code msg)
      (\<lambda>r s. answered tr0 (n + (if 200 \<le> code then 1 else 0)) s \<and> r = 0)"
    "leads (answered tr0 n) (session_send_response_multiline P code msg) (\<lambda>r s. answered tr0 n s \<and> r = 0)"
    using send [of "CHR '' ''"] send [of "CHR ''-''"]
    by (simp_all add: session_send_response_def session_send_response_multiline_def format_line [OF assms(2-4)] del: if_split)
qed

section \<open>Computations that send exactly one final reply\<close>

definition replies :: "('w, 'a) sys_m \<Rightarrow> bool" where
  "replies m \<longleftrightarrow> (\<forall>tr0 n. leads (answered tr0 n) m (\<lambda>_. answered tr0 (Suc n)))"

named_theorems replying \<open>composition rules for computations that reply\<close>

lemma replies_bind [replying]:
  "(\<And>tr0 n. keeps (answered tr0 n) m any) \<Longrightarrow> (\<And>a. replies (f a)) \<Longrightarrow> replies (State_Monad.bind m f)"
  unfolding replies_def by (blast intro: leads_bind)

lemma replies_then:
  "replies m \<Longrightarrow> (\<And>a tr0 n. keeps (answered tr0 n) (f a) any) \<Longrightarrow> replies (State_Monad.bind m f)"
  unfolding replies_def by (fastforce simp: leads_def keeps_def case_prod_beta)

lemma replies_cases [replying]:
  "(b \<Longrightarrow> replies m) \<Longrightarrow> (\<not> b \<Longrightarrow> replies m') \<Longrightarrow> replies (if b then m else m')"
  "(x = None \<Longrightarrow> replies m) \<Longrightarrow> (\<And>a. x = Some a \<Longrightarrow> replies (f a)) \<Longrightarrow> replies (case x of None \<Rightarrow> m | Some a \<Rightarrow> f a)"
  "(\<And>a b. y = (a, b) \<Longrightarrow> replies (g a b)) \<Longrightarrow> replies (case y of (a, b) \<Rightarrow> g a b)"
  by (cases x; cases y; simp)+

lemma replies_send [replying]:
  "whole_lines P \<Longrightarrow> 200 \<le> code \<Longrightarrow> code \<le> 599 \<Longrightarrow> length msg < 1018 \<Longrightarrow> replies (session_send_response P code msg)"
  unfolding replies_def using send_response_counts(1) [of P code msg] by (fastforce elim: leads_weaken)

lemma replies_preliminary:
  assumes "whole_lines P" "length msg < 1018" "\<And>tr0 n. leads (answered tr0 n) (f 0) (J tr0 n)"
  shows "leads (answered tr0 n) (do { r \<leftarrow> session_send_response P PROTO_RESP_FILE_STATUS_OK msg; f r }) (J tr0 n)"
proof -
  have "leads (answered tr0 n) (session_send_response P PROTO_RESP_FILE_STATUS_OK msg) (\<lambda>r s. answered tr0 n s \<and> r = 0)"
    using send_response_counts(1) [OF assms(1) _ _ assms(2), of PROTO_RESP_FILE_STATUS_OK] by simp
  then show ?thesis by (rule leads_const) (simp add: assms(3))
qed

lemma replies_continued:
  assumes "whole_lines P" "100 \<le> code" "code \<le> 599" "length msg < 1018" "replies (f 0)"
  shows "replies (do { r \<leftarrow> session_send_response_multiline P code msg; f r })"
  unfolding replies_def
  by (intro allI leads_const [OF send_response_counts(2) [OF assms(1-4)]]) (use assms(5) in \<open>simp add: replies_def\<close>)

lemma replies_guards [replying]:
  assumes "whole_lines P"
  shows "replies h \<Longrightarrow> replies (REQUIRE_AUTH P h)" "replies h \<Longrightarrow> replies (REQUIRE_AUTH_AND_ARG P cmd h)"
    "replies h \<Longrightarrow> replies (with_data_mode P h)" "(\<And>q. replies (k q)) \<Longrightarrow> replies (with_path P p perm k)"
  unfolding REQUIRE_AUTH_AND_ARG_def REQUIRE_AUTH_def with_data_mode_def with_path_def
  by (intro replying framing assms; simp)+

lemma replies_simple:
  assumes "whole_lines P"
  shows "replies (cmd_handle_user P cmd)" "replies (cmd_handle_pass P cmd)" "replies (cmd_handle_acct P cmd)"
    "replies (cmd_handle_cwd P cmd)" "replies (cmd_handle_cdup P cmd)" "replies (cmd_handle_smnt P cmd)"
    "replies (cmd_handle_rein P cmd)" "replies (cmd_handle_port P cmd)" "replies (cmd_handle_stru P cmd)"
    "replies (cmd_handle_mode P cmd)" "replies (cmd_handle_rmd P cmd)" "replies (cmd_handle_rnfr P cmd)"
    "replies (cmd_handle_abor P cmd)" "replies (cmd_handle_syst P cmd)" "replies (cmd_handle_noop P cmd)"
  unfolding cmd_handle_user_def cmd_handle_pass_def cmd_handle_acct_def cmd_handle_cwd_def cmd_handle_cdup_def
    cmd_handle_smnt_def cmd_handle_rein_def cmd_handle_port_def cmd_handle_stru_def cmd_handle_mode_def
    cmd_handle_rmd_def cmd_handle_rnfr_def cmd_handle_abor_def cmd_handle_syst_def cmd_handle_noop_def Let_def
  by (intro replying framing assms; simp)+

text \<open>The replies whose text depends on values: they fit because the values are bounded.\<close>

lemma length_dec_int: "\<bar>i\<bar> < 2 ^ 64 \<Longrightarrow> length (dec_int i) \<le> 21"
proof -
  assume a: "\<bar>i\<bar> < 2 ^ 64"
  then have "nat i < 10 ^ Suc 19" "nat (- i) < 10 ^ Suc 19" by auto
  from length_dec [OF this(1)] length_dec [OF this(2)] show ?thesis by (simp add: dec_int_def)
qed

lemma length_snprintf_buf: "length (snprintf_buf n s) \<le> length s"
  by (simp add: snprintf_buf_def)

lemma file_size_fits:
  assumes "sizes_fit P"
  shows "keeps (answered tr0 n) (fs_get_file_size P path :: ('w, int) sys_m) (\<lambda>k. \<bar>k\<bar> < 2 ^ 63)"
proof (rule keepsI)
  fix s :: "'w sys" assume "answered tr0 n s"
  then have "answered tr0 n (snd (run_state (fs_get_file_size P path) s))"
    using keeps_snd [OF answered.frame_fs(3)] by blast
  moreover have "\<bar>fst (run_state (fs_get_file_size P path) s)\<bar> < 2 ^ 63"
    using assms unfolding sizes_fit_def run_file_size by (auto split: option.split)
  ultimately show "answered tr0 n (snd (run_state (fs_get_file_size P path) s)) \<and>
      \<bar>fst (run_state (fs_get_file_size P path) s)\<bar> < 2 ^ 63" by blast
qed

lemma replies_valued:
  assumes W: "whole_lines P" and arg: "length (argument cmd) < 512"
  shows "replies (cmd_handle_type P cmd)" "replies (cmd_handle_rest P cmd)" "replies (cmd_handle_mkd P cmd)"
    "replies (cmd_handle_mdtm P cmd)" 
proof -
  have fit: "length m < 1018 \<Longrightarrow> length (snprintf_buf n m) < 1018" for n m
    using length_snprintf_buf [of n m] by simp
  show "replies (cmd_handle_type P cmd)" unfolding cmd_handle_type_def
    by (intro replying framing W fit; simp split: proto_transfer_type_t.split)
  show "replies (cmd_handle_mkd P cmd)" unfolding cmd_handle_mkd_def
    by (intro replying framing W fit; use arg in simp)
  show "replies (cmd_handle_mdtm P cmd)" unfolding cmd_handle_mdtm_def
    by (intro replying framing W fit; simp)
  have "\<bar>fst (strtoll t)\<bar> < 2 ^ 64" for t by (auto simp: strtoll_def split: option.split)
  then have "length (dec_int (fst (strtoll t))) \<le> 21" for t by (rule length_dec_int)
  then have "strtoll t = (i, e) \<Longrightarrow> length (dec_int i) \<le> 21" for t i e by (metis fst_conv)
  then have "strtoll t = (i, e) \<Longrightarrow> length (dec_int i) < 990" for t i e by (rule le_less_trans) simp_all
  then show "replies (cmd_handle_rest P cmd)" unfolding cmd_handle_rest_def Let_def
    by (intro replying framing W fit; simp)
qed

lemma replies_bind_fact:
  "(\<And>tr0 n. keeps (answered tr0 n) m F) \<Longrightarrow> (\<And>a. F a \<Longrightarrow> replies (f a)) \<Longrightarrow> replies (State_Monad.bind m f)"
  unfolding replies_def by (blast intro: leads_bind_fact)

lemma replies_size:
  assumes W: "whole_lines P" and S: "sizes_fit P"
  shows "replies (cmd_handle_size P cmd)"
proof -
  have fit: "length (snprintf_buf PROTO_MAX_RESPONSE_LINE (dec_int k)) < 1018" if "\<bar>k\<bar> < 2 ^ 63" for k
    using length_snprintf_buf [of PROTO_MAX_RESPONSE_LINE "dec_int k"] length_dec_int [of k] that by simp
  show ?thesis unfolding cmd_handle_size_def
    by (rule replies_bind_fact [OF file_size_fits [OF S]] replying framing W fit | assumption | (simp; fail))+
qed

text \<open>\<open>PWD\<close> reads the directory into a buffer that leaves room for the rest of the line.\<close>

lemma replies_pwd:
  assumes W: "whole_lines P"
  shows "replies (cmd_handle_pwd P cmd)"
proof -
  have read: "keeps (answered tr0 n) (session_get_current_directory (SESSION_MAX_PATH - 32)) (\<lambda>r. \<forall>c. r = Some c \<longrightarrow> length c < 992)"
    for tr0 :: "os_event list" and n
    by (simp add: keeps_def session_get_current_directory_def run_abort length_strncpy_buf SESSION_MAX_PATH_def)
  have fit: "length (snprintf_buf k (CHR 0x22 # c @ CHR 0x22 # '' is current directory'')) < 1018" if "length c < 992" for k c
    by (rule le_less_trans [OF length_snprintf_buf]) (use that in simp)
  show ?thesis unfolding cmd_handle_pwd_def
    by (rule replies_guards [OF W] replies_bind_fact [OF read] replying fit W | (simp; fail))+
qed

lemma replies_multiline:
  assumes W: "whole_lines P"
  shows "replies (cmd_handle_quit P cmd)" "replies (cmd_handle_feat P cmd)"
proof -
  have fit: "length (stat_line m) < 1018" for m
    using length_snprintf_buf [of 256 m] by (simp add: stat_line_def snprintf_buf_def)
  show "replies (cmd_handle_quit P cmd)" unfolding cmd_handle_quit_def Let_def
    by ((rule replies_continued [OF W] replying framing W fit TrueI | (simp; fail))+)
  show "replies (cmd_handle_feat P cmd)" unfolding cmd_handle_feat_def
    by ((rule replies_continued [OF W] replying framing W | (simp; fail))+)
qed

lemma replies_pasv:
  assumes W: "whole_lines P"
  shows "replies (cmd_handle_pasv P cmd :: ('w, int) sys_m)"
proof -
  have send: "replies (do { result \<leftarrow> net_send_all P fd response;
      if result \<noteq> 0 then do { session_close_data_connection P; ret (-1) } else ret 0 } :: ('w, int) sys_m)"
    if p: "proto_format_pasv_response 256 params = Some response" for fd params response
  proof -
    from p have "final_reply (Ev_send fd response)" "response \<noteq> []"
      by (auto simp: proto_format_pasv_response_def Let_def split: if_splits)
    with send_counts [OF W this(2)] show ?thesis unfolding replies_def
      by (intro allI leads_const [OF send_counts [OF W]]) (simp_all add: leads_def)
  qed
  show ?thesis unfolding cmd_handle_pasv_def
    by (rule replies_guards [OF W] send replying framing W | assumption | (simp; fail))+
qed

text \<open>After the reply a lock is released.\<close>

lemma replies_release:
  "replies m \<Longrightarrow> (\<And>tr0 n. keeps (answered tr0 n) x any) \<Longrightarrow> replies (do { r \<leftarrow> m; x; ret r })"
  "replies m \<Longrightarrow> (\<And>tr0 n. keeps (answered tr0 n) x any) \<Longrightarrow> (\<And>tr0 n. keeps (answered tr0 n) y any) \<Longrightarrow>
   replies (do { r \<leftarrow> m; x; y; ret r })"
  by (rule replies_then; assumption?; intro framing; assumption)+

lemma silent_changes:
  "keeps (answered tr0 n) (fs_delete_file P q :: ('w, int) sys_m) any"
  "keeps (answered tr0 n) (fs_rename P p q :: ('w, int) sys_m) any"
  by (rule answered.frame_changes; simp)+

definition short :: "string option \<Rightarrow> bool" where
  "short r \<longleftrightarrow> (\<forall>m. r = Some m \<longrightarrow> length m < 1018)"

lemma short_refusal:
  "keeps (answered tr0 n) ((case fs_get_parent_directory to_path k of
      None \<Rightarrow> ret None
    | Some dest_parent \<Rightarrow> do {
        exists \<leftarrow> fs_path_exists P dest_parent;
        if \<not> exists then ret (Some ''Destination directory does not exist'')
        else do {
          isdir \<leftarrow> fs_is_directory P dest_parent;
          if \<not> isdir then ret (Some ''Invalid destination path'') else ret None } }) :: ('w, string option) sys_m) short"
  by (rule keeps_option keeps_ret keeps_if keeps_bind [OF answered.frame_fs(1)] keeps_bind [OF answered.frame_fs(2)] |
      (simp add: short_def; fail))+

lemma replies_changes:
  assumes W: "whole_lines P"
  shows "replies (cmd_handle_dele P cmd)" "replies (cmd_handle_rnto P cmd)"
  unfolding cmd_handle_dele_def cmd_handle_rnto_def
  by (rule replies_guards [OF W] replies_release replies_bind_fact [OF short_refusal] replying framing silent_changes W |
      assumption | (simp add: short_def; fail))+

section \<open>Commands that start a transfer\<close>

text \<open>Either the command is answered, or a thread has been started that will answer.\<close>

abbreviation starting :: "'w sys \<Rightarrow> bool" where
  "starting s \<equiv> s_transfer_thread_state (sess s) = TRANSFER_THREAD_STARTING"

definition replies_or_starts :: "('w, 'a) sys_m \<Rightarrow> bool" where
  "replies_or_starts m \<longleftrightarrow> (\<forall>tr0 n. leads (answered tr0 n) m (\<lambda>_ s. answered tr0 (Suc n) s \<or> answered tr0 n s \<and> starting s))"

text \<open>The block in the middle of these commands; the flags of its result say which of the two it was.\<close>

definition settles :: "('w, int \<times> bool \<times> bool) sys_m \<Rightarrow> bool" where
  "settles m \<longleftrightarrow> (\<forall>tr0 n. leads (answered tr0 n) m (\<lambda>(response, opened, started) s.
     if started then \<not> opened \<and> answered tr0 n s \<and> starting s else answered tr0 (Suc n) s))"

named_theorems settling \<open>composition rules for commands that start a transfer\<close>

lemma settles_bind [settling]:
  "(\<And>tr0 n. keeps (answered tr0 n) m F) \<Longrightarrow> (\<And>a. F a \<Longrightarrow> settles (f a)) \<Longrightarrow> settles (State_Monad.bind m f)"
  "(\<And>tr0 n. keeps (answered tr0 n) m' F) \<Longrightarrow> (\<And>a. F a \<Longrightarrow> replies_or_starts (g a)) \<Longrightarrow> replies_or_starts (State_Monad.bind m' g)"
  unfolding settles_def replies_or_starts_def by (blast intro: leads_bind_fact)+

lemma settles_cases [settling]:
  "(b \<Longrightarrow> settles m) \<Longrightarrow> (\<not> b \<Longrightarrow> settles m') \<Longrightarrow> settles (if b then m else m')"
  "(x = None \<Longrightarrow> settles m) \<Longrightarrow> (\<And>a. x = Some a \<Longrightarrow> settles (f a)) \<Longrightarrow> settles (case x of None \<Rightarrow> m | Some a \<Rightarrow> f a)"
  "(b \<Longrightarrow> replies_or_starts l) \<Longrightarrow> (\<not> b \<Longrightarrow> replies_or_starts l') \<Longrightarrow> replies_or_starts (if b then l else l')"
  by (cases x; simp)+

lemma starts_option:
  "(x = None \<Longrightarrow> replies_or_starts m) \<Longrightarrow> (\<And>a. x = Some a \<Longrightarrow> replies_or_starts (f a)) \<Longrightarrow>
   replies_or_starts (case x of None \<Rightarrow> m | Some a \<Rightarrow> f a)"
  by (cases x) simp_all

lemma starts_reply [settling]: "replies m \<Longrightarrow> replies_or_starts m"
  unfolding replies_def replies_or_starts_def leads_def by blast

lemma settles_reply [settling]: "replies m \<Longrightarrow> settles (do { response \<leftarrow> m; ret (response, opened, False) })"
  unfolding replies_def settles_def leads_def by (simp add: case_prod_beta)

lemma settles_preliminary [settling]:
  assumes "whole_lines P" "length msg < 1018" "settles (f 0)"
  shows "settles (do { r \<leftarrow> session_send_response P PROTO_RESP_FILE_STATUS_OK msg; f r })"
  using assms(3) unfolding settles_def by (intro allI replies_preliminary [OF assms(1,2)]) blast

lemma settles_guards [settling]:
  assumes "whole_lines P"
  shows "replies_or_starts h \<Longrightarrow> replies_or_starts (REQUIRE_AUTH P h)"
    "replies_or_starts h \<Longrightarrow> replies_or_starts (REQUIRE_AUTH_AND_ARG P cmd h)"
    "replies_or_starts h \<Longrightarrow> replies_or_starts (with_data_mode P h)"
    "(\<And>q. replies_or_starts (k q)) \<Longrightarrow> replies_or_starts (with_path P p perm k)"
proof -
  note send = starts_reply [OF replies_send [OF assms]]
  show auth: "replies_or_starts (REQUIRE_AUTH P h)" if "replies_or_starts h" for h
    unfolding REQUIRE_AUTH_def by (rule settles_bind(2) frame_gets(2) settles_cases send that | (simp; fail))+
  show "replies_or_starts h \<Longrightarrow> replies_or_starts (REQUIRE_AUTH_AND_ARG P cmd h)"
    unfolding REQUIRE_AUTH_AND_ARG_def by (rule auth settles_cases send | assumption | (simp; fail))+
  show "replies_or_starts h \<Longrightarrow> replies_or_starts (with_data_mode P h)"
    unfolding with_data_mode_def by (rule settles_bind(2) frame_gets(2) settles_cases send | assumption | (simp; fail))+
  show "(\<And>q. replies_or_starts (k q)) \<Longrightarrow> replies_or_starts (with_path P p perm k)"
    unfolding with_path_def
    by (rule settles_bind(2) [where F = any] answered.frame_session settles_cases send starts_option | assumption | (simp; fail))+
qed

lemma start_thread: "leads (answered tr0 n) (session_start_transfer_thread P params)
    (\<lambda>r s. answered tr0 n s \<and> (r = 0 \<longrightarrow> starting s))"
proof -
  let ?J = "\<lambda>s :: 'a sys. answered tr0 n s \<and> starting s"
  have mark: "leads (answered tr0 n)
      (smod (\<lambda>s. s\<lparr>s_transfer_params := Some params, s_transfer_thread_state := TRANSFER_THREAD_STARTING\<rparr>)) (\<lambda>_. ?J)"
    by (simp add: leads_def smod_def answered_def)
  have keep: "keeps ?J (os m :: ('a, bool) sys_m) any" "keeps ?J (smod (\<lambda>s. s\<lparr>s_transfer_thread := b\<rparr>)) any" for m b
    by (simp_all add: keeps_def run_os smod_def answered_def)
  have undo: "leads ?J (do {
      smod (\<lambda>s. s\<lparr>s_transfer_params := None, s_transfer_thread_state := TRANSFER_THREAD_IDLE\<rparr>); ret (-1 :: int) })
      (\<lambda>r s. answered tr0 n s \<and> (r = 0 \<longrightarrow> starting s))"
    by (simp add: leads_def smod_def answered_def)
  show ?thesis unfolding session_start_transfer_thread_def
    by (rule leads_seq [OF mark] leads_bind [OF keep(1)] undo leads_bind [OF keep(2)] leads_bind framing leads_if leads_ret |
        (simp; fail))+
qed

lemma settles_start [settling]:
  assumes W: "whole_lines P"
  shows "settles (open_and_start P operation p off lock clear)"
proof -
  have stop: "settles (do { response \<leftarrow> session_send_response P PROTO_RESP_LOCAL_ERROR ''Failed to start transfer'';
      ret (response, True, False) })"
    by (rule settles_reply replies_send [OF W] | (simp; fail))+
  have start: "settles (do {
       r \<leftarrow> session_start_transfer_thread P params;
       if r \<noteq> 0 then do {
         response \<leftarrow> session_send_response P PROTO_RESP_LOCAL_ERROR ''Failed to start transfer'';
         ret (response, True, False) }
       else ret (0, False, True) })" for params
    unfolding settles_def
  proof (intro allI leads_seq [OF start_thread])
    fix tr0 n and r :: int
    show "leads (\<lambda>s. answered tr0 n s \<and> (r = 0 \<longrightarrow> starting s)) (if r \<noteq> 0 then do {
         response \<leftarrow> session_send_response P PROTO_RESP_LOCAL_ERROR ''Failed to start transfer'';
         ret (response, True, False) } else ret (0, False, True))
        (\<lambda>(response, opened, started) s. if started then \<not> opened \<and> answered tr0 n s \<and> starting s else answered tr0 (Suc n) s)"
      using stop unfolding settles_def by (cases "r = 0") (auto simp: leads_ret intro: leads_pre)
  qed
  show ?thesis unfolding open_and_start_def
    by (rule start settles_bind(1) [where F = any] settles_cases settles_reply replies_send [OF W] framing | (simp; fail))+
qed

lemma settles_end [settling]:
  assumes "settles m" "\<And>tr0 n. keeps (answered tr0 n) x any"
  shows "replies_or_starts (do { (response, opened, started) \<leftarrow> m;
      (if opened then session_close_data_connection P else ret ()); (if \<not> started then x else ret ()); ret response })"
  unfolding replies_or_starts_def
proof (intro allI leads_seq)
  fix tr0 n
  show "leads (answered tr0 n) m (\<lambda>(response, opened, started) s.
      if started then \<not> opened \<and> answered tr0 n s \<and> starting s else answered tr0 (Suc n) s)"
    using assms(1) unfolding settles_def by blast
  fix r :: "int \<times> bool \<times> bool"
  obtain response opened started where r: "r = (response, opened, started)" by (cases r) auto
  have "leads (answered tr0 (Suc n)) (do { (if opened then session_close_data_connection P else ret ()); x; ret response })
      (\<lambda>_. answered tr0 (Suc n))"
    by (rule leads_bind assms(2) leads_ret framing | assumption)+
  then show "leads (case r of (response, opened, started) \<Rightarrow> \<lambda>s.
      if started then \<not> opened \<and> answered tr0 n s \<and> starting s else answered tr0 (Suc n) s)
      (case r of (response, opened, started) \<Rightarrow> do {
        (if opened then session_close_data_connection P else ret ()); (if \<not> started then x else ret ()); ret response })
      (\<lambda>_ s. answered tr0 (Suc n) s \<or> answered tr0 n s \<and> starting s)"
    by (cases started; cases opened) (auto simp: r leads_def)
qed

lemma settles_close [settling]:
  "settles m \<Longrightarrow> replies_or_starts (do { (response, opened, started) \<leftarrow> m;
      (if opened then session_close_data_connection P else ret ()); ret response })"
  using settles_end [of m "ret ()" P] by (simp add: keeps_ret)

lemma starts_preliminary:
  assumes "whole_lines P" "length msg < 1018" "replies_or_starts (f 0)"
  shows "replies_or_starts (do { r \<leftarrow> session_send_response P PROTO_RESP_FILE_STATUS_OK msg; f r })"
  using assms(3) unfolding replies_or_starts_def by (intro allI replies_preliminary [OF assms(1,2)]) blast

lemma settles_refusal:
  assumes "whole_lines P" "short x" "settles m"
  shows "settles (case x of Some message \<Rightarrow> do {
      response \<leftarrow> session_send_response P PROTO_RESP_FILE_UNAVAILABLE message; ret (response, False, False) } | None \<Rightarrow> m)"
  using assms by (cases x) (simp_all add: short_def settles_reply [OF replies_send])

lemma starts_lists:
  assumes W: "whole_lines P"
  shows "replies_or_starts (cmd_handle_list P cmd)" "replies_or_starts (cmd_handle_nlst P cmd)"
  unfolding cmd_handle_list_def cmd_handle_nlst_def
  by (rule settles_guards [OF W] starts_preliminary [OF W] settles_close settles_start [OF W] settles_bind(2) [where F = any]
      settles_cases starts_reply [OF replies_send [OF W]] framing | (simp; fail))+

lemma opening_fits:
  assumes "length (argument cmd) < 512"
  shows "length (snprintf_buf k (''Opening '' @ mode_name type @ '' mode data connection for '' @ argument cmd)) < 1018"
    "length t \<le> 40 \<Longrightarrow>
     length (snprintf_buf k (''Opening '' @ mode_name type @ '' mode data connection for '' @ argument cmd @ t)) < 1018"
  using assms by (intro le_less_trans [OF length_snprintf_buf]; simp add: mode_name_def)+

lemma starts_appe:
  assumes W: "whole_lines P" and arg: "length (argument cmd) < 512"
  shows "replies_or_starts (cmd_handle_appe P cmd)"
  unfolding cmd_handle_appe_def
  by (rule settles_guards [OF W] settles_end settles_reply [OF replies_send [OF W]] settles_preliminary [OF W] settles_start [OF W]
      settles_bind [where F = any] settles_cases starts_reply [OF replies_send [OF W]] framing opening_fits(1) [OF arg] | (simp; fail))+

lemma short_stor_refusal:
  "keeps (answered tr0 n) ((if offset > 0 then do {
       exists \<leftarrow> fs_path_exists P abs_path;
       if \<not> exists then ret (Some ''File does not exist for resume'')
       else do {
         file_size \<leftarrow> fs_get_file_size P abs_path;
         if file_size < 0 then ret (Some ''Cannot read file'')
         else if offset > file_size then ret (Some ''Invalid restart offset'')
         else ret None } }
     else do {
       exists \<leftarrow> fs_path_exists P abs_path;
       if exists then do {
         r \<leftarrow> fs_delete_file P abs_path;
         if r \<noteq> 0 then ret (Some ''Cannot overwrite existing file'') else ret None }
       else ret None }) :: ('w, string option) sys_m) short"
  by (rule keeps_ret keeps_if keeps_bind [OF answered.frame_fs(1)] keeps_bind [OF answered.frame_fs(3)] keeps_bind [OF silent_changes(1)] |
      (simp add: short_def; fail))+

lemma starts_stor:
  assumes W: "whole_lines P" and arg: "length (argument cmd) < 512"
  shows "replies_or_starts (cmd_handle_stor P cmd)"
  unfolding cmd_handle_stor_def
  by (rule settles_guards [OF W] settles_end settles_bind(1) [OF short_stor_refusal] settles_refusal [OF W] settles_preliminary [OF W]
      settles_start [OF W] settles_bind [where F = any] settles_cases starts_reply [OF replies_send [OF W]] framing
      opening_fits(1) [OF arg] | assumption | (simp; fail))+

text \<open>\<open>RETR\<close> names the number of bytes to come, which takes a restart offset that is not negative.\<close>

definition awake :: "os_event list \<Rightarrow> nat \<Rightarrow> 'w sys \<Rightarrow> bool" where
  "awake tr0 n s \<longleftrightarrow> answered tr0 n s \<and> 0 \<le> s_restart_offset (sess s)"

interpretation awake: call_frame "awake tr0 n :: 'w sys \<Rightarrow> bool" "{e. \<not> final_reply e}" for tr0 n
proof
  fix s s' :: "'w sys" and tr
  assume r: "awake tr0 n s" and t: "trace s' = trace s @ tr" "set tr \<subseteq> {e. \<not> final_reply e}" and m: "os.more s' = os.more s"
  have "sess s' = sess s" by (rule more_sys(3) [OF m])
  then show "awake tr0 n s'" using r answered_more [of tr0 n s s' tr 0] t not_final [OF t(2)] by (simp add: awake_def)
qed (auto dest: quiet_not_final)

lemma awake_send:
  assumes "whole_lines P" "200 \<le> code" "code \<le> 599" "length msg < 1018"
  shows "leads (awake tr0 n) (session_send_response P code msg) (\<lambda>_. answered tr0 (Suc n))"
  using replies_send [OF assms] unfolding replies_def leads_def awake_def by blast

lemma retr_block:
  assumes W: "whole_lines P" and S: "sizes_fit P" and arg: "length (argument cmd) < 512" and off: "0 \<le> offset"
  shows "settles (do {
     exists \<leftarrow> fs_path_exists P abs_path;
     if \<not> exists then do {
       response \<leftarrow> session_send_response P PROTO_RESP_FILE_UNAVAILABLE ''File not found'';
       ret (response, False, False) }
     else do {
       isdir \<leftarrow> fs_is_directory P abs_path;
       if isdir then do {
         response \<leftarrow> session_send_response P PROTO_RESP_FILE_UNAVAILABLE ''Cannot download a directory'';
         ret (response, False, False) }
       else do {
         file_size \<leftarrow> fs_get_file_size P abs_path;
         if file_size < 0 then do {
           response \<leftarrow> session_send_response P PROTO_RESP_FILE_UNAVAILABLE ''Cannot read file'';
           ret (response, False, False) }
         else if offset > file_size then do {
           response \<leftarrow> session_send_response P PROTO_RESP_FILE_UNAVAILABLE ''Invalid restart offset'';
           ret (response, False, False) }
         else do {
           type \<leftarrow> sget s_transfer_type;
           r \<leftarrow> session_send_response P PROTO_RESP_FILE_STATUS_OK
                  (snprintf_buf PROTO_MAX_RESPONSE_LINE (''Opening '' @ mode_name type @
                     '' mode data connection for '' @ argument cmd @ '' ('' @ dec_int (file_size - offset) @ '' bytes)''));
           if r \<noteq> 0 then ret (-1, False, False)
           else open_and_start P TRANSFER_OP_SEND_FILE abs_path offset True True } } } })"
proof -
  have fits: "length (snprintf_buf PROTO_MAX_RESPONSE_LINE (''Opening '' @ mode_name type @
      '' mode data connection for '' @ argument cmd @ '' ('' @ dec_int (k - offset) @ '' bytes)'')) < 1018"
    if "\<bar>k\<bar> < 2 ^ 63" "\<not> k < 0" "\<not> offset > k" for k type
    using length_dec_int [of "k - offset"] that off by (intro opening_fits(2) [OF arg]) simp
  show ?thesis
    by (rule settles_reply [OF replies_send [OF W]] settles_preliminary [OF W fits] settles_start [OF W]
        settles_bind(1) [OF file_size_fits [OF S]] settles_bind(1) [where F = any] settles_cases framing | assumption | (simp; fail))+
qed

lemma starts_retr:
  assumes W: "whole_lines P" and S: "sizes_fit P" and arg: "length (argument cmd) < 512"
  shows "leads (awake tr0 n) (cmd_handle_retr P cmd) (\<lambda>_ s. answered tr0 (Suc n) s \<or> answered tr0 n s \<and> starting s)"
    (is "leads _ _ ?J")
proof -
  have send: "leads (awake tr0 n) (session_send_response P code msg) ?J"
    if "200 \<le> code" "code \<le> 599" "length msg < 1018" for code msg
    using awake_send [OF W that] unfolding leads_def by blast
  have offset: "leads (awake tr0 n) session_get_restart_offset (\<lambda>offset s. answered tr0 n s \<and> 0 \<le> offset)"
    by (simp add: leads_def session_get_restart_offset_def run_abort awake_def)
  have rest: "leads (answered tr0 n) (do {
      lock \<leftarrow> try_shared P abs_path;
      if lock \<noteq> 0 then session_send_response P PROTO_RESP_FILE_ACTION_ABORTED ''File is busy, try again later''
      else do {
        (response, opened, started) \<leftarrow> m;
        (if opened then session_close_data_connection P else ret ());
        (if \<not> started then unlock_shared abs_path else ret ());
        ret response } }) ?J" if m: "settles m" for m abs_path
  proof -
    have "replies_or_starts (do {
      lock \<leftarrow> try_shared P abs_path;
      if lock \<noteq> 0 then session_send_response P PROTO_RESP_FILE_ACTION_ABORTED ''File is busy, try again later''
      else do {
        (response, opened, started) \<leftarrow> m;
        (if opened then session_close_data_connection P else ret ());
        (if \<not> started then unlock_shared abs_path else ret ());
        ret response } })"
      by (rule settles_end [OF m] settles_bind(2) [where F = any] settles_cases starts_reply [OF replies_send [OF W]] framing | (simp; fail))+
    then show ?thesis unfolding replies_or_starts_def by blast
  qed
  show ?thesis unfolding cmd_handle_retr_def REQUIRE_AUTH_AND_ARG_def REQUIRE_AUTH_def with_data_mode_def with_path_def
      session_check_path_access_def session_resolve_path_def
    by (rule leads_const [OF offset] leads_bind awake.frame_fs frame_gets leads_if leads_option rest retr_block [OF W S arg] send | assumption | (simp; fail))+
qed

section \<open>Every command\<close>

definition transfer_commands :: "string list" where
  "transfer_commands = [''STOR'', ''RETR'', ''APPE'', ''LIST'', ''NLST'']"

text \<open>What answering the command \<open>name\<close> means.\<close>

definition answers :: "os_event list \<Rightarrow> nat \<Rightarrow> string \<Rightarrow> 'w sys \<Rightarrow> bool" where
  "answers tr0 n name s \<longleftrightarrow> answered tr0 (Suc n) s \<or> name \<in> set transfer_commands \<and> answered tr0 n s \<and> starting s"

lemma handlers_reply:
  assumes W: "whole_lines P" and S: "sizes_fit P" and arg: "length (argument cmd) < 512"
  shows "\<forall>(name, h, p) \<in> set (standard_handlers P). leads (awake tr0 n) (h cmd) (\<lambda>_. answers tr0 n name)"
proof -
  have r: "leads (awake tr0 n) m (\<lambda>_. answers tr0 n name)" if "replies m" for m :: "('a, int) sys_m" and name
    using that unfolding replies_def leads_def answers_def awake_def by blast
  have t: "leads (awake tr0 n) m (\<lambda>_. answers tr0 n name)" if "replies_or_starts m" "name \<in> set transfer_commands"
    for m :: "('a, int) sys_m" and name
    using that unfolding replies_or_starts_def leads_def answers_def awake_def by blast
  have retr: "leads (awake tr0 n) (cmd_handle_retr P cmd) (\<lambda>_. answers tr0 n ''RETR'')"
    using starts_retr [OF W S arg] unfolding answers_def transfer_commands_def leads_def by auto
  show ?thesis unfolding standard_handlers_def list.set ball_simps prod.case
    by (intro conjI TrueI; (rule retr replies_pwd [OF W, THEN r] replies_simple [OF W, THEN r] replies_valued [OF W arg, THEN r] replies_size [OF W S, THEN r]
        replies_multiline [OF W, THEN r] replies_pasv [OF W, THEN r] replies_changes [OF W, THEN r])?;
      (rule starts_lists [OF W, THEN t] starts_appe [OF W arg, THEN t] starts_stor [OF W arg, THEN t])?; simp add: transfer_commands_def)
qed

lemma silent_prev:
  assumes "p \<in> {None, Some cmd_prev_handle_clear_all, Some cmd_prev_handle_clear_rename, Some cmd_prev_handle_clear_restart}"
    and "leads (awake tr0 n) (h cmd) J"
  shows "leads (awake tr0 n) (run_entry (h, p) cmd) J"
proof -
  have zero: "keeps (awake tr0 n) (prev cmd) (\<lambda>r. r = 0)"
    if "prev \<in> {cmd_prev_handle_clear_all, cmd_prev_handle_clear_rename, cmd_prev_handle_clear_restart}"
    for prev :: "proto_command_t \<Rightarrow> ('a, int) sys_m"
    using that by (auto simp: keeps_def awake_def answered_def cmd_prev_handle_clear_all_def cmd_prev_handle_clear_rename_def
        cmd_prev_handle_clear_restart_def session_clear_restart_offset_def session_clear_rename_state_def smod_def)
  have step: "leads (awake tr0 n) (do { res \<leftarrow> prev cmd; if res \<noteq> 0 then ret res else h cmd }) J"
    if "prev \<in> {cmd_prev_handle_clear_all, cmd_prev_handle_clear_rename, cmd_prev_handle_clear_restart}" for prev
    by (rule leads_bind_fact [OF zero [OF that]]) (simp add: assms(2))
  show ?thesis
  proof (cases p)
    case (Some prev)
    then have "prev \<in> {cmd_prev_handle_clear_all, cmd_prev_handle_clear_rename, cmd_prev_handle_clear_restart}"
      using assms(1) by simp
    from step [OF this] show ?thesis by (simp only: Some run_entry_def prod.case option.case)
  qed (simp add: run_entry_def assms(2))
qed

lemma standard_prev: "\<forall>e \<in> set (standard_handlers P). snd (snd e) \<in>
    {None, Some cmd_prev_handle_clear_all, Some cmd_prev_handle_clear_rename, Some cmd_prev_handle_clear_restart}"
  by (simp add: standard_handlers_def)

lemma dispatch_replies:
  assumes W: "whole_lines P" and S: "sizes_fit P" and arg: "length (argument cmd) < 512"
    and e: "map_of (standard_handlers P) (command cmd) = Some e"
  shows "leads (awake tr0 n) (cmd_dispatch (ftp_table P) cmd) (\<lambda>_. answers tr0 n (command cmd))"
proof -
  obtain h p where hp: "e = (h, p)" by (cases e)
  then have mem: "(command cmd, h, p) \<in> set (standard_handlers P)" using e by (simp add: map_of_SomeD)
  with standard_prev have "p \<in> {None, Some cmd_prev_handle_clear_all, Some cmd_prev_handle_clear_rename, Some cmd_prev_handle_clear_restart}"
    by fastforce
  moreover have "leads (awake tr0 n) (h cmd) (\<lambda>_. answers tr0 n (command cmd))"
    using handlers_reply [OF W S arg, of tr0 n] mem by fastforce
  ultimately show ?thesis unfolding dispatch_standard e option.case hp by (rule silent_prev)
qed

section \<open>A turn of the command loop\<close>

lemma registered_standard:
  assumes "wf_command cmd"
  shows "cmd_is_registered (ftp_table P) (command cmd) \<longleftrightarrow> map_of (standard_handlers P) (command cmd) \<noteq> None"
proof -
  have "cmd_key (command cmd) = command cmd"
    using assms by (simp add: wf_command_def cmd_key_def strncpy_buf_def proto_sizes)
  moreover have "g_initialized (ftp_table P)" using standard_registered(2) [of P] by (simp add: wf_table_def)
  ultimately show ?thesis using find_index_lookup [of "ftp_table P" "command cmd"]
    by (simp add: cmd_is_registered_def standard_registered(3))
qed

lemma unknown_answered:
  assumes W: "whole_lines P"
  shows "leads (awake tr0 n) (session_send_response P PROTO_RESP_COMMAND_NOT_IMPL ''Command not implemented'') (\<lambda>_. answered tr0 (Suc n))"
    "leads (awake tr0 n) (session_send_response P PROTO_RESP_SYNTAX_ERROR ''Syntax error, command unrecognized'') (\<lambda>_. answered tr0 (Suc n))"
  by (rule awake_send [OF W]; simp)+

lemma awake_smod:
  "(\<And>s. s_restart_offset (g s) = s_restart_offset s) \<Longrightarrow> keeps (awake tr0 n) (smod g) any"
  by (simp add: keeps_def awake_def answered_def smod_def)

lemma turn_command:
  assumes W: "whole_lines P" and S: "sizes_fit P" and cmd: "wf_command cmd"
  shows "leads (awake tr0 n) (do {
      smod (\<lambda>s. s\<lparr>s_commands_received := s_commands_received s + 1\<rparr>);
      r \<leftarrow> cmd_dispatch (ftp_table P) cmd;
      (if r \<noteq> 0 \<and> \<not> cmd_is_registered (ftp_table P) (command cmd) then do {
         session_send_response P PROTO_RESP_COMMAND_NOT_IMPL ''Command not implemented''; ret () }
       else ret ());
      ret (Did cmd) }) (\<lambda>r s. r = Did cmd \<and> answers tr0 n (command cmd) s)"
proof (rule leads_bind [OF awake_smod], simp, cases "map_of (standard_handlers P) (command cmd)")
  case None
  have "leads (awake tr0 n) (do {
      session_send_response P PROTO_RESP_COMMAND_NOT_IMPL ''Command not implemented''; ret (); ret (Did cmd) })
      (\<lambda>r s. r = Did cmd \<and> answers tr0 n (command cmd) s)"
    by (rule leads_seq [OF unknown_answered(1) [OF W]]) (simp add: leads_def answers_def)
  then show "leads (awake tr0 n) (do {
      r \<leftarrow> cmd_dispatch (ftp_table P) cmd;
      (if r \<noteq> 0 \<and> \<not> cmd_is_registered (ftp_table P) (command cmd) then do {
         session_send_response P PROTO_RESP_COMMAND_NOT_IMPL ''Command not implemented''; ret () }
       else ret ());
      ret (Did cmd) }) (\<lambda>r s. r = Did cmd \<and> answers tr0 n (command cmd) s)"
    using None by (simp add: dispatch_standard registered_standard [OF cmd] bind_assoc)
next
  case (Some e)
  have "length (argument cmd) < 512" using cmd by (simp add: wf_command_def proto_sizes)
  from dispatch_replies [OF W S this Some] show "leads (awake tr0 n) (do {
      r \<leftarrow> cmd_dispatch (ftp_table P) cmd;
      (if r \<noteq> 0 \<and> \<not> cmd_is_registered (ftp_table P) (command cmd) then do {
         session_send_response P PROTO_RESP_COMMAND_NOT_IMPL ''Command not implemented''; ret () }
       else ret ());
      ret (Did cmd) }) (\<lambda>r s. r = Did cmd \<and> answers tr0 n (command cmd) s)"
    by (rule leads_seq) (simp add: registered_standard [OF cmd] Some leads_def)
qed

lemma turn_answers:
  assumes W: "whole_lines P" and S: "sizes_fit P"
  shows "leads (awake tr0 n) (client_turn P (ftp_table P) tmo) (\<lambda>r s. case r of
     Hung_up \<Rightarrow> answered tr0 n s | Bad_line \<Rightarrow> answered tr0 (Suc n) s | Did cmd \<Rightarrow> answers tr0 n (command cmd) s)"
    (is "leads _ _ ?J")
proof -
  have hung: "leads (awake tr0 n) (ret Hung_up) ?J" by (rule leads_ret) (simp add: awake_def)
  have active: "keeps (awake tr0 n) (session_update_activity P) any"
    unfolding session_update_activity_def by (rule keeps_bind [OF awake.frame_os(1)], rule awake_smod) simp
  have bad: "leads (awake tr0 n) (do { session_send_response P PROTO_RESP_SYNTAX_ERROR ''Syntax error, command unrecognized''; ret Bad_line }) ?J"
    by (rule leads_seq [OF unknown_answered(2) [OF W]]) (simp add: leads_def)
  have "leads (awake tr0 n) (case proto_parse_command (cstr line) of
          None \<Rightarrow> do { session_send_response P PROTO_RESP_SYNTAX_ERROR ''Syntax error, command unrecognized''; ret Bad_line }
        | Some cmd \<Rightarrow> do {
            smod (\<lambda>s. s\<lparr>s_commands_received := s_commands_received s + 1\<rparr>);
            r \<leftarrow> cmd_dispatch (ftp_table P) cmd;
            (if r \<noteq> 0 \<and> \<not> cmd_is_registered (ftp_table P) (command cmd) then do {
               session_send_response P PROTO_RESP_COMMAND_NOT_IMPL ''Command not implemented''; ret () }
             else ret ());
            ret (Did cmd) }) ?J" for line
    by (rule leads_option, rule bad, rule leads_weaken [OF turn_command [OF W S parse_command_wf]]) auto
  then show ?thesis unfolding client_turn_def
    by (intro leads_bind [OF frame_gets(2)] leads_bind [OF awake.frame_net(10)] leads_bind [OF awake.frame_receive_line])
      (auto intro!: hung leads_bind [OF active] leads_bind [OF awake.frame_net(10)] leads_bind [OF awake.frame_receive_line] split: prod.split)
qed

section \<open>The thread of a transfer\<close>

lemma completion_replies: "whole_lines P \<Longrightarrow> result \<noteq> TRANSFER_STATUS_CONN_ERROR \<Longrightarrow> replies (send_completion P result)"
  unfolding send_completion_def
  by (cases result) (auto intro!: replies_then replies_send simp: framing session_clear_transfer_should_abort_def)

definition quitting :: "bool \<Rightarrow> os_event list \<Rightarrow> nat \<Rightarrow> 'w sys \<Rightarrow> bool" where
  "quitting q tr0 n s \<longleftrightarrow> answered tr0 n s \<and> s_should_quit (sess s) = q"

interpretation quitting: call_frame "quitting q tr0 n :: 'w sys \<Rightarrow> bool" "{e. \<not> final_reply e}" for q tr0 n
proof
  fix s s' :: "'w sys" and tr
  assume r: "quitting q tr0 n s" and t: "trace s' = trace s @ tr" "set tr \<subseteq> {e. \<not> final_reply e}" and m: "os.more s' = os.more s"
  have "sess s' = sess s" by (rule more_sys(3) [OF m])
  then show "quitting q tr0 n s'" using r answered_more [of tr0 n s s' tr 0] t not_final [OF t(2)] by (simp add: quitting_def)
qed (auto dest: quiet_not_final)

lemma quitting_close: "keeps (quitting q tr0 n) (session_close_data_connection P) any"
proof -
  have s: "keeps (quitting q tr0 n) (smod (\<lambda>s. s\<lparr>s_data_socket := d\<rparr>)) any" "keeps (quitting q tr0 n) (smod (\<lambda>s. s\<lparr>s_data_listen_socket := d\<rparr>)) any"
    "keeps (quitting q tr0 n) (smod (\<lambda>s. s\<lparr>s_data_mode := m\<rparr>)) any" for d m
    by (simp_all add: keeps_def quitting_def answered_def smod_def)
  show ?thesis unfolding session_close_data_connection_def by (intro framing s)
qed

lemma completion_counts:
  assumes W: "whole_lines P"
  shows "leads (quitting q tr0 n) (send_completion P result)
    (\<lambda>_. answered tr0 (n + (if result = TRANSFER_STATUS_CONN_ERROR \<and> q then 0 else 1)))"
proof (cases "result = TRANSFER_STATUS_CONN_ERROR")
  case False
  then show ?thesis using completion_replies [OF W False] unfolding replies_def leads_def quitting_def by simp
next
  case True
  have "replies (do { session_send_response P PROTO_RESP_CONN_CLOSED ''Data connection closed; transfer aborted''; ret () } :: ('a, unit) sys_m)"
    by (rule replies_then [OF replies_send [OF W]]) (simp_all add: framing)
  then have "leads (quitting q tr0 n) (if \<not> q then do {
      session_send_response P PROTO_RESP_CONN_CLOSED ''Data connection closed; transfer aborted''; ret () } else ret ())
      (\<lambda>_. answered tr0 (n + (if q then 0 else 1)))"
    unfolding replies_def leads_def quitting_def by simp
  then show ?thesis unfolding True send_completion_def transfer_status_t.case
    by (auto simp: leads_def quitting_def run_abort case_prod_beta)
qed

lemma finish_counts:
  assumes W: "whole_lines P"
  shows "leads (quitting q tr0 n) (finish_transfer P params result)
    (\<lambda>_. answered tr0 (n + (if result = TRANSFER_STATUS_CONN_ERROR \<and> q then 0 else 1)))"
  unfolding finish_transfer_def release_transfer_lock_def
  by (rule leads_bind [OF quitting_close] leads_seq [OF completion_counts [OF W]] leads_bind framing leads_ret | assumption)+

section \<open>Properties\<close>

text \<open>
  C6: every command line is answered exactly once. Let the system take whole lines and let file sizes
  fit \<open>off_t\<close>. A turn of the command loop that
  reads a line, be it a command, an unknown command or no command at all, sends exactly one final
  reply; only \<open>STOR\<close>, \<open>RETR\<close>, \<open>APPE\<close>, \<open>LIST\<close> and \<open>NLST\<close> may send none, and then they have started a
  thread. A turn that finds the connection closed sends none.
\<close>

theorem commands_answered_once:
  assumes "whole_lines P" "sizes_fit P" "0 \<le> s_restart_offset (sess s)"
  shows "case run_state (client_turn P (ftp_table P) tmo) s of (r, s') \<Rightarrow> \<exists>tr. trace s' = trace s @ tr \<and>
     (case r of
        Hung_up \<Rightarrow> finals tr = 0
      | Bad_line \<Rightarrow> finals tr = 1
      | Did cmd \<Rightarrow> finals tr = 1 \<or>
          finals tr = 0 \<and> command cmd \<in> set transfer_commands \<and>
          s_transfer_thread_state (sess s') = TRANSFER_THREAD_STARTING)"
proof -
  have "awake (trace s) 0 s" using assms(3) by (simp add: awake_def answered_def)
  from leadsD [OF turn_answers [OF assms(1,2)] this, of tmo] show ?thesis
    by (auto simp: answers_def answered_def case_prod_beta split: turn_result.splits)
qed

text \<open>
  C7: a transfer is answered exactly once. What the thread of a transfer does after it, with the
  status \<open>result\<close>, sends exactly one final reply; when the connection failed because the client has
  said \<open>QUIT\<close>, it sends none.
\<close>

theorem transfers_answered_once:
  assumes "whole_lines P"
  shows "\<exists>tr. trace (snd (run_state (finish_transfer P params result) s)) = trace s @ tr \<and>
     finals tr = (if result = TRANSFER_STATUS_CONN_ERROR \<and> s_should_quit (sess s) then 0 else 1)"
proof -
  have "quitting (s_should_quit (sess s)) (trace s) 0 s" by (simp add: quitting_def answered_def)
  from leadsD [OF finish_counts [OF assms] this, of result params] show ?thesis by (auto simp: answered_def)
qed

text \<open>A client that sends its text one piece after the other.\<close>

definition typing_posix :: "string posix" where
  "typing_posix = plain_posix\<lparr>px_recv := \<lambda>fd n. State (\<lambda>w. (Inr (take n w), drop n w))\<rparr>"

lemma typing_posix_calls: "whole_lines typing_posix" "sizes_fit typing_posix"
  by (auto simp: whole_lines_def sizes_fit_def typing_posix_def plain_posix_def plain_stat_def)

definition typing_sys :: "string \<Rightarrow> string sys" where
  "typing_sys input = \<lparr>world = input, trace = [], stuck = False, locks = [], auth = auth_state0, sess = plain_session\<rparr>"

lemma commands_answered_once_witness:
  "case run_state (client_turn typing_posix (ftp_table typing_posix) (-1)) (typing_sys (''NOOP'' @ [CR, LF])) of
     (r, s') \<Rightarrow> case r of Hung_up \<Rightarrow> finals (trace s') = 0 | Bad_line \<Rightarrow> finals (trace s') = 1 | Did cmd \<Rightarrow> finals (trace s') \<le> 1"
  using commands_answered_once [OF typing_posix_calls, of "typing_sys (''NOOP'' @ [CR, LF])" "-1"]
  by (auto simp: typing_sys_def plain_session_def session_reset_state_def split: prod.splits turn_result.splits)

lemma transfers_answered_once_witness:
  "finals (trace (snd (run_state (finish_transfer typing_posix
     \<lparr>tp_operation = TRANSFER_OP_RECV_FILE, tp_filepath = ''/srv/ftp/f'', tp_offset = 0, tp_type = PROTO_TYPE_BINARY,
      tp_lock_acquired = True\<rparr> TRANSFER_STATUS_OK) (typing_sys [])))) = 1"
  using transfers_answered_once [OF typing_posix_calls(1), where s = "typing_sys []" and result = TRANSFER_STATUS_OK]
  by (fastforce simp: typing_sys_def)

end
