(* ===== verification/Server_Safety.thy ===== *)
theory Server_Safety
  imports Server_Frames
begin

text \<open>
  Invariants of the whole process, for any number of clients: well-formed sessions, the connection
  count, and the table of file locks, which holds exactly the locks of the transfers in progress.
\<close>

section \<open>The invariant\<close>

text \<open>The locks that a client's transfer holds.\<close>

definition transfer_on :: "transfer_operation_t \<Rightarrow> string \<Rightarrow> client option \<Rightarrow> nat" where
  "transfer_on k p c =
     (case c of None \<Rightarrow> 0
      | Some c \<Rightarrow>
          (case s_transfer_params (cl_session c) of None \<Rightarrow> 0
           | Some tp \<Rightarrow> if tp_operation tp = k \<and> tp_filepath tp = p then 1 else 0))"

definition transfers_on :: "transfer_operation_t \<Rightarrow> string \<Rightarrow> client option list \<Rightarrow> nat" where
  "transfers_on k p cs = sum_list (map (transfer_on k p) cs)"

definition client_ok :: "client \<Rightarrow> bool" where
  "client_ok c \<longleftrightarrow> sess_inv (cl_session c) \<and> consistent (transfer_of (cl_session c)) \<and>
     (\<forall>tp. s_transfer_params (cl_session c) = Some tp \<longrightarrow>
        tp_lock_acquired tp = (tp_operation tp = TRANSFER_OP_SEND_FILE \<or> tp_operation tp = TRANSFER_OP_RECV_FILE))"

definition locks_ok :: "lock_entries \<Rightarrow> client option list \<Rightarrow> bool" where
  "locks_ok l cs \<longleftrightarrow> wf_locks l \<and>
     (\<forall>p. lock_view l p = (transfers_on TRANSFER_OP_SEND_FILE p cs, transfers_on TRANSFER_OP_RECV_FILE p cs, 0))"

definition live :: "client option list \<Rightarrow> nat" where
  "live cs = length (filter (\<lambda>c. c \<noteq> None) cs)"

definition server_inv :: "'w posix \<Rightarrow> 'w server \<Rightarrow> bool" where
  "server_inv P v \<longleftrightarrow>
     (\<forall>c. Some c \<in> set (sv_clients v) \<longrightarrow> client_ok c) \<and>
     locks_ok (sv_locks v) (sv_clients v) \<and>
     sv_connections v = int (live (sv_clients v)) \<and>
     (cfg_max_connections (sv_config v) > 0 \<longrightarrow> sv_connections v \<le> cfg_max_connections (sv_config v)) \<and>
     sv_handlers v = ftp_table P"

section \<open>Replacing one client\<close>

lemma transfers_update:
  "i < length cs \<Longrightarrow> transfers_on k p (cs[i := c]) = transfers_on k p cs + transfer_on k p c - transfer_on k p (cs ! i)"
  by (simp add: transfers_on_def map_update sum_list_update)

lemma transfers_member: "i < length cs \<Longrightarrow> transfer_on k p (cs ! i) \<le> transfers_on k p cs"
  unfolding transfers_on_def by (rule elem_le_sum_list [of i "map (transfer_on k p) cs", simplified])

lemma transfer_on_None [simp]:
  "transfer_on k p None = 0" "s_transfer_params (cl_session c) = None \<Longrightarrow> transfer_on k p (Some c) = 0"
  by (simp_all add: transfer_on_def)

lemma locks_ok_same:
  assumes "locks_ok l cs" "i < length cs" "wf_locks l'" "lock_view l' = lock_view l"
    and "\<And>k p. transfer_on k p c = transfer_on k p (cs ! i)"
  shows "locks_ok l' (cs[i := c])"
  using assms transfers_member [OF assms(2)] by (simp add: locks_ok_def transfers_update)

lemma transfer_on_Some:
  "s_transfer_params (cl_session c) = Some tp \<Longrightarrow>
   transfer_on k p (Some c) = (if tp_operation tp = k \<and> tp_filepath tp = p then 1 else 0)"
  by (simp add: transfer_on_def)

lemma locks_ok_acquired:
  assumes "locks_ok l cs" "i < length cs" "wf_locks l'" "acquired tp (lock_view l) (lock_view l')"
    and "\<And>k p. transfer_on k p (cs ! i) = 0" "s_transfer_params (cl_session c) = Some tp"
  shows "locks_ok l' (cs[i := Some c])"
  using assms(1-4)
  by (cases "tp_operation tp")
    (auto simp: locks_ok_def transfers_update assms(5) transfer_on_Some [OF assms(6)] acquired_def sharable_def lockable_def
      shared_view_def exclusive_view_def)

lemma locks_ok_owns:
  assumes "locks_ok l cs" "i < length cs" "cs ! i = Some c" "client_ok c" "s_transfer_params (cl_session c) = Some tp"
  shows "owns tp (lock_view l)"
  using assms transfers_member [OF assms(2), of "tp_operation tp" "tp_filepath tp"]
  by (cases "tp_operation tp") (auto simp: locks_ok_def owns_def client_ok_def transfer_on_def)

lemma locks_ok_released:
  assumes "locks_ok l cs" "i < length cs" "cs ! i = Some c" "client_ok c" "s_transfer_params (cl_session c) = Some tp"
    and "wf_locks l'" "lock_view l' = released tp (lock_view l)" "\<And>k p. transfer_on k p c' = 0"
  shows "locks_ok l' (cs[i := c'])"
proof -
  have "fst (snd (lock_view l (tp_filepath tp))) \<le> 1"
    using assms(1) lock_view_wf(1) [of l "tp_filepath tp"] by (cases "lock_view l (tp_filepath tp)") (auto simp: locks_ok_def)
  with assms(1-7) transfers_member [OF assms(2), of "tp_operation tp" "tp_filepath tp"] show ?thesis
    by (cases "tp_operation tp")
      (auto simp: locks_ok_def transfers_update assms(8) transfer_on_Some [OF assms(5)] released_def client_ok_def)
qed

lemma live_update:
  "i < length cs \<Longrightarrow> cs ! i \<noteq> None \<Longrightarrow> live (cs[i := c]) = (if c = None then live cs - 1 else live cs)"
  "i < length cs \<Longrightarrow> cs ! i \<noteq> None \<Longrightarrow> live cs > 0"
proof -
  have "live cs = sum_list (map (\<lambda>c. if c \<noteq> None then 1 else 0) cs)" for cs
    by (induction cs) (simp_all add: live_def)
  note l = this
  show "i < length cs \<Longrightarrow> cs ! i \<noteq> None \<Longrightarrow> live (cs[i := c]) = (if c = None then live cs - 1 else live cs)"
    by (simp add: l map_update sum_list_update)
  show "i < length cs \<Longrightarrow> cs ! i \<noteq> None \<Longrightarrow> live cs > 0"
    using nth_mem [of i cs] by (fastforce simp: live_def filter_empty_conv)
qed


section \<open>A step of one session\<close>

lemma run_in_session:
  "run_state (in_session s m) v =
     ((fst (run_state m (session_view s v)), sess (snd (run_state m (session_view s v)))),
      session_put (snd (run_state m (session_view s v))) v)"
  by (simp add: in_session_def case_prod_beta)

lemma in_sessionD:
  assumes "run_state (in_session s m) v = ((a, s'), v')"
  shows "a = fst (run_state m (session_view s v))" "s' = sess (snd (run_state m (session_view s v)))"
    "v' = session_put (snd (run_state m (session_view s v))) v"
  using assms by (auto simp: run_in_session)

lemma session_view_simps [simp]:
  "locks (session_view s v) = sv_locks v" "sess (session_view s v) = s" "auth (session_view s v) = sv_auth v"
  by (simp_all add: session_view_def)

lemma session_put_simps [simp]:
  "sv_locks (session_put t v) = locks t" "sv_clients (session_put t v) = sv_clients v"
  "sv_connections (session_put t v) = sv_connections v" "sv_config (session_put t v) = sv_config v"
  "sv_handlers (session_put t v) = sv_handlers v" "stuck (session_put t v) = stuck t"
  by (simp_all add: session_put_def)

text \<open>How a step may change the locks and the transfer: not at all, by starting a transfer, by ending one.\<close>

definition lock_effect :: "lock_entries \<Rightarrow> session_t \<Rightarrow> lock_entries \<Rightarrow> session_t \<Rightarrow> bool" where
  "lock_effect l s l' s' \<longleftrightarrow> wf_locks l' \<and>
     (lock_view l' = lock_view l \<and> s_transfer_params s' = s_transfer_params s \<or>
      s_transfer_params s = None \<and> (\<exists>tp. s_transfer_params s' = Some tp \<and> acquired tp (lock_view l) (lock_view l')) \<or>
      (\<exists>tp. s_transfer_params s = Some tp \<and> s_transfer_params s' = None \<and> lock_view l' = released tp (lock_view l)))"

lemma acquired_flag: "acquired tp v v' \<Longrightarrow>
    tp_lock_acquired tp = (tp_operation tp = TRANSFER_OP_SEND_FILE \<or> tp_operation tp = TRANSFER_OP_RECV_FILE)"
  by (cases "tp_operation tp") (auto simp: acquired_def)

lemma client_step:
  assumes "(\<forall>c. Some c \<in> set cs \<longrightarrow> client_ok c)" "locks_ok l cs" and i: "i < length cs" "cs ! i = Some c"
    and e: "lock_effect l (cl_session c) l' s'" and s': "sess_inv s'" "consistent (transfer_of s')"
  shows "client_ok \<lparr>cl_phase = ph, cl_session = s'\<rparr>" "locks_ok l' (cs[i := Some \<lparr>cl_phase = ph, cl_session = s'\<rparr>])"
proof -
  have c: "client_ok c" using assms(1) i nth_mem by metis
  let ?c = "\<lparr>cl_phase = ph, cl_session = s'\<rparr>"
  show "client_ok ?c" using e s' c by (auto simp: client_ok_def lock_effect_def acquired_flag)
  have wf: "wf_locks l'" using e by (simp add: lock_effect_def)
  from e consider (same) "lock_view l' = lock_view l" "s_transfer_params s' = s_transfer_params (cl_session c)"
    | (start) tp where "s_transfer_params (cl_session c) = None" "s_transfer_params s' = Some tp"
        "acquired tp (lock_view l) (lock_view l')"
    | (end_) tp where "s_transfer_params (cl_session c) = Some tp" "s_transfer_params s' = None"
        "lock_view l' = released tp (lock_view l)"
    by (auto simp: lock_effect_def)
  then show "locks_ok l' (cs[i := Some ?c])"
  proof cases
    case same
    then have "transfer_on k p (Some ?c) = transfer_on k p (cs ! i)" for k p by (simp add: transfer_on_def i(2))
    from locks_ok_same [OF assms(2) i(1) wf same(1) this] show ?thesis .
  next
    case start
    then have "transfer_on k p (cs ! i) = 0" for k p by (simp add: i(2))
    from locks_ok_acquired [OF assms(2) i(1) wf start(3) this, of ?c] start(2) show ?thesis by simp
  next
    case end_
    then have "transfer_on k p (Some ?c) = 0" for k p by simp
    from locks_ok_released [OF assms(2) i c end_(1) wf end_(3) this] show ?thesis .
  qed
qed

lemma session_step:
  assumes inv: "server_inv P v" and i: "i < length (sv_clients v)" "sv_clients v ! i = Some c"
    and e: "lock_effect (sv_locks v) (cl_session c) (locks t) (sess t)"
    and s': "sess_inv (sess t)" "consistent (transfer_of (sess t))"
  shows "server_inv P (set_client i (Some \<lparr>cl_phase = ph, cl_session = sess t\<rparr>) (session_put t v))"
proof -
  note st = client_step [OF _ _ i e s', where ph = ph]
  have "live ((sv_clients v)[i := Some \<lparr>cl_phase = ph, cl_session = sess t\<rparr>]) = live (sv_clients v)"
    using live_update(1) [OF i(1)] i(2) by simp
  with inv st show ?thesis
    by (auto simp: server_inv_def set_client_def dest!: set_update_subset_insert [THEN subsetD])
qed

lemma session_leaves:
  assumes inv: "server_inv P v" and i: "i < length (sv_clients v)" "sv_clients v ! i = Some c"
    and e: "lock_effect (sv_locks v) (cl_session c) (locks t) (sess t)"
    and n: "s_transfer_params (sess t) = None"
  shows "server_inv P (snd (run_state forget_connection (set_client i None (session_put t v))))"
proof -
  have c: "client_ok c" using inv i nth_mem by (metis server_inv_def)
  have wf: "wf_locks (locks t)" and "lock_view (locks t) = lock_view (sv_locks v) \<and> s_transfer_params (cl_session c) = None \<or>
      (\<exists>tp. s_transfer_params (cl_session c) = Some tp \<and> lock_view (locks t) = released tp (lock_view (sv_locks v)))"
    using e n by (auto simp: lock_effect_def)
  then have "locks_ok (locks t) ((sv_clients v)[i := None])"
  proof (elim disjE conjE exE)
    assume s: "lock_view (locks t) = lock_view (sv_locks v)" "s_transfer_params (cl_session c) = None"
    then have t: "transfer_on k p None = transfer_on k p (sv_clients v ! i)" for k p by (simp add: i(2))
    from inv have "locks_ok (sv_locks v) (sv_clients v)" by (simp add: server_inv_def)
    from locks_ok_same [OF this i(1) wf s(1) t] show ?thesis .
  next
    fix tp assume r: "s_transfer_params (cl_session c) = Some tp" "lock_view (locks t) = released tp (lock_view (sv_locks v))"
    from inv have "locks_ok (sv_locks v) (sv_clients v)" by (simp add: server_inv_def)
    from locks_ok_released [OF this i c r(1) wf r(2), of None] show ?thesis by simp
  qed
  moreover have "live ((sv_clients v)[i := None]) = live (sv_clients v) - 1" "live (sv_clients v) > 0"
    using live_update [OF i(1)] i(2) by simp_all
  ultimately show ?thesis using inv
    by (auto simp: server_inv_def set_client_def forget_connection_def dest!: set_update_subset_insert [THEN subsetD])
qed


section \<open>The steps of a client's thread\<close>

lemma effect_refl: "wf_locks l \<Longrightarrow> lock_effect l s l s"
  by (simp add: lock_effect_def)

text \<open>\<open>after v t root s\<close>: from \<open>calm v t root\<close>, at most a transfer has been started.\<close>

definition after ::
  "(string \<Rightarrow> nat \<times> nat \<times> nat) \<Rightarrow> transfer_thread_state_t \<times> transfer_params_t option \<times> bool \<Rightarrow> string \<Rightarrow> 'w sys \<Rightarrow> bool"
where
  "after v t root s \<longleftrightarrow> (\<exists>v' t'. calm v' t' root s \<and> consistent t' \<and>
     (v' = v \<and> fst t' = fst t \<and> fst (snd t') = fst (snd t) \<or>
      fst t = TRANSFER_THREAD_IDLE \<and> (\<exists>tp. acquired tp v v' \<and> t' = (TRANSFER_THREAD_STARTING, Some tp, True))))"

lemma after_calm: "calm v t root s \<Longrightarrow> consistent t \<Longrightarrow> after v t root s"
  unfolding after_def by blast

lemma after_keeps:
  assumes "\<And>v t. keeps (calm v t root) m any"
  shows "keeps (after v t root) m any"
  using assms unfolding keeps_def after_def by blast

lemma leads_dispatch:
  assumes "consistent t"
  shows "leads (calm v t root) (cmd_dispatch (ftp_table P) cmd)
     (\<lambda>_ s. command cmd = ''REIN'' \<and> fst t \<noteq> TRANSFER_THREAD_IDLE \<or> after v t root s)"
  unfolding leads_def
proof (intro allI impI)
  fix s :: "'a sys" assume s: "calm v t root s"
  let ?s' = "snd (run_state (cmd_dispatch (ftp_table P) cmd) s)"
  show "command cmd = ''REIN'' \<and> fst t \<noteq> TRANSFER_THREAD_IDLE \<or> after v t root ?s'"
  proof (cases "command cmd = ''REIN'' \<and> fst t \<noteq> TRANSFER_THREAD_IDLE")
    case False
    have "sess_inv (sess ?s') \<and> s_root_dir (sess ?s') = root"
      using dispatch_harmless [of s P cmd] s by (simp add: calm_def harmless_def)
    moreover have "steady v t s" using s by (simp add: calm_def)
    ultimately show ?thesis
      using dispatch_outcome [OF assms, of cmd v s P] False unfolding after_def calm_def by blast
  qed simp
qed

lemma calm_turn [calming]:
  "keeps (calm v t root) (session_send_response P code msg) any"
  "keeps (calm v t root) (net_has_urgent_data P fd :: ('w, int) sys_m) any"
  "keeps (calm v t root) (net_receive_line P fd n tmo :: ('w, int \<times> string) sys_m) any"
  "keeps (calm v t root) (session_update_activity P) any"
  "keeps (calm v t root) (smod (\<lambda>s. s\<lparr>s_commands_received := cnt s\<rparr>)) any"
proof -
  show "keeps (calm v t root) (net_receive_line P fd n tmo :: ('w, int \<times> string) sys_m) any"
    by (rule calm.frame_receive_line)
  show "keeps (calm v t root) (session_update_activity P) any"
    "keeps (calm v t root) (smod (\<lambda>s. s\<lparr>s_commands_received := cnt s\<rparr>)) any"
    unfolding session_update_activity_def
    by (intro calming calm_smod; simp add: transfer_of_def sess_inv_def buffers_fit_def permitted_def has_perm_def
        is_admin_def within_home_def)+
qed (rule calm_does; rule doing; simp)+

lemma leads_prod: "(\<And>a b. x = (a, b) \<Longrightarrow> leads I (f a b) J) \<Longrightarrow> leads I (case x of (a, b) \<Rightarrow> f a b) J"
  by (cases x) auto

lemma leads_turn:
  assumes t: "consistent t"
  shows "leads (calm v t root) (client_turn P (ftp_table P) tmo)
     (\<lambda>r s. (\<exists>cmd. r = Did cmd \<and> command cmd = ''REIN'' \<and> fst t \<noteq> TRANSFER_THREAD_IDLE) \<or> after v t root s)"
proof -
  let ?J = "\<lambda>r s. (\<exists>cmd. r = Did cmd \<and> command cmd = ''REIN'' \<and> fst t \<noteq> TRANSFER_THREAD_IDLE) \<or> after v t root s"
  let ?rest = "\<lambda>cmd r. do {
      (if r \<noteq> 0 \<and> \<not> cmd_is_registered (ftp_table P) (command cmd) then do {
         session_send_response P PROTO_RESP_COMMAND_NOT_IMPL ''Command not implemented''; ret () }
       else ret ());
      ret (Did cmd) }"
  have k: "keeps (after v t root) (?rest cmd r) (\<lambda>x. x = Did cmd)" for cmd r
    by (rule keeps_bind [where F = any]) (intro after_keeps calming keeps_ret refl)+
  have "leads (\<lambda>s. command cmd = ''REIN'' \<and> fst t \<noteq> TRANSFER_THREAD_IDLE \<or> after v t root s) (?rest cmd r) ?J" for cmd r
    using k [of r cmd] by (auto simp: leads_def keeps_def case_prod_beta)
  note disp = leads_seq [OF leads_dispatch [OF t] this]
  show ?thesis
    unfolding client_turn_def
    by (intro leads_bind leads_prod leads_if leads_option disp calming leads_ret; simp add: after_calm t)
qed


lemma transfer_of_simps: "fst (transfer_of s) = s_transfer_thread_state s" "fst (snd (transfer_of s)) = s_transfer_params s"
  "snd (snd (transfer_of s)) = s_transfer_thread s"
  by (simp_all add: transfer_of_def)

lemma after_effect:
  assumes "after (lock_view l) (transfer_of s) root y" "consistent (transfer_of s)"
  shows "lock_effect l s (locks y) (sess y)" "sess_inv (sess y)" "consistent (transfer_of (sess y))"
proof -
  from assms(1) obtain v' t' where y: "calm v' t' root y" "consistent t'"
    "v' = lock_view l \<and> fst t' = s_transfer_thread_state s \<and> fst (snd t') = s_transfer_params s \<or>
      s_transfer_thread_state s = TRANSFER_THREAD_IDLE \<and>
      (\<exists>tp. acquired tp (lock_view l) v' \<and> t' = (TRANSFER_THREAD_STARTING, Some tp, True))"
    by (auto simp: after_def transfer_of_simps)
  then have e: "wf_locks (locks y)" "lock_view (locks y) = v'" "transfer_of (sess y) = t'"
    by (simp_all add: calm_def steady_def)
  show "sess_inv (sess y)" "consistent (transfer_of (sess y))" using y e by (simp_all add: calm_def)
  have "s_transfer_thread_state s = TRANSFER_THREAD_IDLE \<Longrightarrow> s_transfer_params s = None"
    using assms(2) by (auto simp: consistent_def transfer_of_def)
  with y(3) e show "lock_effect l s (locks y) (sess y)"
    by (auto simp: lock_effect_def transfer_of_simps [symmetric])
qed

section \<open>The steps of a transfer's thread\<close>

text \<open>The thread ends with the transfer's lock released.\<close>

lemma finish_run_transfer:
  assumes s: "calm v (TRANSFER_THREAD_RUNNING, Some tp, True) root s" and o: "owns tp v" and env: "calm_env env"
    and r: "run_state (do { r \<leftarrow> run_transfer P env fuel tp;
              (case r of None \<Rightarrow> ret False | Some result \<Rightarrow> finish_transfer P tp result) }) s = (True, s')"
  shows "calm (released tp v) (TRANSFER_THREAD_IDLE, None, True) root s'"
proof -
  let ?t = "(TRANSFER_THREAD_RUNNING, Some tp, True)"
  obtain res s2 where t: "run_state (run_transfer P env fuel tp) s = (res, s2)" by fastforce
  have "keeps (calm v ?t root) (run_transfer P env fuel tp) any"
    by (rule calm_operations [OF env]) (simp_all add: consistent_def)
  from keeps_snd [OF this s] have c: "calm v ?t root s2" by (simp add: t)
  obtain result where "res = Some result" using r t by (cases res) auto
  with r t have "s' = snd (run_state (finish_transfer P tp result) s2)" by (auto simp: prod_eq_iff)
  with finish_calm [OF c o] show ?thesis by simp
qed

definition rest_done ::
  "(string \<Rightarrow> nat \<times> nat \<times> nat) \<Rightarrow> transfer_thread_state_t \<times> transfer_params_t option \<times> bool \<Rightarrow> string \<Rightarrow> 'w sys \<Rightarrow> bool"
where
  "rest_done v t root s \<longleftrightarrow>
     (case fst (snd t) of None \<Rightarrow> calm v t root s
      | Some tp \<Rightarrow> calm (released tp v) (TRANSFER_THREAD_IDLE, None, True) root s)"

lemma leads_rest:
  assumes t: "consistent t" and o: "\<And>tp. fst (snd t) = Some tp \<Longrightarrow> owns tp v" and env: "calm_env env"
  shows "leads (calm v t root) (transfer_rest P env fuel) (\<lambda>done s. done \<longrightarrow> rest_done v t root s)"
  unfolding leads_def
proof (intro allI impI)
  fix s :: "'a sys"
  assume s: "calm v t root s" and d: "fst (run_state (transfer_rest P env fuel) s)"
  define s' where "s' = snd (run_state (transfer_rest P env fuel) s)"
  have r: "run_state (transfer_rest P env fuel) s = (True, s')" using d by (simp add: s'_def prod_eq_iff)
  have tr: "s_transfer_thread_state (sess s) = fst t" "s_transfer_params (sess s) = fst (snd t)"
    using s by (auto simp: calm_def steady_def transfer_of_def)
  show "rest_done v t root (snd (run_state (transfer_rest P env fuel) s))"
  proof (cases "fst (snd t)")
    case None
    with t have "fst t = TRANSFER_THREAD_IDLE" by (cases t) (simp add: consistent_def)
    with r tr s None show ?thesis by (auto simp: rest_done_def transfer_rest_def sget_def)
  next
    case (Some tp)
    with t consider "t = (TRANSFER_THREAD_STARTING, Some tp, True)" | "t = (TRANSFER_THREAD_RUNNING, Some tp, True)"
      by (cases t; cases "fst t") (auto simp: consistent_def)
    then have "calm (released tp v) (TRANSFER_THREAD_IDLE, None, True) root s'"
    proof cases
      case 1
      have "run_state (transfer_thread_func P env fuel) s = (True, s')"
        using r tr 1 by (simp add: transfer_rest_def sget_def)
      from thread_leaves [OF s [unfolded 1] o [OF Some] env this] show ?thesis by simp
    next
      case 2
      have "run_state (do { r \<leftarrow> run_transfer P env fuel tp;
              (case r of None \<Rightarrow> ret False | Some result \<Rightarrow> finish_transfer P tp result) }) s = (True, s')"
        using r tr 2 by (simp add: transfer_rest_def sget_def)
      from finish_run_transfer [OF s [unfolded 2] o [OF Some] env this] show ?thesis .
    qed
    with r Some show ?thesis by (simp add: rest_done_def)
  qed
qed

lemma rest_effect:
  assumes "rest_done (lock_view l) (transfer_of s) root y" "consistent (transfer_of s)"
  shows "lock_effect l s (locks y) (sess y)" "sess_inv (sess y)" "consistent (transfer_of (sess y))"
    "s_transfer_params (sess y) = None"
proof -
  have "lock_effect l s (locks y) (sess y) \<and> sess_inv (sess y) \<and> consistent (transfer_of (sess y)) \<and>
    s_transfer_params (sess y) = None"
  proof (cases "s_transfer_params s")
    case None
    with assms have c: "calm (lock_view l) (transfer_of s) root y" by (simp add: rest_done_def transfer_of_simps)
    then have "transfer_of (sess y) = transfer_of s" by (simp add: calm_def steady_def)
    with c assms(2) None show ?thesis by (auto simp: calm_def steady_def lock_effect_def transfer_of_def)
  next
    case (Some tp)
    with assms(1) have c: "calm (released tp (lock_view l)) (TRANSFER_THREAD_IDLE, None, True) root y"
      by (simp add: rest_done_def transfer_of_simps)
    then have "transfer_of (sess y) = (TRANSFER_THREAD_IDLE, None, True)" by (simp add: calm_def steady_def)
    with c Some show ?thesis by (auto simp: calm_def steady_def lock_effect_def transfer_of_def consistent_def)
  qed
  then show "lock_effect l s (locks y) (sess y)" "sess_inv (sess y)" "consistent (transfer_of (sess y))"
    "s_transfer_params (sess y) = None" by blast+
qed


section \<open>The end of a session\<close>

text \<open>The session holds no lock any more, or the step does not end.\<close>

definition gone :: "lock_entries \<Rightarrow> session_t \<Rightarrow> 'w sys \<Rightarrow> bool" where
  "gone l s y \<longleftrightarrow> stuck y \<or> lock_effect l s (locks y) (sess y) \<and> s_transfer_params (sess y) = None"

lemma gone_does:
  fixes m :: "('w, 'a) sys_m"
  assumes "does UNIV m"
  shows "keeps (gone l s) m any"
proof (rule keepsI)
  fix y :: "'w sys" assume y: "gone l s y"
  note m = does_more [OF assms, of y]
  have "stuck y \<longrightarrow> stuck (snd (run_state m y))" using assms unfolding does_def by blast
  with y m show "gone l s (snd (run_state m y)) \<and> True" by (auto simp: gone_def)
qed

lemma gone_smod: "(\<And>s. s_transfer_params (f s) = s_transfer_params s) \<Longrightarrow> keeps (gone l s) (smod f) any"
  unfolding smod_def by (rule keeps_modify) (auto simp: gone_def lock_effect_def)

lemma gone_ops:
  "keeps (gone l s) (smod (\<lambda>s. s\<lparr>s_transfer_thread := b\<rparr>) :: ('w, unit) sys_m) any"
  "keeps (gone l s) (smod (\<lambda>s. s\<lparr>s_control_socket := fd\<rparr>) :: ('w, unit) sys_m) any"
  "keeps (gone l s) (net_close_socket P fd :: ('w, unit) sys_m) any"
  "keeps (gone l s) (sget f :: ('w, 'a) sys_m) any" "keeps (gone l s) (ret () :: ('w, unit) sys_m) any"
  by (rule gone_smod, simp, rule gone_smod, simp) (rule gone_does, (rule doing; simp))+

lemma gone_bind: "keeps (gone l s) m any \<Longrightarrow> (\<And>a. keeps (gone l s) (f a) G) \<Longrightarrow> keeps (gone l s) (State_Monad.bind m f) G"
  by (rule keeps_bind)

lemma leads_join:
  assumes "consistent (transfer_of s)" "\<And>tp. s_transfer_params s = Some tp \<Longrightarrow> owns tp (lock_view l)" "calm_env env"
  shows "leads (calm (lock_view l) (transfer_of s) root) (join_transfer P env fuel) (\<lambda>_. gone l s)"
proof -
  have "leads (\<lambda>y. done \<longrightarrow> rest_done (lock_view l) (transfer_of s) root y) (if done then ret () else give_up) (\<lambda>_. gone l s)" for "done"
    using rest_effect [OF _ assms(1)] by (auto simp: leads_def gone_def give_up_def)
  note fin = this
  have "leads (calm (lock_view l) (transfer_of s) root) (transfer_rest P env fuel)
      (\<lambda>done y. done \<longrightarrow> rest_done (lock_view l) (transfer_of s) root y)"
    by (rule leads_rest [OF assms(1) _ assms(3)]) (simp add: transfer_of_simps assms(2))
  then show ?thesis unfolding join_transfer_def by (rule leads_seq) (rule fin)
qed

lemma leads_destroy:
  assumes c: "consistent (transfer_of s)" and "\<And>tp. s_transfer_params s = Some tp \<Longrightarrow> owns tp (lock_view l)" "calm_env env"
  shows "leads (calm (lock_view l) (transfer_of s) root) (session_destroy P (join_transfer P env fuel)) (\<lambda>_. gone l s)"
proof -
  let ?I = "calm (lock_view l) (transfer_of s) root :: 'a sys \<Rightarrow> bool"
  let ?tail = "do {
     c \<leftarrow> sget s_control_socket;
     (if c \<noteq> INVALID_SOCKET_T then do {
        net_close_socket P c;
        smod (\<lambda>s. s\<lparr>s_control_socket := INVALID_SOCKET_T\<rparr>) } else ret ()) } :: ('a, unit) sys_m"
  have tail: "leads (gone l s) ?tail (\<lambda>_. gone l s)"
    unfolding keeps_leads [symmetric] by (intro gone_bind keeps_if gone_ops)
  have joined: "leads ?I (do { join_transfer P env fuel; smod (\<lambda>s. s\<lparr>s_transfer_thread := False\<rparr>) }) (\<lambda>_. gone l s)"
    by (rule leads_seq [OF leads_join [OF assms]]; assumption?) (simp add: gone_ops keeps_leads [symmetric])
  have thread: "leads ?I (do { t \<leftarrow> sget s_transfer_thread;
      (if t then do { join_transfer P env fuel; smod (\<lambda>s. s\<lparr>s_transfer_thread := False\<rparr>) } else ret ()) }) (\<lambda>_. gone l s)"
  proof (cases "s_transfer_thread s")
    case True
    then have "\<And>y :: 'a sys. ?I y \<Longrightarrow> s_transfer_thread (sess y)" by (auto simp: calm_def steady_def transfer_of_def)
    with joined show ?thesis by (simp add: leads_def sget_def)
  next
    case False
    with c have n: "s_transfer_params s = None" by (auto simp: consistent_def transfer_of_def)
    have "\<And>y :: 'a sys. ?I y \<Longrightarrow> gone l s y \<and> \<not> s_transfer_thread (sess y)"
      using n False by (auto simp: calm_def steady_def transfer_of_def gone_def lock_effect_def)
    then show ?thesis by (simp add: leads_def sget_def)
  qed
  have quit: "keeps ?I (smod (\<lambda>s. s\<lparr>s_should_quit := True\<rparr>)) any"
    by (rule calm_smod) (simp_all add: transfer_of_def sess_inv_simps)
  have "leads ?I (do { smod (\<lambda>s. s\<lparr>s_should_quit := True\<rparr>); session_close_data_connection P;
      do { t \<leftarrow> sget s_transfer_thread;
      (if t then do { join_transfer P env fuel; smod (\<lambda>s. s\<lparr>s_transfer_thread := False\<rparr>) } else ret ()) }; ?tail }) (\<lambda>_. gone l s)"
    by (intro leads_bind [OF quit] leads_bind [OF calm_close_data] leads_seq [OF thread] tail)
  then show ?thesis unfolding session_destroy_def by simp
qed


section \<open>The accept loop\<close>

lemma more_server:
  assumes "os.more v' = os.more v"
  shows "sv_locks v' = sv_locks v" "sv_handlers v' = sv_handlers v" "sv_config v' = sv_config v"
    "sv_connections v' = sv_connections v" "sv_clients v' = sv_clients v" "sv_auth v' = sv_auth v"
    "sv_running v' = sv_running v" "sv_listening_socket v' = sv_listening_socket v"
  using assms by (cases v, cases v', simp)+

lemma inv_does:
  fixes m :: "('w, 'a) server_m"
  assumes "does UNIV m"
  shows "keeps (server_inv P) m any"
proof (rule keeps_does [OF assms])
  fix v v' :: "'w server"
  assume v: "server_inv P v" and m: "os.more v' = os.more v"
  show "server_inv P v'" using v unfolding server_inv_def more_server [OF m] .
qed

text \<open>Between \<open>admit\<close> and the client's entry in the list, the count is one ahead.\<close>

definition pending :: "'w posix \<Rightarrow> 'w server \<Rightarrow> bool" where
  "pending P v \<longleftrightarrow> server_inv P (v\<lparr>sv_connections := sv_connections v - 1\<rparr>) \<and>
     (cfg_max_connections (sv_config v) > 0 \<longrightarrow> sv_connections v \<le> cfg_max_connections (sv_config v))"

lemma pending_does:
  fixes m :: "('w, 'a) server_m"
  assumes "does UNIV m"
  shows "keeps (pending P) m any"
proof (rule keeps_does [OF assms])
  fix v v' :: "'w server"
  assume v: "pending P v" and m: "os.more v' = os.more v"
  show "pending P v'" using v by (auto simp: pending_def server_inv_def more_server [OF m])
qed

lemma leads_admit: "leads (server_inv P) admit (\<lambda>busy v. if busy then server_inv P v else pending P v)"
  by (auto simp: leads_def admit_def pending_def server_inv_def)

lemma leads_forget: "leads (pending P) forget_connection (\<lambda>_. server_inv P)"
  by (simp add: leads_def forget_connection_def pending_def)

lemma leads_enter:
  assumes "client_ok c" "s_transfer_params (cl_session c) = None"
  shows "leads (pending P) (modify (\<lambda>v. v\<lparr>sv_clients := sv_clients v @ [Some c]\<rparr>)) (\<lambda>_. server_inv P)"
  using assms by (auto simp: leads_def pending_def server_inv_def locks_ok_def transfers_on_def live_def)

lemma does_create: "does UNIV (session_create P fd ip port root_dir bind_address)"
  unfolding session_create_def Let_def by (intro doing) auto

lemma create_fresh:
  assumes "fst (run_state (session_create P fd ip port root_dir bind_address) v) = Some s"
  shows "sess_inv s" "transfer_of s = (TRANSFER_THREAD_IDLE, None, False)"
  using assms
  by (auto simp: session_create_def Let_def case_prod_beta sess_inv_def buffers_fit_def session_reset_state_def
      zero_session_def transfer_of_def length_strncpy_buf SESSION_MAX_PATH_def SESSION_MAX_USERNAME_def
      split: if_splits option.splits)

lemma destroy_fresh:
  assumes "\<not> s_transfer_thread (sess x)"
  shows "locks (snd (run_state (session_destroy P join) x)) = locks x"
proof -
  have net: "locks (snd (run_state (net_close_socket P fd :: ('a, unit) sys_m) t)) = locks t" for fd t
    by (rule does_more [where A = UNIV]; rule doing; simp)
  show ?thesis using assms unfolding session_destroy_def
    by (auto simp: smod_def sget_def case_prod_beta run_close_data closed_def net)
qed

lemma pending_destroy:
  assumes "transfer_of s = (TRANSFER_THREAD_IDLE, None, False)"
  shows "keeps (pending P) (in_session s (session_destroy P' (ret ()))) any"
proof (rule keepsI)
  fix v :: "'a server" assume "pending P v"
  moreover have "locks (snd (run_state (session_destroy P' (ret ())) (session_view s v))) = sv_locks v"
    using assms by (simp add: destroy_fresh transfer_of_def)
  ultimately show "pending P (snd (run_state (in_session s (session_destroy P' (ret ()))) v)) \<and> True"
    by (auto simp: run_in_session pending_def server_inv_def)
qed

text \<open>The two ways a connection takes: a session with its thread, or the line for a busy server.\<close>

definition start_client :: "'w posix \<Rightarrow> session_t \<Rightarrow> ('w, unit) server_m" where
  "start_client P s = do {
     ok \<leftarrow> os (px_pthread_create P);
     if \<not> ok then do { in_session s (session_destroy P (ret ())); forget_connection }
     else modify (\<lambda>v. v\<lparr>sv_clients := sv_clients v @ [Some \<lparr>cl_phase = Greeting, cl_session = s\<rparr>]\<rparr>) }"

definition serve_client :: "'w posix \<Rightarrow> int \<Rightarrow> string \<Rightarrow> 16 word \<Rightarrow> ('w, unit) server_m" where
  "serve_client P fd ip port = do {
     config \<leftarrow> gets sv_config;
     session \<leftarrow> session_create P fd ip port (cfg_root_dir config) (Some (cfg_bind_address config));
     (case session of
        None \<Rightarrow> do { net_close_socket P fd; forget_connection }
      | Some s \<Rightarrow> start_client P s) }"

definition refuse_client :: "'w posix \<Rightarrow> int \<Rightarrow> ('w, unit) server_m" where
  "refuse_client P fd = do {
     (case proto_format_response PROTO_MAX_RESPONSE_LINE PROTO_RESP_SERVICE_NOT_AVAIL
             ''Service not available, too many connections'' of
        None \<Rightarrow> ret ()
      | Some busy_response \<Rightarrow> do { net_send_all P fd busy_response; ret () });
     net_close_socket P fd }"

lemma start_client_inv:
  assumes "sess_inv s" "transfer_of s = (TRANSFER_THREAD_IDLE, None, False)"
  shows "leads (pending P) (start_client P s) (\<lambda>_. server_inv P)"
  unfolding start_client_def using assms
  by (intro leads_bind [OF pending_does [OF does_os]] leads_if leads_bind [OF pending_destroy] leads_forget leads_enter)
    (auto simp: client_ok_def consistent_def transfer_of_def)

lemma created_pending: "leads (pending P) (session_create P fd ip port r b)
   (\<lambda>x v. pending P v \<and> (\<forall>s. x = Some s \<longrightarrow> sess_inv s \<and> transfer_of s = (TRANSFER_THREAD_IDLE, None, False)))"
  using keeps_snd [OF pending_does [OF does_create]] create_fresh by (fastforce simp: leads_def)

lemma serve_client_inv: "leads (pending P) (serve_client P fd ip port) (\<lambda>_. server_inv P)"
proof -
  have none: "leads (pending P) (do { net_close_socket P fd; forget_connection }) (\<lambda>_. server_inv P)"
    by (intro leads_bind [OF pending_does [OF does_net(3)]] leads_forget) simp
  have "leads (\<lambda>v. pending P v \<and> (\<forall>s. x = Some s \<longrightarrow> sess_inv s \<and> transfer_of s = (TRANSFER_THREAD_IDLE, None, False)))
     (case x of None \<Rightarrow> do { net_close_socket P fd; forget_connection } | Some s \<Rightarrow> start_client P s) (\<lambda>_. server_inv P)" for x
    using none start_client_inv by (cases x) (auto simp: leads_def)
  with created_pending show ?thesis
    unfolding serve_client_def by (intro leads_bind [OF keeps_gets] TrueI leads_seq) (assumption | rule TrueI)+
qed

lemma refuse_client_inv: "leads (server_inv P) (refuse_client P fd) (\<lambda>_. server_inv P)"
proof -
  have "does UNIV (refuse_client P fd)" unfolding refuse_client_def by (intro doing; simp)
  from inv_does [OF this] show ?thesis by (simp add: keeps_leads)
qed

lemma accept_inv: "keeps (server_inv P) (accept_turn P) any"
proof -
  have turn: "leads (\<lambda>v. if busy then server_inv P v else pending P v)
      (if busy then refuse_client P fd else serve_client P fd ip port) (\<lambda>_. server_inv P)" for busy fd ip port
    using refuse_client_inv serve_client_inv by (cases busy) simp_all
  show ?thesis
    unfolding accept_turn_def keeps_leads
    by (intro leads_bind [OF keeps_gets] leads_bind [OF inv_does [OF does_net(10)]] TrueI)
      (auto split: sum.split prod.split intro!: leads_if leads_ret leads_seq [OF leads_admit]
        turn [unfolded refuse_client_def serve_client_def start_client_def])
qed

section \<open>Every step keeps the invariant\<close>

text \<open>REIN only comes while the session has no transfer: with one, the code forgets it
  (\<open>rein_forgets_transfer\<close>).\<close>

definition orderly :: "'w server \<Rightarrow> server_event \<Rightarrow> bool" where
  "orderly v e \<longleftrightarrow>
     (case e of
        Turned i (Did cmd) \<Rightarrow> command cmd = ''REIN'' \<longrightarrow>
          (case sv_clients v ! i of None \<Rightarrow> True
           | Some c \<Rightarrow> s_transfer_thread_state (cl_session c) = TRANSFER_THREAD_IDLE)
      | _ \<Rightarrow> True)"

lemma client_calm:
  assumes "server_inv P v" "i < length (sv_clients v)" "sv_clients v ! i = Some \<lparr>cl_phase = ph, cl_session = s\<rparr>"
  shows "calm (lock_view (sv_locks v)) (transfer_of s) (s_root_dir s) (session_view s v)"
    "consistent (transfer_of s)" "sess_inv s" "wf_locks (sv_locks v)"
    "\<And>tp. s_transfer_params s = Some tp \<Longrightarrow> owns tp (lock_view (sv_locks v))"
proof -
  from assms have c: "client_ok \<lparr>cl_phase = ph, cl_session = s\<rparr>" using nth_mem by (metis server_inv_def)
  from assms(1) have l: "locks_ok (sv_locks v) (sv_clients v)" by (simp add: server_inv_def)
  show "consistent (transfer_of s)" "sess_inv s" using c by (simp_all add: client_ok_def)
  show wf: "wf_locks (sv_locks v)" using l by (simp add: locks_ok_def)
  show "calm (lock_view (sv_locks v)) (transfer_of s) (s_root_dir s) (session_view s v)"
    using c wf by (simp add: calm_def steady_def client_ok_def)
  show "owns tp (lock_view (sv_locks v))" if "s_transfer_params s = Some tp" for tp
    using locks_ok_owns [OF l assms(2,3) c] that by simp
qed

lemma effect_calm:
  assumes "calm (lock_view l) (transfer_of s) root y" "consistent (transfer_of s)"
  shows "lock_effect l s (locks y) (sess y)" "sess_inv (sess y)" "consistent (transfer_of (sess y))"
  using after_effect [OF after_calm [OF assms] assms(2)] .

lemma begin_effect:
  assumes s: "sess_inv s" "consistent (transfer_of s)" "wf_locks (sv_locks v)" "s_transfer_thread_state s = TRANSFER_THREAD_STARTING"
    and t: "t = snd (run_state transfer_begin (session_view s v))"
  shows "lock_effect (sv_locks v) s (locks t) (sess t)" "sess_inv (sess t)" "consistent (transfer_of (sess t))"
proof -
  have t': "locks t = sv_locks v" "sess t = s\<lparr>s_transfer_thread_state := TRANSFER_THREAD_RUNNING, s_transfer_in_progress := True\<rparr>"
    by (simp_all add: t transfer_begin_def session_set_transfer_thread_state_def session_set_transfer_in_progress_def smod_def)
  show "lock_effect (sv_locks v) s (locks t) (sess t)" using s(3) by (simp add: t' lock_effect_def)
  show "sess_inv (sess t)" using s(1)
    by (auto simp: t' sess_inv_def buffers_fit_def permitted_def has_perm_def is_admin_def within_home_def)
  show "consistent (transfer_of (sess t))" using s(2,4) by (auto simp: t' consistent_def transfer_of_def)
qed

lemma calm_begin: "keeps (calm v t root) (client_begin P) any"
proof -
  have "keeps (calm v t root) (net_set_oob_inline P fd b :: ('a, int) sys_m) any" for fd b
    by (rule calm_does; rule doing)
  then show ?thesis unfolding client_begin_def by (intro calming)
qed

lemma server_inv_phase:
  assumes "server_inv P v" "i < length (sv_clients v)" "sv_clients v ! i = Some \<lparr>cl_phase = ph, cl_session = s\<rparr>"
  shows "server_inv P (set_client i (Some \<lparr>cl_phase = ph', cl_session = s\<rparr>) v)"
proof -
  note c = client_calm [OF assms]
  have "session_put (session_view s v) v = v" by (simp add: session_put_def session_view_def)
  with session_step [OF assms, of "session_view s v" ph'] c effect_refl [OF c(4)] show ?thesis by simp
qed

lemma stop_inv: "keeps (server_inv P) (server_stop P) any"
proof -
  have "keeps (server_inv P) (net_close_socket P fd) any" for fd
    by (rule inv_does; rule doing; simp)
  then show ?thesis
    unfolding server_stop_def
    by (intro keeps_bind [where F = any] keeps_if keeps_gets keeps_ret keeps_modify TrueI) (auto simp: server_inv_def)
qed

lemma server_step_inv:
  assumes "server_step P v e v'" "server_inv P v" "orderly v e"
  shows "server_inv P v'"
  using assms
proof (cases rule: server_step.cases)
  case accept
  with keeps_snd [OF accept_inv assms(2)] show ?thesis by simp
next
  case (greet i s ok s' v1)
  note c = client_calm [OF assms(2) greet(3,4)]
  note r = in_sessionD [OF greet(5)]
  have "calm (lock_view (sv_locks v)) (transfer_of s) (s_root_dir s) (snd (run_state (client_begin P) (session_view s v)))"
    by (rule keeps_snd [OF calm_begin c(1)])
  from session_step [OF assms(2) greet(3,4)] effect_calm [OF this c(2)] r greet(2) show ?thesis by simp
next
  case (turn i s r s' v1)
  note c = client_calm [OF assms(2) turn(3,4)]
  let ?m = "client_turn P (sv_handlers v) (cfg_command_timeout_ms (sv_config v))"
  note r = in_sessionD [OF turn(7)]
  have h: "sv_handlers v = ftp_table P" using assms(2) by (simp add: server_inv_def)
  have no: "\<not> (\<exists>cmd. r = Did cmd \<and> command cmd = ''REIN'' \<and> fst (transfer_of s) \<noteq> TRANSFER_THREAD_IDLE)"
    using assms(3) turn(1,4) by (auto simp: orderly_def transfer_of_simps)
  have "after (lock_view (sv_locks v)) (transfer_of s) (s_root_dir s) (snd (run_state ?m (session_view s v)))"
    using leadsD [OF leads_turn [OF c(2)] c(1)] no r(1) unfolding h by metis
  from session_step [OF assms(2) turn(3,4)] after_effect [OF this c(2)] r turn(2) show ?thesis by simp
next
  case (loop_out i s)
  from server_inv_phase [OF assms(2) loop_out(3,4)] loop_out(2) show ?thesis by simp
next
  case (transfer_begin i ph s s' v1)
  note c = client_calm [OF assms(2) transfer_begin(3,4)]
  note r = in_sessionD [OF transfer_begin(6)]
  from session_step [OF assms(2) transfer_begin(3,4)] begin_effect [OF c(3,2,4) transfer_begin(5) refl] r transfer_begin(2)
  show ?thesis by simp
next
  case (transfer_end i ph s env fuel s' v1)
  note c = client_calm [OF assms(2) transfer_end(3,4)]
  note r = in_sessionD [OF transfer_end(7)]
  have "rest_done (lock_view (sv_locks v)) (transfer_of s) (s_root_dir s) (snd (run_state (transfer_rest P env fuel) (session_view s v)))"
    using leadsD [OF leads_rest [OF c(2) _ transfer_end(6)] c(1)] c(5) r by (simp add: transfer_of_simps)
  from session_step [OF assms(2) transfer_end(3,4)] rest_effect [OF this c(2)] r transfer_end(2) show ?thesis by simp
next
  case (leave i s env fuel s' v1)
  note c = client_calm [OF assms(2) leave(3,4)]
  note r = in_sessionD [OF leave(6)]
  have "gone (sv_locks v) s (snd (run_state (session_destroy P (join_transfer P env fuel)) (session_view s v)))"
    by (rule leadsD [OF leads_destroy [OF c(2,5) leave(5)] c(1)])
  with r leave(7) session_leaves [OF assms(2) leave(3,4)] leave(2) show ?thesis by (simp add: gone_def)
next
  case stop
  with keeps_snd [OF stop_inv assms(2)] show ?thesis by simp
qed


section \<open>The start\<close>

text \<open>The globals as the program starts.\<close>

definition config0 :: server_config_t where
  "config0 = \<lparr>cfg_port = 0, cfg_root_dir = [], cfg_bind_address = [], cfg_max_backlog = 0,
     cfg_command_timeout_ms = 0, cfg_max_connections = 0, cfg_address_family = NET_AF_IPV4\<rparr>"

definition server0 :: "'w \<Rightarrow> 'w server" where
  "server0 w = \<lparr>world = w, trace = [], stuck = False, sv_locks = [], sv_auth = auth_state0, sv_handlers = cmd_state0,
     sv_running = False, sv_listening_socket = INVALID_SOCKET_T, sv_config = config0, sv_connections = 0, sv_clients = []\<rparr>"

lemma does_sv:
  fixes m :: "('w, 'a) server_m"
  assumes "does UNIV m"
  shows "sv_locks (snd (run_state m v)) = sv_locks v" "sv_handlers (snd (run_state m v)) = sv_handlers v"
    "sv_config (snd (run_state m v)) = sv_config v" "sv_connections (snd (run_state m v)) = sv_connections v"
    "sv_clients (snd (run_state m v)) = sv_clients v" "sv_auth (snd (run_state m v)) = sv_auth v"
    "sv_running (snd (run_state m v)) = sv_running v" "sv_listening_socket (snd (run_state m v)) = sv_listening_socket v"
proof -
  have "os.more (snd (run_state m v)) = os.more v" using assms unfolding does_def by blast
  note more_server [OF this]
  then show "sv_locks (snd (run_state m v)) = sv_locks v" "sv_handlers (snd (run_state m v)) = sv_handlers v"
    "sv_config (snd (run_state m v)) = sv_config v" "sv_connections (snd (run_state m v)) = sv_connections v"
    "sv_clients (snd (run_state m v)) = sv_clients v" "sv_auth (snd (run_state m v)) = sv_auth v"
    "sv_running (snd (run_state m v)) = sv_running v" "sv_listening_socket (snd (run_state m v)) = sv_listening_socket v"
    by blast+
qed

lemma load_users_frame:
  "auth_initialized (snd (auth_load_users contents a)) = auth_initialized a"
  "g_anonymous_enabled (snd (auth_load_users contents a)) = g_anonymous_enabled a"
  "g_virtual_anonymous (snd (auth_load_users contents a)) = g_virtual_anonymous a"
  by (simp_all add: auth_load_users_def split: option.splits)

lemma init_auth:
  "auth_initialized (auth_init a)" "g_anonymous_enabled (auth_set_anonymous_enabled True a)"
  "auth_initialized (auth_set_anonymous_enabled b a) = auth_initialized a"
  "auth_initialized (auth_set_anonymous_defaults h p a) = auth_initialized a"
  "g_anonymous_enabled (auth_set_anonymous_defaults h p a) = g_anonymous_enabled a"
  "u_home_dir (g_virtual_anonymous (auth_set_anonymous_defaults h p a)) = strncpy_buf AUTH_MAX_HOME_DIR h"
  "u_permissions (g_virtual_anonymous (auth_set_anonymous_defaults h p a)) = p"
  "\<not> auth_initialized (auth_cleanup a)" "\<not> g_initialized (cmd_cleanup st)"
  by (simp_all add: auth_init_def auth_set_anonymous_enabled_def auth_set_anonymous_defaults_def auth_cleanup_def
      cmd_cleanup_def)

text \<open>What a start from the initial globals leaves.\<close>

definition started :: "'w posix \<Rightarrow> server_config_t \<Rightarrow> 'w server \<Rightarrow> bool" where
  "started P config v \<longleftrightarrow> sv_running v \<and> sv_listening_socket v \<noteq> INVALID_SOCKET_T \<and> sv_config v = config \<and>
     sv_handlers v = ftp_table P \<and> sv_clients v = [] \<and> sv_connections v = 0 \<and> sv_locks v = [] \<and>
     auth_initialized (sv_auth v) \<and> g_anonymous_enabled (sv_auth v) \<and>
     u_home_dir (g_virtual_anonymous (sv_auth v)) = ''/'' \<and> u_permissions (g_virtual_anonymous (sv_auth v)) = AUTH_PERM_READ"

lemma init_started:
  fixes v0 :: "'w server"
  assumes v0: "v0 = server0 w"
  shows "case run_state (server_init P (Some config)) v0 of (r, v) \<Rightarrow>
     if r = 0 then started P config v
     else r = -1 \<and> \<not> sv_running v \<and> \<not> g_initialized (sv_handlers v) \<and> \<not> auth_initialized (sv_auth v)"
proof -
  have calls: "does UNIV (fs_is_directory P p :: ('w, bool) server_m)" "does UNIV (fs_create_directory P p :: ('w, int) server_m)"
    "does UNIV (os (px_fopen P p) :: ('w, string option) server_m)"
    "does UNIV (net_create_listening_socket P f b pt bl :: ('w, int) server_m)" for p f b pt bl
    by (rule doing; simp)+
  note frame = does_sv [OF calls(1)] does_sv [OF calls(2)] does_sv [OF calls(3)] does_sv [OF calls(4)]
  have reg: "fst (cmd_register_standard_handlers P (snd (cmd_init cmd_state0))) = 0"
    "snd (cmd_register_standard_handlers P (snd (cmd_init cmd_state0))) = ftp_table P"
    by (simp_all add: standard_registered ftp_table_def)
  have z: "\<not> g_initialized (cmd_state0 :: 'w sys cmd_state)" "\<not> auth_initialized auth_state0"
    by (simp_all add: cmd_state0_def auth_state0_def)
  have home: "strncpy_buf AUTH_MAX_HOME_DIR ''/'' = ''/''" by (simp add: strncpy_buf_id AUTH_MAX_HOME_DIR_def)
  show ?thesis
    unfolding server_init_def v0
    by (simp add: case_prod_beta frame server0_def reg z started_def load_users_frame init_auth home)
qed


lemma started_inv: "started P config v \<Longrightarrow> server_inv P v"
  by (simp add: started_def server_inv_def locks_ok_def wf_locks_def transfers_on_def live_def lock_view_def fun_eq_iff)

section \<open>Reachable states\<close>

inductive reaches :: "'w posix \<Rightarrow> 'w server \<Rightarrow> 'w server \<Rightarrow> bool" for P where
  here: "reaches P v v"
| further: "reaches P v v' \<Longrightarrow> server_step P v' e v'' \<Longrightarrow> orderly v' e \<Longrightarrow> reaches P v v''"

lemma reaches_inv: "reaches P v v' \<Longrightarrow> server_inv P v \<Longrightarrow> server_inv P v'"
  by (induction rule: reaches.induct) (auto intro: server_step_inv)

lemma init_reaches_inv:
  assumes "run_state (server_init P (Some config)) (server0 w) = (0, v0)" "reaches P v0 v"
  shows "server_inv P v"
  using init_started [OF refl, of P config w] assms reaches_inv started_inv by (fastforce split: prod.splits)

section \<open>Properties\<close>

text \<open>
  The start of the server. \<open>server_init\<close> either succeeds, and then the server listens and runs with
  the standard command table, no client, and anonymous login enabled with read permission and home
  directory \<open>/\<close>; or it fails with -1, and then it does not run and the command table and the user
  database are shut down.
\<close>

theorem server_init_correct:
  "case run_state (server_init P (Some config)) (server0 w) of (r, v) \<Rightarrow>
     if r = 0 then started P config v
     else r = -1 \<and> \<not> sv_running v \<and> \<not> g_initialized (sv_handlers v) \<and> \<not> auth_initialized (sv_auth v)"
  by (rule init_started [OF refl])



section \<open>A run\<close>

text \<open>The server started on the system \<open>plain_posix\<close>, and after it has accepted one client.\<close>

definition demo_start :: "unit server" where
  "demo_start = snd (run_state (server_init plain_posix (Some config0)) (server0 ()))"

definition demo_client :: "unit server" where
  "demo_client = snd (run_state (accept_turn plain_posix) demo_start)"

lemma plain_calls:
  "run_state (fs_is_directory plain_posix p) s = (True, s\<lparr>trace := trace s @ [Ev_path Op_stat p]\<rparr>)"
  "run_state (net_create_listening_socket plain_posix f b pt bl) s = (4, s)"
  "run_state (net_accept plain_posix fd) s = (Inr (5, ''10.0.0.9'', 4000), s)"
  "px_fopen plain_posix p = ret None" "px_malloc plain_posix = ret True" "px_time plain_posix = ret 0"
  "px_pthread_create plain_posix = ret True"
  by (simp_all add: fs_is_directory_def sys_defs emit_def run_os plain_posix_def plain_stat_def S_ISDIR_def S_IFMT_def
      net_create_listening_socket_def net_accept_def INVALID_SOCKET_T_def)

lemma demo_started:
  "run_state (server_init plain_posix (Some config0)) (server0 ()) = (0, demo_start)" "\<not> stuck demo_start"
proof -
  have "fst (run_state (server_init plain_posix (Some config0)) (server0 ())) = 0 \<and>
      \<not> stuck (snd (run_state (server_init plain_posix (Some config0)) (server0 ())))"
    unfolding server_init_def
    by (simp add: plain_calls server0_def config0_def standard_registered run_os INVALID_SOCKET_T_def case_prod_beta)
  then show "run_state (server_init plain_posix (Some config0)) (server0 ()) = (0, demo_start)" "\<not> stuck demo_start"
    by (simp_all add: demo_start_def prod_eq_iff)
qed

lemma demo_accepts:
  "sv_clients demo_client = [Some \<lparr>cl_phase = Greeting, cl_session = (session_reset_state zero_session)
     \<lparr>s_control_socket := 5, s_client_ip := ''10.0.0.9'', s_client_port := 4000\<rparr>\<rparr>]" "\<not> stuck demo_client" "sv_running demo_client"
proof -
  have "started plain_posix config0 demo_start"
    using init_started [OF refl, of plain_posix config0 "()"] demo_started by simp
  then show "sv_clients demo_client = [Some \<lparr>cl_phase = Greeting, cl_session = (session_reset_state zero_session)
     \<lparr>s_control_socket := 5, s_client_ip := ''10.0.0.9'', s_client_port := 4000\<rparr>\<rparr>]" "\<not> stuck demo_client" "sv_running demo_client"
    unfolding demo_client_def accept_turn_def
    by (simp_all add: plain_calls admit_def started_def config0_def session_create_def run_os INVALID_SOCKET_T_def demo_started
        Let_def case_prod_beta zero_session_def session_reset_state_def strncpy_buf_def)
qed

lemma demo_reaches: "reaches plain_posix demo_start demo_client"
proof (rule reaches.further [OF reaches.here])
  have "started plain_posix config0 demo_start"
    using init_started [OF refl, of plain_posix config0 "()"] demo_started by simp
  then have "sv_running demo_start" by (simp add: started_def)
  moreover have "run_state (accept_turn plain_posix) demo_start = ((), demo_client)" by (simp add: demo_client_def prod_eq_iff)
  ultimately show "server_step plain_posix demo_start Accepted demo_client"
    using demo_accepts(2) by (rule server_step.accept)
qed (simp add: orderly_def)



end
