(* ===== verification/Threads.thy ===== *)
theory Threads
  imports Server_Safety
begin

text \<open>
  The thread of a client, as the code runs it from its start to its end, is made of the steps of the
  process: \<open>client_thread\<close> refines \<open>server_step\<close>. Between its commands the transfer thread of the
  session begins, or works, as a schedule says.
\<close>

section \<open>The flag is never reset\<close>

text \<open>The control thread does nothing while the transfer thread works.\<close>

abbreviation idle :: "'w env" where "idle \<equiv> \<lambda>_. ret ()"

lemma sticky_client:
  "keeps stuck (client_begin P) any"
  "keeps stuck (client_turn P (ftp_table P) tmo) any"
  by (intro framing stuck.frame_client_turn stuck.frame_dispatch UNIV_I)+

lemma sticky_thread:
  "keeps stuck (transfer_rest P idle fuel) any"
  "keeps stuck (session_destroy P (join_transfer P idle fuel)) any"
  by (intro framing stuck.frame_destroy stuck.frame_join stuck.frame_thread UNIV_I)+

section \<open>A client's thread takes steps of the process\<close>

text \<open>What the transfer thread of a session does between two commands, when it is scheduled: it begins,
  or it works to its end.\<close>

definition transfer_turn :: "'w posix \<Rightarrow> nat \<Rightarrow> bool \<Rightarrow> ('w, unit) sys_m" where
  "transfer_turn P fuel scheduled =
     (if \<not> scheduled then ret ()
      else do {
        st \<leftarrow> sget s_transfer_thread_state;
        if st = TRANSFER_THREAD_STARTING then transfer_begin
        else if st = TRANSFER_THREAD_RUNNING then do {
          ended \<leftarrow> transfer_rest P idle fuel;
          if ended then ret () else give_up }
        else ret () })"

lemma sticky_transfer_turn: "keeps stuck (transfer_turn P fuel b) any"
  unfolding transfer_turn_def by (intro framing sticky_thread)

lemma sticky_client_loop:
  "keeps stuck (client_loop P (ftp_table P) tmo running (\<lambda>k. transfer_turn P n (sched k)) i fuel) any"
  by (induction fuel arbitrary: i) (auto intro!: framing sticky_transfer_turn sticky_client)

text \<open>The process with a session of its \<open>i\<close>-th client put back.\<close>

definition place :: "nat \<Rightarrow> client_phase \<Rightarrow> 'w sys \<Rightarrow> 'w server \<Rightarrow> 'w server" where
  "place i ph s v = set_client i (Some \<lparr>cl_phase = ph, cl_session = sess s\<rparr>) (session_put s v)"

lemma place_fields [simp]:
  "sv_running (place i ph s v) = sv_running v" "sv_handlers (place i ph s v) = sv_handlers v"
  "sv_config (place i ph s v) = sv_config v" "stuck (place i ph s v) = stuck s"
  "length (sv_clients (place i ph s v)) = length (sv_clients v)"
  "i < length (sv_clients v) \<Longrightarrow> sv_clients (place i ph s v) ! i = Some \<lparr>cl_phase = ph, cl_session = sess s\<rparr>"
  by (simp_all add: place_def set_client_def session_put_def)

lemma view_place: "session_view (sess s) (place i ph s v) = s"
  by (simp add: place_def set_client_def session_put_def session_view_def)

lemma put_place: "set_client i (Some \<lparr>cl_phase = ph', cl_session = sess s'\<rparr>) (session_put s' (place i ph s v)) = place i ph' s' v"
  by (simp add: place_def set_client_def session_put_def)

lemma run_place:
  "run_state m s = (a, s') \<Longrightarrow> run_state (in_session (sess s) m) (place i ph s v) = ((a, sess s'), session_put s' (place i ph s v))"
  by (simp add: in_session_def view_place)

lemma stuck_put [simp]: "stuck (session_put s v) = stuck s"
  by (simp add: session_put_def)

abbreviation steps :: "'w posix \<Rightarrow> 'w server \<Rightarrow> 'w server \<Rightarrow> bool" where
  "steps P \<equiv> (\<lambda>v v'. \<exists>e. server_step P v e v')\<^sup>*\<^sup>*"

lemma one_step: "server_step P v e v' \<Longrightarrow> steps P v v'"
  by blast

lemma step_begin:
  assumes "i < length (sv_clients v)" "run_state (client_begin P) s = (ok, s')" "\<not> stuck s'"
  shows "steps P (place i Greeting s v) (place i (if ok then Serving else Leaving) s' v)"
  using one_step [OF server_step.greet [OF _ place_fields(6) run_place [OF assms(2)]]] assms
  by (simp only: put_place place_fields stuck_put) simp

lemma step_turn:
  assumes "i < length (sv_clients v)" "sv_running v" "\<not> s_should_quit (sess s)"
    and "run_state (client_turn P (sv_handlers v) (cfg_command_timeout_ms (sv_config v))) s = (r, s')" "\<not> stuck s'"
  shows "steps P (place i Serving s v) (place i (if r = Hung_up then Leaving else Serving) s' v)"
proof -
  have "run_state (in_session (sess s) (client_turn P (sv_handlers (place i Serving s v))
      (cfg_command_timeout_ms (sv_config (place i Serving s v))))) (place i Serving s v) =
      ((r, sess s'), session_put s' (place i Serving s v))"
    using run_place [OF assms(4)] by simp
  from one_step [OF server_step.turn [OF _ place_fields(6) _ _ this]] assms show ?thesis
    by (simp only: put_place place_fields stuck_put) simp
qed

lemma step_out:
  assumes "i < length (sv_clients v)" "s_should_quit (sess s)"
  shows "steps P (place i Serving s v) (place i Leaving s v)"
proof -
  have "set_client i (Some \<lparr>cl_phase = Leaving, cl_session = sess s\<rparr>) (place i Serving s v) = place i Leaving s v"
    by (simp add: place_def set_client_def session_put_def)
  with server_step.loop_out [OF _ place_fields(6) disjI1, OF _ assms(1,2)] assms(1) show ?thesis
    by (metis one_step place_fields(5))
qed

lemma step_transfer:
  assumes "i < length (sv_clients v)" "run_state (transfer_turn P fuel b) s = ((), s')" "\<not> stuck s'"
  shows "steps P (place i ph s v) (place i ph s' v)"
proof -
  consider "s' = s" | "s_transfer_thread_state (sess s) = TRANSFER_THREAD_STARTING" "run_state transfer_begin s = ((), s')"
    | "s_transfer_thread_state (sess s) = TRANSFER_THREAD_RUNNING" "run_state (transfer_rest P idle fuel) s = (True, s')"
    using assms(2,3) by (auto simp: transfer_turn_def sget_def give_up_def case_prod_beta prod_eq_iff split: if_splits)
  then show ?thesis
  proof cases
    case 2
    from one_step [OF server_step.transfer_begin [OF _ place_fields(6) 2(1) run_place [OF 2(2)]]] assms(1)
    show ?thesis by (simp only: put_place place_fields)
  next
    case 3
    from one_step [OF server_step.transfer_end [OF _ place_fields(6) 3(1) calm_idle run_place [OF 3(2)]]] assms(1,3)
    show ?thesis by (simp only: put_place place_fields stuck_put) simp
  qed simp
qed

lemma loop_steps:
  assumes i: "i < length (sv_clients v)" and v: "sv_running v" "sv_handlers v = ftp_table P"
    and run: "run_state (client_loop P (sv_handlers v) (cfg_command_timeout_ms (sv_config v)) (\<lambda>_. True)
      (\<lambda>k. transfer_turn P n (sched k)) k fuel) s = (True, s')" and s': "\<not> stuck s'"
  shows "steps P (place i Serving s v) (place i Leaving s' v)"
  using run
proof (induction fuel arbitrary: k s)
  case (Suc fuel)
  obtain s1 where s1: "run_state (transfer_turn P n (sched k)) s = ((), s1)" by (cases "run_state (transfer_turn P n (sched k)) s") simp
  show ?case
  proof (cases "s_should_quit (sess s1)")
    case True
    with Suc.prems s1 have "s' = s1" by (simp add: sget_def)
    with step_transfer [OF i s1] step_out [OF i True] s' show ?thesis by (blast intro: rtranclp_trans)
  next
    case False
    obtain r s2 where s2: "run_state (client_turn P (sv_handlers v) (cfg_command_timeout_ms (sv_config v))) s1 = (r, s2)" by fastforce
    from Suc.prems s1 s2 False have rest: "if r = Hung_up then s' = s2
        else run_state (client_loop P (sv_handlers v) (cfg_command_timeout_ms (sv_config v)) (\<lambda>_. True)
          (\<lambda>k. transfer_turn P n (sched k)) (k + 1) fuel) s2 = (True, s')"
      by (simp add: sget_def split: if_splits)
    have "\<not> stuck s2"
      using rest s' keeps_snd [OF sticky_client_loop, of s2 P "cfg_command_timeout_ms (sv_config v)" "\<lambda>_. True" n sched "k + 1" fuel]
      by (auto simp: v split: if_splits)
    moreover from this have "\<not> stuck s1"
      using keeps_snd [OF sticky_client(2), of s1 P "cfg_command_timeout_ms (sv_config v)"] s2 by (auto simp: v)
    ultimately have "steps P (place i Serving s v) (place i (if r = Hung_up then Leaving else Serving) s2 v)"
      using step_transfer [OF i s1] step_turn [OF i v(1) False s2] by (blast intro: rtranclp_trans)
    with rest Suc.IH show ?thesis by (auto split: if_splits intro: rtranclp_trans)
  qed
qed simp

lemma step_leave:
  assumes "i < length (sv_clients v)" "run_state (session_destroy P (join_transfer P idle n)) s = ((), s')" "\<not> stuck s'"
  shows "steps P (place i Leaving s v) (set_client i None (snd (run_state forget_connection (session_put s' v))))"
proof -
  have eq: "set_client i None (snd (run_state forget_connection (session_put s' v))) =
      snd (run_state forget_connection (set_client i None (session_put s' (place i Leaving s v))))"
    by (simp add: place_def set_client_def session_put_def forget_connection_def)
  show ?thesis
    unfolding eq
    by (rule one_step, rule server_step.leave [OF _ place_fields(6) calm_idle run_place [OF assms(2)]]) (simp_all add: assms)
qed

lemma place_view:
  assumes "i < length (sv_clients v)" "sv_clients v ! i = Some \<lparr>cl_phase = ph, cl_session = s\<rparr>"
  shows "place i ph (session_view s v) v = v"
  using assms list_update_id [of "sv_clients v" i] by (simp add: place_def set_client_def session_put_def session_view_def)

lemma session_steps:
  assumes i: "i < length (sv_clients v)" and v: "sv_running v" "sv_handlers v = ftp_table P"
    and run: "run_state (client_session P (sv_handlers v) (cfg_command_timeout_ms (sv_config v)) (\<lambda>_. True)
      (\<lambda>k. transfer_turn P n (sched k)) (join_transfer P idle m) fuel) s = (True, s')" and s': "\<not> stuck s'"
  shows "steps P (place i Greeting s v) (set_client i None (snd (run_state forget_connection (session_put s' v))))"
proof -
  let ?loop = "client_loop P (sv_handlers v) (cfg_command_timeout_ms (sv_config v)) (\<lambda>_. True) (\<lambda>k. transfer_turn P n (sched k)) 0 fuel"
  obtain ok s1 where s1: "run_state (client_begin P) s = (ok, s1)" by fastforce
  obtain s2 where s2: "if ok then run_state ?loop s1 = (True, s2) else s2 = s1"
      "run_state (session_destroy P (join_transfer P idle m)) s2 = ((), s')"
    using run s1 by (cases ok) (auto simp: client_session_def case_prod_beta prod_eq_iff split: if_splits)
  have n2: "\<not> stuck s2" using keeps_snd [OF sticky_thread(2), of s2 P m] s2(2) s' by auto
  then have n1: "\<not> stuck s1"
    using keeps_snd [OF sticky_client_loop, of s1 P "cfg_command_timeout_ms (sv_config v)" "\<lambda>_. True" n sched 0 fuel] s2(1)
    by (auto simp: v split: if_splits)
  have "steps P (place i Greeting s v) (place i Leaving s2 v)"
    using step_begin [OF i s1 n1] loop_steps [OF i v _ n2] s2(1) by (cases ok) (auto intro: rtranclp_trans)
  then show ?thesis by (rule rtranclp_trans) (rule step_leave [OF i s2(2) s'])
qed

text \<open>
  C25: the thread of a client is made of steps of the process. Whatever its client sends and however its
  transfer thread is scheduled between the commands: a run of \<open>client_thread\<close> to its end is a
  sequence of steps from the process with the new client to the process without it.
\<close>

theorem client_thread_steps:
  assumes "i < length (sv_clients v)" "sv_clients v ! i = Some \<lparr>cl_phase = Greeting, cl_session = s\<rparr>"
    and "sv_running v" "sv_handlers v = ftp_table P"
    and "run_state (client_thread P (\<lambda>_. True) (\<lambda>k. transfer_turn P n (sched k)) (join_transfer P (\<lambda>_. ret ()) m) fuel s) v = (True, v')"
    and "\<not> stuck v'"
  shows "(\<lambda>v v'. \<exists>e. server_step P v e v')\<^sup>*\<^sup>* v (set_client i None v')"
proof -
  obtain s' where s': "run_state (client_session P (sv_handlers v) (cfg_command_timeout_ms (sv_config v)) (\<lambda>_. True)
      (\<lambda>k. transfer_turn P n (sched k)) (join_transfer P idle m) fuel) (session_view s v) = (True, s')"
    "v' = snd (run_state forget_connection (session_put s' v))"
    using assms(5) by (auto simp: client_thread_def in_session_def case_prod_beta prod_eq_iff split: if_splits)
  have "\<not> stuck s'" using assms(6) s'(2) by (simp add: forget_connection_def)
  from session_steps [OF assms(1,3,4) s'(1) this] s'(2) show ?thesis
    using place_view [OF assms(1,2)] by simp
qed

text \<open>An instance: the client of \<open>demo_client\<close>, which hangs up after the greeting.\<close>

lemma plain_send: "data \<noteq> [] \<Longrightarrow> run_state (net_send_all plain_posix fd data) s = (0, s\<lparr>trace := trace s @ [Ev_send fd data]\<rparr>)"
proof -
  have "run_state (net_send plain_posix fd data) s = (Inr (length data), s\<lparr>trace := trace s @ [Ev_send fd data]\<rparr>)"
    by (simp add: net_send_def sys_send_def run_os) (simp add: plain_posix_def emit_def)
  moreover have "run_state (net_send_all plain_posix fd []) s' = (0, s')" for s' :: "('a, 'b) os_scheme"
    by (subst net_send_all.simps) simp
  ultimately show "data \<noteq> [] \<Longrightarrow> ?thesis" by (subst net_send_all.simps) simp
qed

lemma greeting: "proto_format_response PROTO_MAX_RESPONSE_LINE PROTO_RESP_SERVICE_READY ''FTP Server Ready'' =
    Some (''220 FTP Server Ready'' @ [CR, LF])"
  by code_simp

lemma plain_os:
  "px_setsockopt plain_posix = (\<lambda>_ _ _. ret True)" "px_sockatmark plain_posix = (\<lambda>_. ret 0)"
  "px_select plain_posix = (\<lambda>_ _ _. ret 1)" "px_recv plain_posix = (\<lambda>_ _. ret (Inr []))"
  "px_shutdown plain_posix = (\<lambda>_ _. ret True)" "px_close plain_posix = (\<lambda>_. ret ())"
  by (simp_all add: plain_posix_def)

lemma plain_hangs_up:
  "fst (run_state (client_begin plain_posix) s)" "stuck (snd (run_state (client_begin plain_posix) s)) = stuck s"
  "sess (snd (run_state (client_begin plain_posix) s)) = sess s"
  "fst (run_state (client_turn plain_posix h t) s) = Hung_up" "stuck (snd (run_state (client_turn plain_posix h t) s)) = stuck s"
  "sess (snd (run_state (client_turn plain_posix h t) s)) = sess s"
  by (simp_all add: client_begin_def client_turn_def session_send_response_def greeting plain_send run_abort
      net_set_oob_inline_def net_has_urgent_data_def net_receive_line_def net_wait_readable_def net_receive_def sys_recv_def
      run_os plain_os emit_def numeral_eq_Suc)

lemma plain_destroy:
  assumes "\<not> s_transfer_thread (sess s)" "s_data_socket (sess s) = INVALID_SOCKET_T" "s_data_listen_socket (sess s) = INVALID_SOCKET_T"
  shows "stuck (snd (run_state (session_destroy plain_posix join) s)) = stuck s"
  using assms
  by (simp add: session_destroy_def session_close_data_connection_def run_abort smod_def net_close_socket_def run_calls plain_os)

lemma client_thread_steps_witness:
  "\<exists>v'. (\<lambda>v v'. \<exists>e. server_step plain_posix v e v')\<^sup>*\<^sup>* demo_client (set_client 0 None v')"
proof -
  let ?s = "(session_reset_state zero_session)\<lparr>s_control_socket := 5, s_client_ip := ''10.0.0.9'', s_client_port := 4000\<rparr>"
  let ?R = "run_state (client_thread plain_posix (\<lambda>_. True) (\<lambda>k. transfer_turn plain_posix 0 False)
    (join_transfer plain_posix (\<lambda>_. ret ()) 0) 1 ?s) demo_client"
  have s: "\<not> s_transfer_thread ?s" "s_data_socket ?s = INVALID_SOCKET_T" "s_data_listen_socket ?s = INVALID_SOCKET_T" "\<not> s_should_quit ?s"
    by (simp_all add: session_reset_state_def zero_session_def)
  have "fst ?R \<and> \<not> stuck (snd ?R)"
    using s by (simp add: client_thread_def client_session_def in_session_def case_prod_beta plain_hangs_up transfer_turn_def
        run_abort forget_connection_def plain_destroy session_view_def demo_accepts(2))
  then obtain v' where r: "?R = (True, v')" "\<not> stuck v'" by (cases ?R) auto
  have "server_inv plain_posix demo_client"
    using demo_reaches init_reaches_inv [OF demo_started(1)] by blast
  then have "sv_handlers demo_client = ftp_table plain_posix" by (simp add: server_inv_def)
  then show ?thesis
    using client_thread_steps [OF _ _ demo_accepts(3) _ r, of 0] by (auto simp: demo_accepts(1))
qed

end
