(* ===== verification/Server_Isolation.thy ===== *)
theory Server_Isolation
  imports Threads
begin

text \<open>
  Isolation of the transfers: while a client downloads or uploads a file, no other thread of the
  process deletes the file, opens it for writing, or renames it.
\<close>

section \<open>The thread of a transfer\<close>

text \<open>A transfer whose file is not \<open>f\<close>, or which only reads it.\<close>

definition avoids :: "string \<Rightarrow> transfer_params_t option \<Rightarrow> bool" where
  "avoids f p \<longleftrightarrow> (\<forall>tp. p = Some tp \<longrightarrow> tp_operation tp = TRANSFER_OP_RECV_FILE \<longrightarrow> tp_filepath tp \<noteq> f)"

lemma leads_work:
  assumes "calm_env env" "busy f v" "avoids f (Some tp)"
  shows "leads (\<lambda>s. calm v (TRANSFER_THREAD_RUNNING, Some tp, True) root s \<and> untouched f tr0 s)
    (do { r \<leftarrow> run_transfer P env fuel tp;
          (case r of None \<Rightarrow> ret False | Some result \<Rightarrow> finish_transfer P tp result) }) (\<lambda>_. untouched f tr0)"
proof (rule leads_bind)
  show "keeps (\<lambda>s. calm v (TRANSFER_THREAD_RUNNING, Some tp, True) root s \<and> untouched f tr0 s) (run_transfer P env fuel tp) any"
    using assms by (intro isolate_transfer) (simp_all add: consistent_def avoids_def)
  fix r
  show "leads (\<lambda>s. calm v (TRANSFER_THREAD_RUNNING, Some tp, True) root s \<and> untouched f tr0 s)
      (case r of None \<Rightarrow> ret False | Some result \<Rightarrow> finish_transfer P tp result) (\<lambda>_. untouched f tr0)"
    by (intro isolate_end framing)
qed

lemma isolate_rest:
  assumes t: "consistent t" and env: "calm_env env" and f: "busy f v" "avoids f (fst (snd t))"
  shows "leads (\<lambda>s. calm v t root s \<and> untouched f tr0 s) (transfer_rest P env fuel) (\<lambda>_. untouched f tr0)"
  unfolding leads_def
proof (intro allI impI, elim conjE)
  fix s :: "'a sys" assume c: "calm v t root s" and u: "untouched f tr0 s"
  have tr: "s_transfer_thread_state (sess s) = fst t" "s_transfer_params (sess s) = fst (snd t)"
    using c by (auto simp: calm_def steady_def transfer_of_def)
  from t consider (idle) "fst t = TRANSFER_THREAD_IDLE"
    | (starting) tp where "t = (TRANSFER_THREAD_STARTING, Some tp, True)"
    | (running) tp where "t = (TRANSFER_THREAD_RUNNING, Some tp, True)"
    by (cases t; cases "fst t") (auto simp: consistent_def)
  then show "untouched f tr0 (snd (run_state (transfer_rest P env fuel) s))"
  proof cases
    case idle
    with tr u show ?thesis by (simp add: transfer_rest_def sget_def)
  next
    case starting
    note s1 = thread_begins [OF c [unfolded starting]]
    from starting tr f(2) have "avoids f (Some tp)" "s_transfer_params (sess s) = Some tp" by simp_all
    from leadsD [OF leads_work [OF env f(1) this(1), of root tr0 P fuel], OF conjI [OF s1]] untouched.sess_free [OF u]
    show ?thesis using tr starting by (simp add: transfer_rest_def sget_def run_thread_func)
  next
    case running
    with f(2) have "avoids f (Some tp)" by simp
    from leadsD [OF leads_work [OF env f(1) this, of root tr0 P fuel], OF conjI [OF c [unfolded running] u]]
    show ?thesis using tr running by (simp add: transfer_rest_def sget_def)
  qed
qed

text \<open>The end of a session, which waits for its transfer.\<close>

lemma isolate_destroy:
  assumes t: "consistent t" and env: "calm_env env" and f: "busy f v" "avoids f (fst (snd t))"
  shows "leads (\<lambda>s. calm v t root s \<and> untouched f tr0 s) (session_destroy P (join_transfer P env fuel)) (\<lambda>_. untouched f tr0)"
proof -
  have q: "keeps (calm v t root) (smod (\<lambda>s. s\<lparr>s_should_quit := True\<rparr>)) any"
    by (rule calm_smod) (simp_all add: transfer_of_def sess_inv_simps)
  have join: "leads (\<lambda>s. calm v t root s \<and> untouched f tr0 s) (join_transfer P env fuel) (\<lambda>_. untouched f tr0)"
    unfolding join_transfer_def
    by (rule leads_seq [OF isolate_rest [OF assms]]) (simp add: keeps_leads [symmetric] framing)
  have after: "leads (untouched f tr0) (smod g) (\<lambda>_. untouched f tr0)"
    "leads (untouched f tr0) (do {
       c \<leftarrow> sget s_control_socket;
       (if c \<noteq> INVALID_SOCKET_T then do {
          net_close_socket P c;
          smod (\<lambda>s. s\<lparr>s_control_socket := INVALID_SOCKET_T\<rparr>) } else ret ()) }) (\<lambda>_. untouched f tr0)" for g
    unfolding keeps_leads [symmetric] by (intro framing)+
  show ?thesis
    unfolding session_destroy_def
    by (rule isolate_bind [OF q] isolate_bind [OF calm_close_data] isolate_bind [OF calm_basic(3)]
        leads_seq [where J = "\<lambda>_. untouched f tr0"] leads_if join isolate_end after framing)+
qed

text \<open>A turn of the command loop.\<close>

lemma isolate_turn:
  assumes "busy f v"
  shows "leads (\<lambda>s. calm v t root s \<and> untouched f tr0 s) (client_turn P (ftp_table P) tmo) (\<lambda>_. untouched f tr0)"
proof -
  have d: "leads (\<lambda>s. calm v t root s \<and> untouched f tr0 s) (cmd_dispatch (ftp_table P) cmd) (\<lambda>_. untouched f tr0)" for cmd
    using isolate_dispatch [OF assms, of t tr0 P cmd] by (auto simp: leads_def calm_def)
  have r: "leads (untouched f tr0) (do {
      (if r \<noteq> 0 \<and> \<not> cmd_is_registered (ftp_table P) (command cmd) then do {
         session_send_response P PROTO_RESP_COMMAND_NOT_IMPL ''Command not implemented''; ret () }
       else ret ());
      ret (Did cmd) }) (\<lambda>_. untouched f tr0)" for cmd r
    unfolding keeps_leads [symmetric] by (intro framing)
  show ?thesis
    unfolding client_turn_def
    by (intro isolate_bind leads_prod leads_if leads_option leads_seq [OF d] r calming isolate_end framing)
qed

section \<open>The accept loop\<close>

lemma isolate_in_session:
  assumes "\<And>x :: 'w sys. untouched f tr0 x \<Longrightarrow> untouched f tr0 (snd (run_state m x))"
  shows "keeps (untouched f tr0 :: 'w server \<Rightarrow> bool) (in_session s m) any"
proof (rule keepsI)
  fix v :: "'w server" assume "untouched f tr0 v"
  then have "untouched f tr0 (session_view s v)" by (simp add: untouched_def session_view_def)
  from assms [OF this] show "untouched f tr0 (snd (run_state (in_session s m) v)) \<and> True"
    by (simp add: run_in_session untouched_def session_put_def)
qed

lemma isolate_modify: "(\<And>v. trace (g v) = trace v) \<Longrightarrow> keeps (untouched f tr0) (modify g :: ('w, unit) server_m) any"
  by (rule keeps_modify) (simp add: untouched_def)

lemma isolate_server:
  "keeps (untouched f tr0) (accept_turn P) any" "keeps (untouched f tr0) (server_stop P) any"
proof -
  have admit: "keeps (untouched f tr0 :: 'w server \<Rightarrow> bool) admit any"
    by (auto simp: keeps_def admit_def untouched_def)
  have create: "keeps (untouched f tr0) (session_create P fd ip port r b :: ('w, session_t option) server_m) any" for fd ip port r b P
    unfolding session_create_def Let_def by (intro framing)
  have destroy: "keeps (untouched f tr0 :: 'w server \<Rightarrow> bool) (in_session s (session_destroy P (ret ()))) any" for s P
    by (intro isolate_in_session keeps_snd [OF untouched.frame_destroy] framing)
  show "keeps (untouched f tr0) (accept_turn P) any"
    unfolding accept_turn_def forget_connection_def by (intro framing admit create destroy isolate_modify) simp_all
  show "keeps (untouched f tr0) (server_stop P) any"
    unfolding server_stop_def by (intro framing isolate_modify) simp_all
qed

section \<open>The process\<close>

text \<open>The transfers of a file, as the lock table counts them.\<close>

lemma transfers_two:
  assumes "i < length cs" "j < length cs" "i \<noteq> j" "transfer_on k p (cs ! i) = 1" "transfer_on k p (cs ! j) = 1"
  shows "transfers_on k p cs \<ge> 2"
  using transfers_update [OF assms(1), of k p None] transfers_member [of j "cs[i := None]" k p] assms by simp

lemma transfers_locked:
  assumes "server_inv P v" "i < length (sv_clients v)" "sv_clients v ! i = Some c" "s_transfer_params (cl_session c) = Some tp"
    and "tp_operation tp \<in> {TRANSFER_OP_SEND_FILE, TRANSFER_OP_RECV_FILE}"
  shows "busy (tp_filepath tp) (lock_view (sv_locks v))"
    "j < length (sv_clients v) \<Longrightarrow> sv_clients v ! j = Some d \<Longrightarrow> tp_operation tp = TRANSFER_OP_SEND_FILE \<or> j \<noteq> i \<Longrightarrow>
     avoids (tp_filepath tp) (s_transfer_params (cl_session d))"
proof -
  let ?f = "tp_filepath tp" and ?cs = "sv_clients v"
  have l: "wf_locks (sv_locks v)" "lock_view (sv_locks v) ?f =
      (transfers_on TRANSFER_OP_SEND_FILE ?f ?cs, transfers_on TRANSFER_OP_RECV_FILE ?f ?cs, 0)"
    using assms(1) by (simp_all add: server_inv_def locks_ok_def)
  have on: "transfer_on (tp_operation tp) ?f (?cs ! i) = 1" using assms(3,4) by (simp add: transfer_on_def)
  then have "transfers_on (tp_operation tp) ?f ?cs \<ge> 1" using transfers_member [OF assms(2), of "tp_operation tp" ?f] by simp
  then show "busy ?f (lock_view (sv_locks v))" using l(2) assms(5) by (auto simp: busy_def lockable_def)
  assume j: "j < length ?cs" "?cs ! j = Some d" "tp_operation tp = TRANSFER_OP_SEND_FILE \<or> j \<noteq> i"
  show "avoids ?f (s_transfer_params (cl_session d))"
    unfolding avoids_def
  proof (intro allI impI notI)
    fix q assume q: "s_transfer_params (cl_session d) = Some q" "tp_operation q = TRANSFER_OP_RECV_FILE" "tp_filepath q = ?f"
    then have up: "transfer_on TRANSFER_OP_RECV_FILE ?f (?cs ! j) = 1" using j(2) by (simp add: transfer_on_def)
    then have "transfers_on TRANSFER_OP_RECV_FILE ?f ?cs \<ge> 1"
      using transfers_member [OF j(1), of TRANSFER_OP_RECV_FILE ?f] by simp
    with lock_view_wf(1,2) [OF l] \<open>transfers_on (tp_operation tp) ?f ?cs \<ge> 1\<close> assms(5)
    have "tp_operation tp = TRANSFER_OP_RECV_FILE" "transfers_on TRANSFER_OP_RECV_FILE ?f ?cs \<le> 1" by auto
    with transfers_two [OF assms(2) j(1) _ _ up] on j(3) show False by auto
  qed
qed

lemma untouched_put: "untouched f tr0 y \<Longrightarrow> untouched f tr0 (set_client i c (session_put y v))"
  by (simp add: untouched_def set_client_def session_put_def)

lemma view_untouched: "untouched f (trace v) (session_view s v)" "untouched f (trace v) v"
  by (simp_all add: untouched_def session_view_def)

lemma isolate_step:
  assumes step: "server_step P v e v'" and inv: "server_inv P v"
    and i: "i < length (sv_clients v)" "sv_clients v ! i = Some c" "s_transfer_params (cl_session c) = Some tp"
    and op: "tp_operation tp \<in> {TRANSFER_OP_SEND_FILE, TRANSFER_OP_RECV_FILE}"
    and own: "tp_operation tp = TRANSFER_OP_SEND_FILE \<or> e \<noteq> Transfer_ended i \<and> e \<noteq> Left i"
  shows "untouched (tp_filepath tp) (trace v) v'" (is "untouched ?f _ _")
  using step
proof (cases rule: server_step.cases)
  case accept
  have "untouched ?f (trace v) (snd (run_state (accept_turn P) v))"
    by (rule keeps_snd [OF isolate_server(1)]) (rule view_untouched)
  with accept show ?thesis by simp
next
  case (greet j s ok s' v1)
  note r = in_sessionD [OF greet(5)]
  have "untouched ?f (trace v) (snd (run_state (client_begin P) (session_view s v)))"
    by (rule keeps_snd [OF untouched.frame_client_begin]) (rule view_untouched)
  with greet(2) r show ?thesis by (simp add: untouched_put)
next
  case (turn j s r s' v1)
  note r = in_sessionD [OF turn(7)]
  have h: "sv_handlers v = ftp_table P" using inv by (simp add: server_inv_def)
  from leadsD [OF isolate_turn [OF transfers_locked(1) [OF inv i op]] conjI [OF client_calm(1) [OF inv turn(3,4)] view_untouched(1)]]
    turn(2) r show ?thesis by (simp add: untouched_put h)
next
  case (loop_out j s)
  with view_untouched(2) show ?thesis by (simp add: untouched_def set_client_def)
next
  case (transfer_begin j ph s s' v1)
  note r = in_sessionD [OF transfer_begin(6)]
  have "untouched ?f (trace v) (snd (run_state transfer_begin (session_view s v)))"
    by (rule keeps_snd [OF untouched.frame_transfer_begin]) (rule view_untouched)
  with transfer_begin(2) r show ?thesis by (simp add: untouched_put)
next
  case (transfer_end j ph s env fuel s' v1)
  note c = client_calm [OF inv transfer_end(3,4)]
  note r = in_sessionD [OF transfer_end(7)]
  from transfers_locked(2) [OF inv i op transfer_end(3,4)] own transfer_end(1)
  have "avoids (tp_filepath tp) (fst (snd (transfer_of s)))" by (auto simp: transfer_of_simps)
  from leadsD [OF isolate_rest [OF c(2) transfer_end(6) transfers_locked(1) [OF inv i op] this] conjI [OF c(1) view_untouched(1)]]
    transfer_end(2) r show ?thesis by (simp add: untouched_put)
next
  case (leave j s env fuel s' v1)
  note c = client_calm [OF inv leave(3,4)]
  note r = in_sessionD [OF leave(6)]
  from transfers_locked(2) [OF inv i op leave(3,4)] own leave(1)
  have "avoids (tp_filepath tp) (fst (snd (transfer_of s)))" by (auto simp: transfer_of_simps)
  from leadsD [OF isolate_destroy [OF c(2) leave(5) transfers_locked(1) [OF inv i op] this] conjI [OF c(1) view_untouched(1)]]
    leave(2) r show ?thesis by (simp add: untouched_def forget_connection_def set_client_def session_put_def)
next
  case stop
  have "untouched ?f (trace v) (snd (run_state (server_stop P) v))"
    by (rule keeps_snd [OF isolate_server(2)]) (rule view_untouched)
  with stop show ?thesis by simp
qed

text \<open>
  C3: isolation of the transfers. In a state of the process in which a client downloads or uploads a
  file, from the command that starts the transfer to the end of its thread: no step of the process
  deletes this file, opens it for writing or renames it, except the upload's own thread. A step is a
  command, a greeting, a whole transfer or the end of a session, of any client. The state is
  any that satisfies the invariant of the process, such as every state that the started server
  reaches (\<open>init_reaches_inv\<close>). (The locks are by path: a command can rename a directory above the
  file, and rename another file onto a path whose upload has not created it yet.)
\<close>

theorem transfer_isolated:
  assumes "server_inv P v" "i < length (sv_clients v)" "sv_clients v ! i = Some c"
    and "s_transfer_params (cl_session c) = Some tp" "tp_operation tp \<in> {TRANSFER_OP_SEND_FILE, TRANSFER_OP_RECV_FILE}"
    and "server_step P v e v'" "tp_operation tp = TRANSFER_OP_SEND_FILE \<or> e \<noteq> Transfer_ended i \<and> e \<noteq> Left i"
  shows "\<exists>tr. trace v' = trace v @ tr \<and> (\<forall>x\<in>set tr.
     x \<noteq> Ev_path Op_unlink (tp_filepath tp) \<and> (\<forall>k. k \<noteq> O_read \<longrightarrow> x \<noteq> Ev_path (Op_open k) (tp_filepath tp)) \<and>
     (\<forall>q. x \<noteq> Ev_rename (tp_filepath tp) q))"
  using isolate_step [OF assms(6,1-5,7)] by (auto simp: untouched_def modifies_def)

text \<open>An instance: the client of \<open>demo_client\<close> downloads a file, and hangs up.\<close>

definition download_params :: transfer_params_t where
  "download_params = \<lparr>tp_operation = TRANSFER_OP_SEND_FILE, tp_filepath = ''/srv/f'', tp_offset = 0,
     tp_type = PROTO_TYPE_BINARY, tp_lock_acquired = True\<rparr>"

definition download_session :: session_t where
  "download_session = plain_session\<lparr>s_root_dir := ''/srv'', s_transfer_thread := True,
     s_transfer_thread_state := TRANSFER_THREAD_STARTING, s_transfer_params := Some download_params\<rparr>"

definition demo_download :: "unit server" where
  "demo_download = demo_start\<lparr>sv_clients := [Some \<lparr>cl_phase = Serving, cl_session = download_session\<rparr>],
     sv_connections := 1, sv_locks := snd (file_lock_try_acquire_shared True ''/srv/f'' [])\<rparr>"

lemma download_locked:
  "wf_locks (snd (file_lock_try_acquire_shared True ''/srv/f'' []))"
  "lock_view (snd (file_lock_try_acquire_shared True ''/srv/f'' [])) = (\<lambda>p. if p = ''/srv/f'' then (1, 0, 0) else (0, 0, 0))"
proof -
  have "fst (file_lock_try_acquire_shared True ''/srv/f'' []) = 0" by code_simp
  then show "wf_locks (snd (file_lock_try_acquire_shared True ''/srv/f'' []))"
    "lock_view (snd (file_lock_try_acquire_shared True ''/srv/f'' [])) = (\<lambda>p. if p = ''/srv/f'' then (1, 0, 0) else (0, 0, 0))"
    using flk.try_shared [of "[]" "''/srv/f''" 0 0 0 True 0 "snd (file_lock_try_acquire_shared True ''/srv/f'' [])"]
    by (auto simp: prod_eq_iff fun_eq_iff wf_locks_def lock_view_def)
qed

lemma demo_download_inv: "server_inv plain_posix demo_download"
proof -
  have "started plain_posix config0 demo_start"
    using init_started [OF refl, of plain_posix config0 "()"] demo_started by simp
  moreover have "inside ''/srv'' ''/srv/f''"
    unfolding inside_def by (intro exI [of _ "''/f''"]) (simp add: contains_def)
  then have "client_ok \<lparr>cl_phase = Serving, cl_session = download_session\<rparr>"
    by (simp add: client_ok_def download_session_def download_params_def plain_session_def session_reset_state_def
        zero_session_def sess_inv_def buffers_fit_def SESSION_MAX_PATH_def SESSION_MAX_USERNAME_def consistent_def transfer_of_def)
  moreover have "locks_ok (sv_locks demo_download) (sv_clients demo_download)"
    using download_locked
    by (simp add: locks_ok_def demo_download_def transfers_on_def transfer_on_def download_session_def download_params_def)
  ultimately show ?thesis
    by (simp add: server_inv_def demo_download_def started_def live_def config0_def)
qed

lemma transfer_isolated_witness:
  "\<exists>v' tr. server_step plain_posix demo_download (Turned 0 Hung_up) v' \<and> trace v' = trace demo_download @ tr \<and>
     Ev_path Op_unlink ''/srv/f'' \<notin> set tr"
proof -
  obtain s' v1 where r: "run_state (in_session download_session (client_turn plain_posix (sv_handlers demo_download)
      (cfg_command_timeout_ms (sv_config demo_download)))) demo_download = ((Hung_up, s'), v1)" "\<not> stuck v1"
    using demo_started(2) by (simp add: run_in_session plain_hangs_up session_view_def demo_download_def)
  have "sv_running demo_download" "\<not> s_should_quit download_session"
    using init_started [OF refl, of plain_posix config0 "()"] demo_started
    by (simp_all add: started_def demo_download_def download_session_def plain_session_def session_reset_state_def zero_session_def)
  from server_step.turn [OF _ _ this(2,1) r, of 0] obtain v' where v': "server_step plain_posix demo_download (Turned 0 Hung_up) v'"
    by (auto simp: demo_download_def)
  from transfer_isolated [OF demo_download_inv _ _ _ _ v', of 0] v' show ?thesis
    by (fastforce simp: demo_download_def download_session_def download_params_def)
qed

end
