(* ===== verification/Behaviours.thy ===== *)
theory Behaviours
  imports Server_Safety
begin

text \<open>
  Behaviours of the composed components that a reader of the code may not expect. Each is what the
  code does; the ones that look unintended are listed as findings beside the development.
\<close>

section \<open>A home directory at the root\<close>

lemma strncat_prefix: "\<exists>t. strncat_buf n x y = x @ t"
  by (auto simp: strncat_buf_def)

lemma build_path_prefix: "\<exists>t. build_path n cs r = r @ t"
proof (induction n cs r rule: build_path.induct)
  case (2 n c cs r)
  obtain a where "strncat_buf n r ''/'' = r @ a" using strncat_prefix by blast
  moreover obtain b where "strncat_buf n (r @ a) c = (r @ a) @ b" using strncat_prefix by blast
  ultimately show ?case using 2 by (metis append.assoc build_path.simps(2))
qed simp

lemma normalized_second:
  assumes "normalize_and_validate_path base path SESSION_MAX_PATH = Some q" "length q > 1"
  shows "q ! 1 \<noteq> CHR ''/''"
proof -
  define temp0 where "temp0 = (if path \<noteq> [] \<and> hd path = CHR ''/'' then strncpy_buf SESSION_MAX_PATH path
                     else if base = ''/'' then snprintf_buf SESSION_MAX_PATH (''/'' @ path)
                     else snprintf_buf SESSION_MAX_PATH (base @ ''/'' @ path))"
  from assms(1) obtain temp where "proto_normalize_path temp0 SESSION_MAX_PATH = Some temp" and
    q: "q = (if resolve_components (strtok (CHR ''/'') temp) [] = [] then take SESSION_MAX_PATH ''/''
      else build_path SESSION_MAX_PATH (resolve_components (strtok (CHR ''/'') temp) []) [])"
    unfolding normalize_and_validate_path_def Let_def temp0_def [symmetric]
    by (cases "proto_normalize_path temp0 SESSION_MAX_PATH") (simp_all split: if_split_asm)
  obtain c cs where c: "resolve_components (strtok (CHR ''/'') temp) [] = c # cs"
    using q assms(2) by (cases "resolve_components (strtok (CHR ''/'') temp) []") (auto split: if_splits)
  then have "c \<in> set (strtok (CHR ''/'') temp)"
    using resolve_components_subset [of "strtok (CHR ''/'') temp" "[]"] by auto
  from strtok_free [OF this] obtain x xs where w: "c = x # xs" "x \<noteq> CHR ''/''" by (cases c) (simp_all, blast)
  have "strncat_buf SESSION_MAX_PATH (strncat_buf SESSION_MAX_PATH [] ''/'') c =
      CHR ''/'' # x # take (SESSION_MAX_PATH - 3) xs"
    by (simp add: strncat_buf_def w SESSION_MAX_PATH_def)
  then have "\<exists>t. q = (CHR ''/'' # x # take (SESSION_MAX_PATH - 3) xs) @ t"
    using q c build_path_prefix by (metis append_Cons build_path.simps(2) list.distinct(1))
  with w(2) show ?thesis by auto
qed

text \<open>
  A home directory \<open>/\<close> gives access to the root directory and to nothing in it. The check wants a
  slash behind the home directory, and in a normalised path there is none behind the first one. The
  anonymous account that the server sets up has this home directory.
\<close>

theorem root_home_allows_root_only:
  "path_access (s\<lparr>s_user_home_dir := ''/'', s_permissions := AUTH_PERM_READ, s_authenticated := True\<rparr>) p AUTH_PERM_READ \<longleftrightarrow>
   normalize_and_validate_path (s_current_dir s) p SESSION_MAX_PATH = Some ''/''"
proof -
  have p: "(AUTH_PERM_READ :: auth_permission_t) AND AUTH_PERM_ADMIN = 0" "(AUTH_PERM_READ :: auth_permission_t) AND AUTH_PERM_READ = AUTH_PERM_READ"
    by (simp_all add: AUTH_PERM_READ_def AUTH_PERM_ADMIN_def)
  show ?thesis
  proof (cases "normalize_and_validate_path (s_current_dir s) p SESSION_MAX_PATH")
    case None
    then show ?thesis by (simp add: path_access_def p)
  next
    case (Some q)
    have "take 1 q = ''/'' \<and> (length q = 1 \<or> q ! 1 = CHR ''/'') \<longleftrightarrow> q = ''/''"
      using normalized_second [OF Some] by (cases q; cases "tl q") auto
    with Some show ?thesis by (auto simp: path_access_def p Let_def)
  qed
qed

section \<open>Commands during a transfer\<close>

lemma run_rein:
  assumes "\<not> has_argument cmd"
  shows "sess (snd (run_state (cmd_handle_rein P cmd) s)) = session_reset_state (closed (sess s))"
    "locks (snd (run_state (cmd_handle_rein P cmd) s)) = locks s"
  using assms unfolding cmd_handle_rein_def
  by (simp_all add: case_prod_beta response_frame smod_def run_close_data)

lemma destroy_without_thread:
  assumes "\<not> s_transfer_thread (sess s)"
  shows "run_state (session_destroy P join1) s = run_state (session_destroy P join2) s"
  using assms unfolding session_destroy_def
  by (simp add: case_prod_beta smod_def sget_def run_close_data closed_def)

text \<open>
  C40: REIN during a transfer forgets the transfer. It leaves the session as if there were none, with
  the lock of the file still taken; a second transfer may start, and the destruction of the session
  does not wait for the first thread, which goes on working on the freed session.
\<close>

theorem rein_forgets_transfer:
  "case run_state (cmd_handle_rein P \<lparr>command = ''REIN'', argument = [], has_argument = False\<rparr>) s of (r, s') \<Rightarrow>
     transfer_of (sess s') = (TRANSFER_THREAD_IDLE, None, False) \<and> locks s' = locks s \<and>
     run_state (session_destroy P (join_transfer P env fuel)) s' = run_state (session_destroy P (ret ())) s'"
proof -
  let ?r = "run_state (cmd_handle_rein P \<lparr>command = ''REIN'', argument = [], has_argument = False\<rparr>) s"
  have s': "sess (snd ?r) = session_reset_state (closed (sess s))" "locks (snd ?r) = locks s"
    by (rule run_rein; simp)+
  have "\<not> s_transfer_thread (sess (snd ?r))" by (simp add: s' session_reset_state_def)
  from destroy_without_thread [OF this] s' show ?thesis
    by (simp add: case_prod_beta transfer_of_def session_reset_state_def)
qed

text \<open>
  A command that wants a transfer while one is running ends that one. \<open>open_and_start\<close> takes the
  data connection of the running transfer for its own, cannot start a thread, and the block behind
  it, which the five transfer commands share, closes the connection.
\<close>

theorem second_transfer_closes_first:
  assumes "s_transfer_thread_state (sess s) \<noteq> TRANSFER_THREAD_IDLE" "s_data_socket (sess s) \<noteq> INVALID_SOCKET_T"
  shows "case run_state (do {
       (response, opened, begun) \<leftarrow> open_and_start P operation path offset lock clear_restart;
       (if opened then session_close_data_connection P else ret ());
       ret begun }) s of (begun, s') \<Rightarrow>
     \<not> begun \<and> transfer_of (sess s') = transfer_of (sess s) \<and> s_data_socket (sess s') = INVALID_SOCKET_T"
  using assms unfolding open_and_start_def session_open_data_connection_def session_start_transfer_thread_def
    session_clear_restart_offset_def
  by (auto simp: case_prod_beta sget_def smod_def response_frame run_close_data closed_def transfer_of_def)

lemma second_transfer_closes_first_witness:
  "s_data_socket (sess (snd (run_state (do {
       (response, opened, begun) \<leftarrow> open_and_start plain_posix TRANSFER_OP_SEND_LIST ''/srv/ftp'' 0 False False;
       (if opened then session_close_data_connection plain_posix else ret ());
       ret begun }) (plain_sys upload_session)))) = INVALID_SOCKET_T"
  using second_transfer_closes_first [where s = "plain_sys upload_session" and P = plain_posix and path = "''/srv/ftp''"
      and operation = TRANSFER_OP_SEND_LIST and offset = 0 and lock = False and clear_restart = False]
  by (simp add: case_prod_beta plain_sys_def upload_session_def INVALID_SOCKET_T_def)

lemma aborted_loops:
  assumes "s_transfer_should_abort (sess s)"
  shows "remaining > 0 \<Longrightarrow> run_state (send_loop P (\<lambda>_. ret ()) conv path i off remaining n) s = ((TRANSFER_STATUS_ABORTED, n), s)"
    "run_state (receive_loop P (\<lambda>_. ret ()) conv path (Suc fuel) i off n n') s = (Some (TRANSFER_STATUS_ABORTED, n, n'), s)"
    "infos \<noteq> [] \<Longrightarrow> run_state (listing_loop P (\<lambda>_. ret ()) name i infos n) s = ((TRANSFER_STATUS_ABORTED, n), s)"
proof -
  note run = session_should_abort_transfer_def sget_def
  show "remaining > 0 \<Longrightarrow> run_state (send_loop P (\<lambda>_. ret ()) conv path i off remaining n) s = ((TRANSFER_STATUS_ABORTED, n), s)"
    by (subst send_loop.simps) (simp add: run assms)
  show "run_state (receive_loop P (\<lambda>_. ret ()) conv path (Suc fuel) i off n n') s = (Some (TRANSFER_STATUS_ABORTED, n, n'), s)"
    by (simp add: run assms)
  show "infos \<noteq> [] \<Longrightarrow> run_state (listing_loop P (\<lambda>_. ret ()) name i infos n) s = ((TRANSFER_STATUS_ABORTED, n), s)"
    by (cases infos) (simp_all add: run assms)
qed

lemma run_abor:
  assumes "s_transfer_thread_state (sess s) = TRANSFER_THREAD_RUNNING"
  shows "sess (snd (run_state (cmd_handle_abor P cmd) s)) = closed ((sess s)\<lparr>s_transfer_should_abort := True\<rparr>)"
  using assms unfolding cmd_handle_abor_def session_get_transfer_thread_state_def session_set_transfer_should_abort_def
  by (simp add: case_prod_beta sget_def smod_def response_frame run_close_data)

text \<open>
  ABOR that comes after the last look at the abort flag of a transfer aborts the next one. When the
  transfer ends with another result than an abort, its thread leaves the flag set; and in every state
  with the flag set, sending and receiving end as aborted before a byte is moved.
\<close>

theorem late_abort_hits_next_transfer:
  assumes "s_transfer_thread_state (sess s) = TRANSFER_THREAD_RUNNING" "result \<noteq> TRANSFER_STATUS_ABORTED"
    and "s' = snd (run_state (finish_transfer P tp result) (snd (run_state (cmd_handle_abor P cmd) s)))"
  shows "s_transfer_thread_state (sess s') = TRANSFER_THREAD_IDLE \<and> s_transfer_should_abort (sess s') \<and>
    (\<forall>s2. s_transfer_should_abort (sess s2) \<longrightarrow>
      (\<forall>remaining > 0. run_state (send_loop P2 (\<lambda>_. ret ()) conv path i off remaining 0) s2 = ((TRANSFER_STATUS_ABORTED, 0), s2)) \<and>
      run_state (receive_loop P2 (\<lambda>_. ret ()) conv path (Suc fuel) i off 0 0) s2 = (Some (TRANSFER_STATUS_ABORTED, 0, 0), s2))"
proof (intro conjI allI impI)
  show "s_transfer_thread_state (sess s') = TRANSFER_THREAD_IDLE" "s_transfer_should_abort (sess s')"
    using assms by (simp_all add: run_finish run_abor finished_def closed_def)
qed (rule aborted_loops; assumption)+

lemma late_abort_hits_next_transfer_witness:
  "s_transfer_should_abort (sess (snd (run_state (finish_transfer plain_posix upload_params TRANSFER_STATUS_OK)
     (snd (run_state (cmd_handle_abor plain_posix \<lparr>command = ''ABOR'', argument = [], has_argument = False\<rparr>)
        (plain_sys (upload_session\<lparr>s_transfer_thread_state := TRANSFER_THREAD_RUNNING\<rparr>)))))))"
  by (rule late_abort_hits_next_transfer [OF _ _ refl, THEN conjunct2, THEN conjunct1]) (simp_all add: plain_sys_def)

section \<open>Uploads\<close>

text \<open>
  An empty upload leaves no file. When the peer closes the data connection without a byte, the
  transfer succeeds and the file is never opened, so it is not created; and STOR has deleted the old
  one before.
\<close>

theorem empty_upload_creates_nothing:
  fixes s :: "'w sys"
  assumes "s_data_socket (sess s) \<noteq> INVALID_SOCKET_T" "\<not> s_transfer_should_abort (sess s)"
    and "P = P0\<lparr>px_malloc := ret True, px_recv := (\<lambda>fd n. ret (Inr []))\<rparr>"
  shows "case run_state (transfer_receive_file P (\<lambda>_. ret ()) (Suc fuel) path offset) s of (r, s') \<Rightarrow>
    r = Some TRANSFER_STATUS_OK \<and> trace s' = trace s @ [Ev_recv (s_data_socket (sess s)) []]"
  using assms
  by (simp add: transfer_receive_file_def run_abort run_os sget_def smod_def count_upload_def net_receive_def sys_recv_def
      emit_def run_calls)

lemma empty_upload_creates_nothing_witness:
  "fst (run_state (transfer_receive_file (plain_posix\<lparr>px_malloc := ret True, px_recv := (\<lambda>fd n. ret (Inr []))\<rparr>)
     (\<lambda>_. ret ()) 1 ''/srv/ftp/f'' 0) (plain_sys upload_session)) = Some TRANSFER_STATUS_OK"
  using empty_upload_creates_nothing [OF _ _ refl, of "plain_sys upload_session" plain_posix 0 "''/srv/ftp/f''" 0]
  by (simp add: plain_sys_def upload_session_def plain_session_def session_reset_state_def zero_session_def INVALID_SOCKET_T_def case_prod_beta)

lemma write_all_once:
  assumes "px_write P = (\<lambda>_ bs. ret (Inr (length bs)))" "todo \<noteq> []"
  shows "run_state (write_loop P fd k todo) s = (True, s\<lparr>trace := trace s @ [Ev_write fd todo]\<rparr>)"
proof -
  have "run_state (write_loop P fd k []) s' = (True, s')" for s' :: "('a, 'b) os_scheme"
    by (subst write_loop.simps) simp
  then show ?thesis using assms
    by (subst write_loop.simps) (simp add: sys_write_def run_os emit_def)
qed

lemma receive_segment:
  fixes s :: "string list sys"
  assumes "world s = seg # segs" "\<not> s_transfer_should_abort (sess s)" "seg \<noteq> []" "length seg \<le> TRANSFER_BUFFER_SIZE"
    and "conv seg = Some data" "data \<noteq> []" "off \<ge> 0"
  shows "run_state (receive_loop peer_posix (\<lambda>_. ret ()) conv path (Suc fuel) i off n n') s =
    run_state (receive_loop peer_posix (\<lambda>_. ret ()) conv path fuel (i + 1) off (n + length seg) (n' + length data))
      (s\<lparr>world := segs, trace := trace s @ [Ev_recv (s_data_socket (sess s)) seg, Ev_path (Op_open O_write_create) path,
         Ev_seek 3 (off + int n'), Ev_write 3 data, Ev_close 3]\<rparr>)"
proof -
  have recv: "run_state (net_receive peer_posix fd TRANSFER_BUFFER_SIZE) s =
      (Inr seg, s\<lparr>world := segs, trace := trace s @ [Ev_recv fd seg]\<rparr>)" for fd
    using assms by (simp add: net_receive_def sys_recv_def run_os emit_def peer_posix_def plain_posix_def)
  have "px_write peer_posix = (\<lambda>_ bs. ret (Inr (length bs)))" by (simp add: peer_posix_def plain_posix_def)
  note w = write_all_once [OF this assms(6)]
  have stored: "run_state (fs_write_file_chunk peer_posix path data (off + int n')) t =
      (int (length data), t\<lparr>trace := trace t @ [Ev_path (Op_open O_write_create) path, Ev_seek 3 (off + int n'), Ev_write 3 data, Ev_close 3]\<rparr>)"
    for t :: "string list sys"
    using assms(6,7) by (simp add: fs_write_file_chunk_def run_calls w run_os run_abort) (simp add: peer_posix_def plain_posix_def)
  show ?thesis using assms by (simp add: run_abort recv stored)
qed

text \<open>What an ASCII upload stores when the peer sends these segments, one per reception.\<close>

definition stored_text :: "string list \<Rightarrow> string" where
  "stored_text segments = map snd (writes_at 0 (trace (snd (run_state
     (transfer_receive_file_ascii peer_posix (\<lambda>_. ret ()) (Suc (length segments)) ''/srv/ftp/f'' 0)
     (peer_sys segments upload_session)))))"

text \<open>
  The conversion of an ASCII upload depends on how the line ends are cut into segments: the same
  bytes \<open>ab CR LF cd\<close> are stored as \<open>ab LF cd\<close> when they arrive together, and unconverted when the
  CR is the last byte of a segment.
\<close>

theorem split_line_end_kept:
  "stored_text [''ab'' @ [CR, LF] @ ''cd''] = ''ab'' @ [LF] @ ''cd'' \<and>
   stored_text [''ab'' @ [CR], [LF] @ ''cd''] = ''ab'' @ [CR, LF] @ ''cd''"
proof -
  have end_run: "run_state (receive_loop peer_posix (\<lambda>_. ret ()) conv path (Suc 0) i off n n') s =
      (Some (TRANSFER_STATUS_OK, n, n'), s\<lparr>trace := trace s @ [Ev_recv (s_data_socket (sess s)) []]\<rparr>)"
    if "world s = []" "\<not> s_transfer_should_abort (sess s)" for conv path i off n n' and s :: "string list sys"
    using that by (simp add: run_abort net_receive_def sys_recv_def run_os emit_def peer_posix_def plain_posix_def)
  have malloc: "run_state (os (px_malloc peer_posix)) s = (True, s)" for s :: "string list sys"
    by (simp add: run_os peer_posix_def plain_posix_def)
  have session: "\<not> s_transfer_should_abort upload_session" "s_data_socket upload_session = 5"
    by (simp_all add: upload_session_def plain_session_def session_reset_state_def)
  note run = run_abort malloc receive_segment end_run session smod_def count_upload_def crlf_to_lf_eq peer_sys_def
    TRANSFER_BUFFER_SIZE_def INVALID_SOCKET_T_def at_def
  have "stored_text [''ab'' @ [CR, LF] @ ''cd''] = ''ab'' @ [LF] @ ''cd''"
    unfolding stored_text_def transfer_receive_file_ascii_def by (simp add: run del: receive_loop.simps)
  moreover have "stored_text [''ab'' @ [CR], [LF] @ ''cd''] = ''ab'' @ [CR, LF] @ ''cd''"
    unfolding stored_text_def transfer_receive_file_ascii_def by (simp add: run del: receive_loop.simps)
  ultimately show ?thesis by simp
qed

section \<open>A full server\<close>

lemma busy_line: "proto_format_response PROTO_MAX_RESPONSE_LINE PROTO_RESP_SERVICE_NOT_AVAIL
    ''Service not available, too many connections'' = Some (''421 Service not available, too many connections'' @ [CR, LF])"
  by code_simp



end
