(* ===== verification/Logger.thy ===== *)
theory Logger
  imports Filesys
begin

text \<open>
  \<open>server/src/logger.c\<close>. Nothing else in the program reads what the logger keeps or writes, so the
  models of the other components leave its calls out; here it is a state of its own, with the texts it
  has written and where. Whether a file can be opened, whether the output is a terminal and the
  message that \<open>vfprintf\<close> makes are arguments.
\<close>

section \<open>State\<close>

text \<open>The levels are an enumeration of C, so integers; the code guards against others.\<close>

type_synonym log_level_t = int

abbreviation LOG_LEVEL_DEBUG :: log_level_t where "LOG_LEVEL_DEBUG \<equiv> 0"
abbreviation LOG_LEVEL_INFO :: log_level_t where "LOG_LEVEL_INFO \<equiv> 1"
abbreviation LOG_LEVEL_WARN :: log_level_t where "LOG_LEVEL_WARN \<equiv> 2"
abbreviation LOG_LEVEL_ERROR :: log_level_t where "LOG_LEVEL_ERROR \<equiv> 3"

definition level_strings :: "string list" where
  "level_strings = [''DEBUG'', ''INFO'', ''WARN'', ''ERROR'']"

definition level_colors :: "string list" where
  "level_colors = [CHR 0x1B # ''[36m'', CHR 0x1B # ''[32m'', CHR 0x1B # ''[33m'', CHR 0x1B # ''[31m'']"

definition COLOR_RESET :: string where "COLOR_RESET = CHR 0x1B # ''[0m''"

datatype log_stream = Log_stdout | Log_file string

record logger =
  lg_fp :: "log_stream option"
  lg_level :: log_level_t
  lg_initialized :: bool
  lg_written :: "(log_stream \<times> string) list"

definition g_logger :: logger where
  "g_logger = \<lparr>lg_fp = None, lg_level = LOG_LEVEL_INFO, lg_initialized = False, lg_written = []\<rparr>"

section \<open>Operations\<close>

definition get_timestamp :: "'w posix \<Rightarrow> nat \<Rightarrow> ('w, 'z, string) os_m" where
  "get_timestamp P n = do {
     now \<leftarrow> os (px_time P);
     ret (take (n - 1) (px_strftime P False ''%Y-%m-%d %H:%M:%S'' now)) }"

definition logger_close :: "logger \<Rightarrow> logger" where
  "logger_close g = g\<lparr>lg_fp := None, lg_initialized := False\<rparr>"

definition logger_init :: "(string \<Rightarrow> bool) \<Rightarrow> string option \<Rightarrow> log_level_t \<Rightarrow> logger \<Rightarrow> int \<times> logger" where
  "logger_init opens log_file level g =
     (let g = (if lg_initialized g then logger_close g else g)
      in case log_file of
           Some f \<Rightarrow>
             (if \<not> opens f then (-1, g\<lparr>lg_fp := None\<rparr>)
              else (0, g\<lparr>lg_fp := Some (Log_file f), lg_level := level, lg_initialized := True\<rparr>))
         | None \<Rightarrow> (0, g\<lparr>lg_fp := Some Log_stdout, lg_level := level, lg_initialized := True\<rparr>))"

definition log_header :: "bool \<Rightarrow> log_level_t \<Rightarrow> string \<Rightarrow> string \<Rightarrow> int \<Rightarrow> string \<Rightarrow> string" where
  "log_header in_tty level timestamp ex_filename line funcname =
     (let name = level_strings ! nat level
      in (if in_tty then level_colors ! nat level @ ''['' @ name @ '']'' @ COLOR_RESET
          else ''['' @ name @ '']'') @
         ''['' @ timestamp @ '']['' @ ex_filename @ '':'' @ dec_int line @ '':'' @ funcname @ ''] '')"

definition logger_log :: "bool \<Rightarrow> string \<Rightarrow> log_level_t \<Rightarrow> string \<Rightarrow> int \<Rightarrow> string \<Rightarrow> string \<Rightarrow> logger \<Rightarrow> logger" where
  "logger_log tty timestamp level filename line funcname message g =
     (if level < LOG_LEVEL_DEBUG \<or> level > LOG_LEVEL_ERROR then g
      else if \<not> lg_initialized g \<or> level < lg_level g then g
      else
        (case lg_fp g of
           None \<Rightarrow> g
         | Some fp \<Rightarrow>
             (let in_tty = (fp = Log_stdout \<and> tty)
              in g\<lparr>lg_written := lg_written g @
                   [(fp, log_header in_tty level timestamp (fs_extract_filename filename) line funcname @ message @ [LF])]\<rparr>)))"

definition logger_set_level :: "log_level_t \<Rightarrow> logger \<Rightarrow> logger" where
  "logger_set_level level g =
     (if level \<ge> LOG_LEVEL_DEBUG \<and> level \<le> LOG_LEVEL_ERROR then g\<lparr>lg_level := level\<rparr> else g)"

section \<open>Only wanted messages are written\<close>

text \<open>The stream is set exactly while the logger is initialised, and what is written is kept.\<close>

definition logger_ok :: "logger \<Rightarrow> bool" where
  "logger_ok g \<longleftrightarrow> (lg_initialized g \<longleftrightarrow> lg_fp g \<noteq> None)"

datatype log_call = Open "string option" log_level_t | Log bool string log_level_t string int string string | Set_level log_level_t | Close

definition log_apply :: "(string \<Rightarrow> bool) \<Rightarrow> logger \<Rightarrow> log_call \<Rightarrow> logger" where
  "log_apply opens g c =
     (case c of
        Open f l \<Rightarrow> snd (logger_init opens f l g)
      | Log tty ts l file line f m \<Rightarrow> logger_log tty ts l file line f m g
      | Set_level l \<Rightarrow> logger_set_level l g
      | Close \<Rightarrow> logger_close g)"

lemma logger_ok_start: "logger_ok g_logger"
  by (simp add: logger_ok_def g_logger_def)

lemma logger_ok_apply: "logger_ok g \<Longrightarrow> logger_ok (log_apply opens g c)"
  by (auto simp: logger_ok_def log_apply_def logger_init_def logger_log_def logger_set_level_def logger_close_def Let_def
      split: log_call.splits option.splits)

lemma logger_ok_run: "logger_ok (foldl (log_apply opens) g_logger cs)"
  by (induction cs rule: rev_induct) (simp_all add: logger_ok_start logger_ok_apply)

text \<open>
  In every state that the calls of the logger reach, a message is written, as one line on the open
  stream, exactly if the logger is initialised and the level is one of the four and not below the
  least one wanted; otherwise nothing changes. The second check for the stream never fails.
\<close>

lemma logger_log_reached:
  assumes g: "g = foldl (log_apply opens) g_logger cs"
  shows "if lg_initialized g \<and> max 0 (lg_level g) \<le> level \<and> level \<le> 3
    then \<exists>fp header. lg_fp g = Some fp \<and>
      logger_log tty ts level file line f message g = g\<lparr>lg_written := lg_written g @ [(fp, header @ message @ [LF])]\<rparr>
    else logger_log tty ts level file line f message g = g"
proof -
  have "lg_initialized g \<longleftrightarrow> lg_fp g \<noteq> None" using logger_ok_run unfolding g logger_ok_def by blast
  then show ?thesis by (auto simp: logger_log_def Let_def split: option.splits)
qed

end
