(* ===== verification/Program.thy ===== *)
theory Program
  imports Server_Safety Logger
begin

text \<open>
  \<open>server/src/main.c\<close>: the command line, and the life of the process from \<open>main\<close> on. The arguments are
  \<open>argv\<close> without the name of the program. What other threads and signals do is the \<open>env\<close> of the accept
  loop; \<open>signal_handler\<close> is \<open>server_stop\<close>.
\<close>

section \<open>The command line\<close>

text \<open>\<open>atoi\<close> of glibc: \<open>strtol\<close>, and the low 32 bits of its result.\<close>

definition atoi :: "string \<Rightarrow> int" where
  "atoi s = sint (word_of_int (fst (strtoll s)) :: 32 word)"

definition default_config :: server_config_t where
  "default_config = \<lparr>cfg_port = 2121, cfg_root_dir = strncpy_buf 1024 ''/tmp'', cfg_bind_address = strncpy_buf 64 ''127.0.0.1'',
     cfg_max_backlog = 10, cfg_command_timeout_ms = 300000, cfg_max_connections = 100, cfg_address_family = NET_AF_UNSPEC\<rparr>"

definition parse_family :: "string \<Rightarrow> net_addr_family_t option" where
  "parse_family s =
     (if s = ''ipv4'' then Some NET_AF_IPV4
      else if s = ''ipv6'' then Some NET_AF_IPV6
      else if s = ''unspec'' then Some NET_AF_UNSPEC
      else None)"

definition parse_level :: "string \<Rightarrow> log_level_t \<Rightarrow> log_level_t" where
  "parse_level s log_level =
     (if s = ''DEBUG'' then LOG_LEVEL_DEBUG
      else if s = ''INFO'' then LOG_LEVEL_INFO
      else if s = ''WARN'' then LOG_LEVEL_WARN
      else if s = ''ERROR'' then LOG_LEVEL_ERROR
      else log_level)"

text \<open>An option with a value behind it. Where the code returns the result is the exit code, else the
  configuration and the log level.\<close>

definition parse_option ::
  "string \<Rightarrow> string \<Rightarrow> server_config_t \<times> log_level_t \<Rightarrow> int + server_config_t \<times> log_level_t" where
  "parse_option a v = (\<lambda>(config, log_level).
     if a = ''-p'' \<or> a = ''-port'' then Inr (config\<lparr>cfg_port := word_of_int (atoi v)\<rparr>, log_level)
     else if a = ''-r'' \<or> a = ''-root'' then Inr (config\<lparr>cfg_root_dir := strncpy_buf 1024 v\<rparr>, log_level)
     else if a = ''-b'' \<or> a = ''-bind'' then Inr (config\<lparr>cfg_bind_address := strncpy_buf 64 v\<rparr>, log_level)
     else if a = ''-a'' \<or> a = ''-addr'' then
       (case parse_family v of
          None \<Rightarrow> Inl 1
        | Some family \<Rightarrow> Inr (config\<lparr>cfg_address_family := family\<rparr>, log_level))
     else if a = ''-l'' then Inr (config, parse_level v log_level)
     else if a = ''-c'' then Inr (config\<lparr>cfg_max_connections := atoi v\<rparr>, log_level)
     else if a = ''-h'' then Inl 0
     else Inl 1)"

fun parse_args :: "string list \<Rightarrow> server_config_t \<times> log_level_t \<Rightarrow> int + server_config_t \<times> log_level_t" where
  "parse_args [] settings = Inr settings"
| "parse_args [a] settings = (if a = ''-h'' then Inl 0 else Inl 1)"
| "parse_args (a # v # args) settings =
     (case parse_option a v settings of
        Inl code \<Rightarrow> Inl code
      | Inr settings \<Rightarrow> parse_args args settings)"

definition signal_handler :: "'w posix \<Rightarrow> ('w, unit) server_m" where
  "signal_handler P = server_stop P"

section \<open>The process\<close>

text \<open>The result is the exit code with the logger, or \<open>None\<close> while the server runs.\<close>

definition main_program ::
  "'w posix \<Rightarrow> string list \<Rightarrow> 'w server_env \<Rightarrow> nat \<Rightarrow> logger \<Rightarrow> ('w, (int \<times> logger) option) server_m" where
  "main_program P args env fuel g =
     (case parse_args args (default_config, LOG_LEVEL_INFO) of
        Inl code \<Rightarrow> ret (Some (code, g))
      | Inr (config, log_level) \<Rightarrow>
          (case logger_init (\<lambda>_. False) None log_level g of
             (r, g) \<Rightarrow>
               if r \<noteq> 0 then ret (Some (1, g))
               else do {
                 r \<leftarrow> server_init P (Some config);
                 if r \<noteq> 0 then ret (Some (1, logger_close g))
                 else do {
                   result \<leftarrow> server_run P env fuel;
                   (case result of
                      None \<Rightarrow> ret None
                    | Some code \<Rightarrow> do {
                        server_cleanup P;
                        ret (Some (code, logger_close g)) }) } }))"

section \<open>Properties\<close>

lemma atoi_dec: "n < 2 ^ 31 \<Longrightarrow> atoi (dec n) = int n"
proof -
  assume n: "n < 2 ^ 31"
  then have "fst (strtoll (dec n)) = int n" using scan_number_dec [of "[]" n] by (simp add: strtoll_def)
  then have "atoi (dec n) = (int n + 2 ^ 31) mod 2 ^ 32 - 2 ^ 31"
    by (simp only: atoi_def int_word_sint) simp
  with n show ?thesis by simp
qed

lemma stopped_loop_returns:
  assumes "\<And>v. \<not> sv_running (snd (run_state (env k) v))" "i \<le> k" "k < i + fuel"
  shows "fst (run_state (accept_loop_run P env i fuel) v) = Some 0"
  using assms(2,3)
proof (induction fuel arbitrary: i v)
  case (Suc fuel)
  show ?case
  proof (cases "i = k")
    case True
    then show ?thesis using assms(1) by (simp add: case_prod_beta)
  next
    case False
    with Suc show ?thesis by (simp add: case_prod_beta)
  qed
qed simp

text \<open>After \<open>main\<close> the process serves nothing: not running, no listening socket, tables shut down.\<close>

definition shut_down :: "'w server \<Rightarrow> bool" where
  "shut_down v \<longleftrightarrow> \<not> sv_running v \<and> sv_listening_socket v = INVALID_SOCKET_T \<and> \<not> g_initialized (sv_handlers v) \<and>
     \<not> auth_initialized (sv_auth v)"

lemma cleanup_shuts_down: "shut_down (snd (run_state (server_cleanup P) v))"
proof -
  have c: "does UNIV (net_close_socket P fd :: ('a, unit) server_m)" for fd by (rule doing; simp)
  show ?thesis unfolding server_cleanup_def
    by (simp add: case_prod_beta shut_down_def does_sv [OF c] init_auth)
qed

lemma failed_init_shut_down:
  fixes P :: "'w posix"
  assumes "fst (run_state (server_init P (Some config)) (server0 w)) \<noteq> 0"
  shows "shut_down (snd (run_state (server_init P (Some config)) (server0 w)))"
proof -
  have calls: "does UNIV (fs_is_directory P p :: ('w, bool) server_m)" "does UNIV (fs_create_directory P p :: ('w, int) server_m)"
    "does UNIV (os (px_fopen P p) :: ('w, string option) server_m)"
    "does UNIV (net_create_listening_socket P f b pt bl :: ('w, int) server_m)" for p f b pt bl
    by (rule doing; simp)+
  note frame = does_sv(8) [OF calls(1)] does_sv(8) [OF calls(2)] does_sv(8) [OF calls(3)] does_sv(8) [OF calls(4)]
  have "sv_listening_socket (snd (run_state (server_init P (Some config)) (server0 w))) = INVALID_SOCKET_T"
    using assms unfolding server_init_def by (simp add: case_prod_beta frame server0_def split: if_splits)
  with assms init_started [OF refl, of P config w] show ?thesis by (auto simp: shut_down_def case_prod_beta)
qed

lemma parse_codes: "parse_args args settings = Inl code \<Longrightarrow> code \<in> {0, 1}"
  by (induction args settings rule: parse_args.induct)
    (auto simp: parse_option_def split: if_splits sum.splits option.splits prod.splits)

text \<open>
  C26: the program ends when it is stopped, and cleanly. Whatever the command line, the clients and the
  operating system: if the server is stopped by the \<open>k\<close>-th turn of the accept loop, \<open>main\<close> returns,
  with exit code 0 or 1, and then the server does not run or listen, and the command table and the
  user database are shut down.
\<close>

theorem main_ends:
  assumes "\<And>v. \<not> sv_running (snd (run_state (env k) v))" "k < fuel"
  shows "case run_state (main_program P args env fuel g_logger) (server0 w) of (r, v) \<Rightarrow>
    shut_down v \<and> (\<exists>code g. r = Some (code, g) \<and> code \<in> {0, 1})"
proof (cases "parse_args args (default_config, LOG_LEVEL_INFO)")
  case (Inl code)
  then show ?thesis using parse_codes [OF Inl]
    by (simp add: main_program_def shut_down_def server0_def cmd_state0_def auth_state0_def)
next
  case (Inr settings)
  then obtain config level where s: "parse_args args (default_config, LOG_LEVEL_INFO) = Inr (config, level)" by (cases settings) auto
  obtain r v where init: "run_state (server_init P (Some config)) (server0 w) = (r, v)" by fastforce
  have "fst (run_state (server_run P env fuel) v) = Some 0" if "r = 0"
    using that init init_started [OF refl, of P config w] stopped_loop_returns [where env = env and i = 0, OF assms(1)] assms(2)
    by (simp add: server_run_def started_def case_prod_beta)
  with failed_init_shut_down [of P config w] init show ?thesis
    by (auto simp: main_program_def s logger_init_def g_logger_def case_prod_beta cleanup_shuts_down)
qed

lemma main_ends_witness:
  "\<exists>code g. fst (run_state (main_program plain_posix [''-p'', ''2100''] (\<lambda>_. server_stop plain_posix) 1 g_logger) (server0 ()))
     = Some (code, g) \<and> code \<in> {0, 1}"
proof -
  have c: "does UNIV (net_close_socket plain_posix fd :: (unit, unit) server_m)" for fd by (rule doing; simp)
  have "\<not> sv_running (snd (run_state (server_stop plain_posix) v))" for v :: "unit server"
    by (simp add: server_stop_def case_prod_beta does_sv [OF c])
  from main_ends [where env = "\<lambda>_. server_stop plain_posix" and k = 0 and fuel = 1, OF this] show ?thesis
    by (simp add: case_prod_beta)
qed

end
